(* ===== verification/Orion_Prelude.thy ===== *)
theory Orion_Prelude
  imports Main "HOL-Library.Word" "HOL-Library.Monad_Syntax"
begin

text \<open>
  Shared vocabulary of the development: the machine integers of the 32-bit kernel, C arrays
  whose out-of-range accesses are explicit, C \<open>int\<close> arithmetic whose overflow is explicit,
  and the generic lemmas the component theories use.

  A C object of a known size is a list; reading or writing outside it is undefined behaviour in
  C and is the value \<^const>\<open>None\<close> here, so a theorem that an operation returns \<^const>\<open>Some\<close> is
  also a theorem that it stays inside its objects.
\<close>

unbundle bit_operations_syntax

type_synonym u8 = "8 word"
type_synonym u16 = "16 word"
type_synonym u32 = "32 word"
type_synonym u64 = "64 word"
type_synonym bytes = "8 word list"

named_theorems word_to_nat \<open>reading machine words as natural numbers\<close>
named_theorems c_access \<open>reads and writes of C arrays\<close>

section \<open>C arrays\<close>

definition arr_get :: "'a list \<Rightarrow> nat \<Rightarrow> 'a option" where
  "arr_get xs i = (if i < length xs then Some (xs ! i) else None)"

definition arr_set :: "'a list \<Rightarrow> nat \<Rightarrow> 'a \<Rightarrow> 'a list option" where
  "arr_set xs i v = (if i < length xs then Some (xs[i := v]) else None)"

section \<open>C signed integers\<close>

text \<open>
  A C \<open>int\<close> is a mathematical integer in the 32-bit range; an operation whose result leaves the
  range is undefined behaviour, the value \<^const>\<open>None\<close>.
\<close>

definition int_range :: "int \<Rightarrow> bool" where
  "int_range x \<longleftrightarrow> - (2 ^ 31) \<le> x \<and> x < 2 ^ 31"

definition c_int :: "int \<Rightarrow> int option" where
  "c_int x = (if int_range x then Some x else None)"

text \<open>Division and remainder of C truncate towards zero.\<close>

definition c_div :: "int \<Rightarrow> int \<Rightarrow> int" where
  "c_div a b = sgn a * sgn b * (\<bar>a\<bar> div \<bar>b\<bar>)"

definition c_mod :: "int \<Rightarrow> int \<Rightarrow> int" where
  "c_mod a b = a - b * c_div a b"

section \<open>Counting loops\<close>

text \<open>
  A \<^verbatim>\<open>for\<close> loop whose range is fixed when it starts is a fold over the list of its indexes.  The body
  of \<open>for_each\<close> always goes on; the body of \<open>for_until\<close> may leave the loop by returning a value.
\<close>

fun for_each :: "('i \<Rightarrow> 's \<Rightarrow> 's option) \<Rightarrow> 'i list \<Rightarrow> 's \<Rightarrow> 's option" where
  "for_each f [] s = Some s"
| "for_each f (i # ix) s = do { s \<leftarrow> f i s; for_each f ix s }"

fun for_until :: "('i \<Rightarrow> 's \<Rightarrow> ('r option \<times> 's) option) \<Rightarrow> 'i list \<Rightarrow> 's \<Rightarrow> ('r option \<times> 's) option" where
  "for_until f [] s = Some (None, s)"
| "for_until f (i # ix) s = do {
     (r, s) \<leftarrow> f i s;
     if r = None then for_until f ix s else Some (r, s) }"

section \<open>Lemmas on arrays\<close>

lemma arr_get_Some_iff [c_access]: "arr_get xs i = Some v \<longleftrightarrow> i < length xs \<and> xs ! i = v"
  by (auto simp: arr_get_def)

lemma arr_get_None_iff [c_access]: "arr_get xs i = None \<longleftrightarrow> length xs \<le> i"
  by (auto simp: arr_get_def)

lemma arr_get_in [simp]: "i < length xs \<Longrightarrow> arr_get xs i = Some (xs ! i)"
  by (simp add: arr_get_def)

lemma arr_set_in [simp]: "i < length xs \<Longrightarrow> arr_set xs i v = Some (xs[i := v])"
  by (simp add: arr_set_def)

lemma arr_set_Some_iff [c_access]:
  "arr_set xs i v = Some ys \<longleftrightarrow> i < length xs \<and> ys = xs[i := v]"
  by (auto simp: arr_set_def)

lemma arr_get_append_left [simp]: "i < length xs \<Longrightarrow> arr_get (xs @ ys) i = arr_get xs i"
  by (simp add: arr_get_def nth_append)

lemma arr_get_append_length [simp]: "arr_get (xs @ y # ys) (length xs) = Some y"
  by (simp add: arr_get_def)

lemma arr_set_append_length [simp]: "arr_set (xs @ y # ys) (length xs) v = Some (xs @ v # ys)"
  by (simp add: arr_set_def)

section \<open>Lemmas on C integers\<close>

lemma c_int_in [simp]: "int_range x \<Longrightarrow> c_int x = Some x"
  by (simp add: c_int_def)

lemma c_int_Some_iff: "c_int x = Some y \<longleftrightarrow> int_range x \<and> y = x"
  by (auto simp: c_int_def)

lemma c_div_nonneg: "0 \<le> a \<Longrightarrow> 0 < b \<Longrightarrow> c_div a b = a div b"
  by (cases "a = 0") (simp_all add: c_div_def)

lemma c_mod_nonneg: "0 \<le> a \<Longrightarrow> 0 < b \<Longrightarrow> c_mod a b = a mod b"
  by (simp add: c_mod_def c_div_nonneg minus_mult_div_eq_mod)

section \<open>Lemmas on words\<close>

lemma unat_and_mask [word_to_nat]: "unat (w AND mask n) = unat w mod 2 ^ n"
proof -
  have "unat (w AND mask n) = take_bit n (unat w)"
    by (simp only: take_bit_eq_mask [symmetric] unsigned_take_bit_eq)
  then show ?thesis by (simp only: take_bit_eq_mod)
qed

lemma unat_and_not_mask: "unat ((w :: 'a::len word) AND NOT (mask k)) = unat w - unat w mod 2 ^ k"
proof -
  have "(w AND mask k) OR (w AND NOT (mask k)) = w" "(w AND mask k) AND (w AND NOT (mask k)) = 0"
    by (auto intro!: bit_word_eqI simp: bit_simps)
  then have "(w AND mask k) + (w AND NOT (mask k)) = w"
    using disjunctive_add_eq_or [of "w AND mask k" "w AND NOT (mask k)"] by simp
  then have "w AND NOT (mask k) = w - (w AND mask k)" by (metis add_diff_cancel_left')
  moreover have "w AND mask k \<le> w" by (simp add: word_and_le2)
  ultimately show ?thesis by (simp add: unat_sub unat_and_mask)
qed

lemma pow2_of_and_pred:
  fixes n :: nat
  assumes "n \<noteq> 0" "n AND (n - 1) = 0"
  shows "\<exists>k. n = 2 ^ k"
proof -
  obtain k where k: "2 ^ k \<le> n" "n < 2 ^ (k + 1)" using ex_power_ivl1 [of 2 n] assms(1) by auto
  have "n = 2 ^ k"
  proof (rule ccontr)
    assume "n \<noteq> 2 ^ k"
    with k have "n div 2 ^ k = 1" "(n - 1) div 2 ^ k = 1" by (auto intro!: div_nat_eqI)
    then have "bit n k" "bit (n - 1) k" by (simp_all add: bit_iff_odd)
    then have "bit (n AND (n - 1)) k" by (simp add: bit_and_iff)
    with assms(2) show False by simp
  qed
  then show ?thesis ..
qed

lemma unat_power_lower: "k < LENGTH('a::len) \<Longrightarrow> unat (2 ^ k :: 'a word) = 2 ^ k"
proof -
  assume "k < LENGTH('a)"
  then have "unat (of_nat (2 ^ k) :: 'a word) = 2 ^ k"
    by (simp only: unsigned_of_nat) (simp add: take_bit_nat_eq_self)
  then show ?thesis by simp
qed

lemma unat_plus_one [word_to_nat]:
  "unat (w :: 'a::len word) + 1 < 2 ^ LENGTH('a) \<Longrightarrow> unat (w + 1) = unat w + 1"
  by (simp add: unat_word_ariths)

lemma unat_add_no_wrap [word_to_nat]:
  "unat (a :: 'a::len word) + unat b < 2 ^ LENGTH('a) \<Longrightarrow> unat (a + b) = unat a + unat b"
  by (simp add: unat_word_ariths)

lemma unat_sub_no_wrap [word_to_nat]:
  "b \<le> (a :: 'a::len word) \<Longrightarrow> unat (a - b) = unat a - unat b"
  by (rule unat_sub)

lemma unat_lt_exp: "unat (w :: 'a::len word) < 2 ^ LENGTH('a)"
  by simp

lemma word_eq_unat_iff: "(a :: 'a::len word) = b \<longleftrightarrow> unat a = unat b"
  by (simp add: word_unat_eq_iff)

lemma sint_u32: "sint (w::u32) = (if uint w < 0x80000000 then uint w else uint w - 0x100000000)"
proof -
  have "sint w = (uint w + 0x80000000) mod 0x100000000 - 0x80000000"
    by (simp add: sint_uint signed_take_bit_eq_take_bit_shift take_bit_eq_mod)
  moreover have "0 \<le> uint w" "uint w < 0x100000000" using uint_bounded [of w] by simp_all
  moreover have "(uint w + 0x80000000) mod 0x100000000 = (uint w - 0x80000000) mod 0x100000000"
    using minus_mod_self2 [of "uint w + 0x80000000" "0x100000000"] by simp
  ultimately show ?thesis by (auto simp: mod_pos_pos_trivial)
qed

lemma sint_u8: "sint (w::u8) = (if uint w < 0x80 then uint w else uint w - 0x100)"
proof -
  have "sint w = (uint w + 0x80) mod 0x100 - 0x80"
    by (simp add: sint_uint signed_take_bit_eq_take_bit_shift take_bit_eq_mod)
  moreover have "0 \<le> uint w" "uint w < 0x100" using uint_bounded [of w] by simp_all
  moreover have "(uint w + 0x80) mod 0x100 = (uint w - 0x80) mod 0x100"
    using minus_mod_self2 [of "uint w + 0x80" "0x100"] by simp
  ultimately show ?thesis by (auto simp: mod_pos_pos_trivial)
qed

lemma sint_of_nat_u8: "n < 128 \<Longrightarrow> sint (of_nat n :: u8) = int n"
  by (simp add: sint_u8 unsigned_of_nat take_bit_nat_eq_self)

lemma sint_eq_iff: "sint (a :: 'a::len word) = sint b \<longleftrightarrow> a = b"
  by (rule word_eq_iff_signed [symmetric])

lemma sint_0_iff: "sint (a :: 'a::len word) = 0 \<longleftrightarrow> a = 0"
  using sint_eq_iff [of a 0] by simp

text \<open>Clearing a flag and setting it again when it was set before.\<close>

lemma single_bit_restore:
  "(if f AND 2 ^ k \<noteq> 0 then (f AND NOT (2 ^ k)) OR 2 ^ k else f AND NOT (2 ^ k)) AND 2 ^ k
    = (f :: 'a::len word) AND 2 ^ k"
proof (cases "bit f k")
  case True
  then have "f AND 2 ^ k = 2 ^ k" by (intro bit_word_eqI) (auto simp: bit_simps)
  moreover have "((f AND NOT (2 ^ k)) OR 2 ^ k) AND 2 ^ k = (2 ^ k :: 'a word)"
    by (intro bit_word_eqI) (auto simp: bit_simps)
  moreover from True have "bit (f AND 2 ^ k) k"
    by (simp add: bit_and_iff bit_exp_iff bit_imp_le_length possible_bit_word)
  then have "f AND 2 ^ k \<noteq> 0" by auto
  ultimately show ?thesis by simp
next
  case False
  then have "f AND 2 ^ k = 0" by (intro bit_word_eqI) (auto simp: bit_simps)
  moreover have "(f AND NOT (2 ^ k)) AND 2 ^ k = (0 :: 'a word)"
    by (intro bit_word_eqI) (auto simp: bit_simps)
  ultimately show ?thesis by simp
qed

section \<open>The last elements of a list\<close>

definition lastn :: "nat \<Rightarrow> 'a list \<Rightarrow> 'a list" where
  "lastn n xs = drop (length xs - n) xs"

lemma lastn_all [simp]: "length xs \<le> n \<Longrightarrow> lastn n xs = xs"
  by (simp add: lastn_def)

lemma length_lastn [simp]: "length (lastn n xs) = min n (length xs)"
  by (simp add: lastn_def)

lemma lastn_Nil [simp]: "lastn n [] = []"
  by (simp add: lastn_def)

lemma lastn_lastn_append: "lastn n (lastn n xs @ ys) = lastn n (xs @ ys)"
proof (cases "length xs \<le> n")
  case True
  then show ?thesis by simp
next
  case False
  then have "length ys + length xs - n = length xs + length ys - n" by simp
  with False show ?thesis by (simp add: lastn_def)
qed

lemma take_take_append: "take n (take n xs @ ys) = take n (xs @ ys)"
  by (cases "length xs \<le> n") simp_all

section \<open>Searching a table\<close>

text \<open>
  The loop \<^verbatim>\<open>for (i = 0; i < n; i++) if (P(t[i])) { ...; break; }\<close> over a table: the first index
  whose entry satisfies the test.
\<close>

fun first_index :: "('a \<Rightarrow> bool) \<Rightarrow> 'a list \<Rightarrow> nat option" where
  "first_index P [] = None"
| "first_index P (x # xs) = (if P x then Some 0 else map_option Suc (first_index P xs))"

lemma first_index_SomeD:
  "first_index P xs = Some i \<Longrightarrow> i < length xs \<and> P (xs ! i) \<and> (\<forall>j<i. \<not> P (xs ! j))"
proof (induction xs arbitrary: i)
  case Nil
  then show ?case by simp
next
  case (Cons x xs)
  then show ?case by (auto simp: nth_Cons' split: if_splits)
qed

lemma first_index_None_iff: "first_index P xs = None \<longleftrightarrow> (\<forall>x \<in> set xs. \<not> P x)"
  by (induction xs) auto

lemma first_index_Some_iff:
  "first_index P xs = Some i \<longleftrightarrow> i < length xs \<and> P (xs ! i) \<and> (\<forall>j<i. \<not> P (xs ! j))"
proof
  assume r: "i < length xs \<and> P (xs ! i) \<and> (\<forall>j<i. \<not> P (xs ! j))"
  then obtain k where k: "first_index P xs = Some k"
    using first_index_None_iff [of P xs] by (cases "first_index P xs") auto
  with first_index_SomeD [OF k] r show "first_index P xs = Some i"
    by (metis linorder_neqE_nat)
qed (rule first_index_SomeD)

lemma first_index_map: "first_index P (map f xs) = first_index (P \<circ> f) xs"
  by (induction xs) simp_all

text \<open>Replacing the first hit by an entry that is no hit takes it off the list of hits.\<close>

lemma filter_first_index:
  assumes "first_index P xs = Some i" "\<not> P y"
  shows "filter P xs = xs ! i # filter P (xs[i := y])"
  using assms
proof (induction xs arbitrary: i)
  case Nil
  then show ?case by simp
next
  case (Cons x xs)
  then show ?case by (cases "P x") auto
qed

section \<open>Invariants of counting loops\<close>

lemma for_each_append: "for_each f (xs @ ys) s = do { s \<leftarrow> for_each f xs s; for_each f ys s }"
  by (induction xs arbitrary: s) (auto split: Option.bind_splits)

text \<open>A loop whose body keeps an invariant indexed by the elements already done reaches the end.\<close>

lemma for_each_invariant:
  assumes "I [] s"
    and "\<And>pre i rest s. xs = pre @ i # rest \<Longrightarrow> I pre s \<Longrightarrow> \<exists>s'. f i s = Some s' \<and> I (pre @ [i]) s'"
  shows "\<exists>s'. for_each f xs s = Some s' \<and> I xs s'"
proof -
  have "\<exists>s'. for_each f ys s = Some s' \<and> I (pre @ ys) s'" if "xs = pre @ ys" "I pre s" for ys pre s
    using that
  proof (induction ys arbitrary: pre s)
    case (Cons y ys)
    then obtain s1 where "f y s = Some s1" "I (pre @ [y]) s1" using assms(2) by blast
    with Cons.IH [of "pre @ [y]" s1] Cons.prems(1) show ?case by auto
  qed simp
  from this [of "[]" xs s] assms(1) show ?thesis by simp
qed

end
