(* ===== verification/Ring_Buffers.thy ===== *)
theory Ring_Buffers
  imports Orion_Prelude
begin

text \<open>
  Circular buffers. The kernel has three of them: the work queue, the kernel log and the key
  buffer of note mode. This theory gives the view of a circular buffer as a list, and the two
  contracts the kernel's buffers implement: a bounded queue, which refuses an element when it is
  full, and a sliding window, which drops its oldest element.
\<close>

section \<open>The list a circular buffer holds\<close>

definition ring_view :: "'a list \<Rightarrow> nat \<Rightarrow> nat \<Rightarrow> 'a list" where
  "ring_view buf start n = map (\<lambda>k. buf ! ((start + k) mod length buf)) [0..<n]"

lemma length_ring_view [simp]: "length (ring_view buf start n) = n"
  by (simp add: ring_view_def)

lemma ring_view_0 [simp]: "ring_view buf start 0 = []"
  by (simp add: ring_view_def)

lemma ring_view_nth [simp]:
  "k < n \<Longrightarrow> ring_view buf start n ! k = buf ! ((start + k) mod length buf)"
  by (simp add: ring_view_def)

lemma ring_view_Suc: "ring_view buf start (Suc n) =
    ring_view buf start n @ [buf ! ((start + n) mod length buf)]"
  by (simp add: ring_view_def)

lemma mod_add_inj:
  fixes N :: nat
  assumes "(s + i) mod N = (s + j) mod N" "i < N" "j < N"
  shows "i = j"
proof -
  have le: "a = b" if "(s + a) mod N = (s + b) mod N" "a < N" "b \<le> a" for a b
  proof -
    from that have "N dvd (s + a) - (s + b)" by (simp add: mod_eq_dvd_iff_nat)
    with that show ?thesis using nat_dvd_not_less [of "a - b" N] by (cases "a = b") auto
  qed
  from assms le [of i j] le [of j i] show ?thesis by (cases "j \<le> i") auto
qed

text \<open>Writing the slot after the last element does not disturb the elements before it.\<close>

lemma ring_view_upd_fresh:
  assumes "n < length buf"
  shows "ring_view (buf[(start + n) mod length buf := x]) start n = ring_view buf start n"
proof (rule nth_equalityI)
  show "length (ring_view (buf[(start + n) mod length buf := x]) start n)
      = length (ring_view buf start n)" by simp
next
  fix k
  assume "k < length (ring_view (buf[(start + n) mod length buf := x]) start n)"
  then have k: "k < n" by simp
  with assms have "(start + n) mod length buf \<noteq> (start + k) mod length buf"
    using mod_add_inj [of start n "length buf" k] by auto
  with k show "ring_view (buf[(start + n) mod length buf := x]) start n ! k
      = ring_view buf start n ! k" by simp
qed

lemma ring_view_snoc:
  assumes "n < length buf"
  shows "ring_view (buf[(start + n) mod length buf := x]) start (Suc n)
      = ring_view buf start n @ [x]"
proof -
  from assms have "(start + n) mod length buf < length buf" by (intro mod_less_divisor) linarith
  with ring_view_upd_fresh [OF assms, of start x] show ?thesis
    by (simp add: ring_view_Suc)
qed

lemma ring_view_Cons:
  "0 < n \<Longrightarrow> ring_view buf start n
     = buf ! (start mod length buf) # ring_view buf (Suc start) (n - 1)"
  by (cases n) (simp_all add: ring_view_def upt_conv_Cons map_Suc_upt [symmetric] del: upt_Suc)

lemma ring_view_mod [simp]: "ring_view buf (start mod length buf) n = ring_view buf start n"
  by (simp add: ring_view_def mod_add_left_eq)

lemma ring_view_tl: "tl (ring_view buf start n) = ring_view buf (Suc start) (n - 1)"
  by (cases "n = 0") (simp_all add: ring_view_Cons)

lemma ring_view_upd_outside:
  assumes "0 < length buf" "i < length buf" "\<And>k. k < n \<Longrightarrow> (start + k) mod length buf \<noteq> i"
  shows "ring_view (buf[i := x]) start n = ring_view buf start n"
  using assms by (intro nth_equalityI) (auto simp: nth_list_update)

text \<open>A full buffer read from its oldest element is the buffer rotated.\<close>

lemma ring_view_full:
  assumes "h \<le> length buf"
  shows "ring_view buf h (length buf) = drop h buf @ take h buf"
proof (rule nth_equalityI)
  show "length (ring_view buf h (length buf)) = length (drop h buf @ take h buf)"
    using assms by simp
next
  fix k
  assume "k < length (ring_view buf h (length buf))"
  then have k: "k < length buf" by simp
  show "ring_view buf h (length buf) ! k = (drop h buf @ take h buf) ! k"
  proof (cases "h + k < length buf")
    case True
    with k show ?thesis by (auto simp: nth_append)
  next
    case False
    with k assms have "(h + k) mod length buf = h + k - length buf"
      by (simp add: mod_if)
    moreover from False have "\<not> k < length buf - h" by simp
    moreover from False k have "k + h - length buf < h" by simp
    ultimately show ?thesis using k assms by (simp add: nth_append add.commute)
  qed
qed

lemma ring_view_prefix: "n \<le> length buf \<Longrightarrow> ring_view buf 0 n = take n buf"
  by (intro nth_equalityI) simp_all

section \<open>Head and tail indices\<close>

text \<open>The number of elements between a tail index and a head index of a buffer of \<open>N\<close> slots.\<close>

definition ring_len :: "nat \<Rightarrow> nat \<Rightarrow> nat \<Rightarrow> nat" where
  "ring_len N h t = (h + N - t) mod N"

lemma ring_len_alt:
  "h < N \<Longrightarrow> t < N \<Longrightarrow> ring_len N h t = (if t \<le> h then h - t else h + N - t)"
  by (auto simp: ring_len_def mod_if)

lemma ring_next: "h < N \<Longrightarrow> Suc h mod N = (if Suc h = N then 0 else Suc h)"
  by auto

lemma ring_len_less: "0 < N \<Longrightarrow> ring_len N h t < N"
  by (simp add: ring_len_def)

lemma ring_len_tail: "h < N \<Longrightarrow> t < N \<Longrightarrow> (t + ring_len N h t) mod N = h"
  by (simp add: ring_len_alt)

lemma ring_len_0_iff: "h < N \<Longrightarrow> t < N \<Longrightarrow> ring_len N h t = 0 \<longleftrightarrow> h = t"
  by (auto simp: ring_len_alt)

lemma ring_len_full_iff:
  "h < N \<Longrightarrow> t < N \<Longrightarrow> ring_len N h t = N - 1 \<longleftrightarrow> Suc h mod N = t"
  by (simp only: ring_len_alt ring_next) auto

lemma ring_len_push:
  "h < N \<Longrightarrow> t < N \<Longrightarrow> ring_len N h t < N - 1 \<Longrightarrow>
    ring_len N (Suc h mod N) t = Suc (ring_len N h t)"
  by (simp only: ring_len_alt ring_next mod_less_divisor) (auto simp: ring_len_alt split: if_splits)

lemma ring_len_pop:
  "h < N \<Longrightarrow> t < N \<Longrightarrow> h \<noteq> t \<Longrightarrow> ring_len N h (Suc t mod N) = ring_len N h t - 1"
  by (simp only: ring_len_alt ring_next mod_less_divisor) (auto simp: ring_len_alt split: if_splits)

section \<open>The contract of a bounded queue\<close>

text \<open>
  \<open>enq x q\<close> returns whether the element was taken and the new queue; \<open>deq q\<close> is \<^const>\<open>None\<close> on
  an empty queue.
\<close>

locale bounded_queue =
  fixes elems :: "'q \<Rightarrow> 'a list"
    and wf :: "'q \<Rightarrow> bool"
    and cap :: nat
    and ok :: "'a \<Rightarrow> bool"
    and enq :: "'a \<Rightarrow> 'q \<Rightarrow> bool \<times> 'q"
    and deq :: "'q \<Rightarrow> ('a \<times> 'q) option"
  assumes enq_wf: "wf q \<Longrightarrow> wf (snd (enq x q))"
    and enq_room: "wf q \<Longrightarrow> ok x \<Longrightarrow> length (elems q) < cap \<Longrightarrow>
      fst (enq x q) \<and> elems (snd (enq x q)) = elems q @ [x]"
    and enq_full: "wf q \<Longrightarrow> length (elems q) = cap \<Longrightarrow>
      \<not> fst (enq x q) \<and> elems (snd (enq x q)) = elems q"
    and deq_empty: "wf q \<Longrightarrow> elems q = [] \<Longrightarrow> deq q = None"
    and deq_nonempty: "wf q \<Longrightarrow> elems q = x # xs \<Longrightarrow>
      \<exists>q'. deq q = Some (x, q') \<and> wf q' \<and> elems q' = xs"
    and bounded: "wf q \<Longrightarrow> length (elems q) \<le> cap"
begin

primrec enq_all :: "'a list \<Rightarrow> 'q \<Rightarrow> 'q" where
  "enq_all [] q = q"
| "enq_all (x # xs) q = enq_all xs (snd (enq x q))"

primrec deq_n :: "nat \<Rightarrow> 'q \<Rightarrow> ('a list \<times> 'q) option" where
  "deq_n 0 q = Some ([], q)"
| "deq_n (Suc n) q = (case deq q of None \<Rightarrow> None
     | Some (x, q') \<Rightarrow> map_option (\<lambda>(xs, r). (x # xs, r)) (deq_n n q'))"

text \<open>Elements are taken in order, up to the capacity; the ones beyond it are dropped.\<close>

lemma enq_all_elems:
  "wf q \<Longrightarrow> list_all ok xs \<Longrightarrow>
    wf (enq_all xs q) \<and> elems (enq_all xs q) = take cap (elems q @ xs)"
proof (induction xs arbitrary: q)
  case Nil
  then show ?case using bounded [of q] by simp
next
  case (Cons x xs)
  let ?q = "snd (enq x q)"
  have wf: "wf ?q" using Cons.prems(1) by (rule enq_wf)
  show ?case
  proof (cases "length (elems q) = cap")
    case True
    then have "elems ?q = elems q" using enq_full [OF Cons.prems(1)] by blast
    with Cons.IH [OF wf] Cons.prems(2) True show ?thesis by simp
  next
    case False
    with bounded [OF Cons.prems(1)] have "length (elems q) < cap" by simp
    with enq_room [OF Cons.prems(1)] Cons.prems(2) have "elems ?q = elems q @ [x]" by simp
    with Cons.IH [OF wf] Cons.prems(2) show ?thesis by simp
  qed
qed

text \<open>Draining a queue gives its elements first in, first out.\<close>

lemma deq_n_elems:
  "wf q \<Longrightarrow> n \<le> length (elems q) \<Longrightarrow>
    \<exists>q'. deq_n n q = Some (take n (elems q), q') \<and> wf q' \<and> elems q' = drop n (elems q)"
proof (induction n arbitrary: q)
  case 0
  then show ?case by simp
next
  case (Suc n)
  then obtain x xs where x: "elems q = x # xs" by (cases "elems q") auto
  from deq_nonempty [OF Suc.prems(1) x]
  obtain q' where q': "deq q = Some (x, q')" "wf q'" "elems q' = xs" by blast
  with Suc.prems x have "n \<le> length (elems q')" by simp
  from Suc.IH [OF q'(2) this]
  obtain r where "deq_n n q' = Some (take n xs, r)" "wf r" "elems r = drop n xs"
    using q'(3) by auto
  with q' x show ?case by simp
qed

end

section \<open>The contract of a sliding window\<close>

text \<open>\<open>push x q\<close> always takes the element, at the price of the oldest one when it is full.\<close>

locale sliding_window =
  fixes window :: "'q \<Rightarrow> 'a list"
    and wf :: "'q \<Rightarrow> bool"
    and cap :: nat
    and push :: "'a \<Rightarrow> 'q \<Rightarrow> 'q"
  assumes push_wf: "wf q \<Longrightarrow> wf (push x q)"
    and push_window: "wf q \<Longrightarrow> window (push x q) = lastn cap (window q @ [x])"
    and window_bounded: "wf q \<Longrightarrow> length (window q) \<le> cap"
begin

lemma fold_push_window:
  "wf q \<Longrightarrow> wf (fold push xs q) \<and> window (fold push xs q) = lastn cap (window q @ xs)"
proof (induction xs arbitrary: q)
  case Nil
  then show ?case using window_bounded [of q] by simp
next
  case (Cons x xs)
  from Cons.prems have wf: "wf (push x q)" by (rule push_wf)
  have "window (fold push xs (push x q)) = lastn cap (lastn cap (window q @ [x]) @ xs)"
    using Cons.IH [OF wf] push_window [OF Cons.prems] by simp
  also have "\<dots> = lastn cap (window q @ x # xs)"
    by (simp add: lastn_lastn_append)
  finally show ?case using Cons.IH [OF wf] by simp
qed

end

end
