(* ===== verification/Work_Queue.thy ===== *)
theory Work_Queue
  imports Ring_Buffers
begin

text \<open>
  The deferred-work queue of \<^verbatim>\<open>kernel/proc/workqueue.c\<close>: a circular array of 64 slots of which
  63 can be in use. Function pointers and contexts are 32-bit addresses, 0 the null pointer. The
  operations run with interrupts disabled; the interrupt flag is part of the state.
\<close>

section \<open>State\<close>

record work_item =
  fn :: u32
  ctx :: u32

record workqueue =
  queue :: "work_item list"
  head :: u32
  tail :: u32
  eflags :: u32

abbreviation WORKQUEUE_SIZE :: u32 where "WORKQUEUE_SIZE \<equiv> 64"
abbreviation WORKQUEUE_MASK :: u32 where "WORKQUEUE_MASK \<equiv> WORKQUEUE_SIZE - 1"
abbreviation EFLAGS_IF :: u32 where "EFLAGS_IF \<equiv> 0x200"

definition null_item :: work_item where
  "null_item = \<lparr>fn = 0, ctx = 0\<rparr>"

section \<open>Operations\<close>

definition irq_save :: "workqueue \<Rightarrow> u32 \<times> workqueue" where
  "irq_save q = (eflags q, q\<lparr>eflags := eflags q AND NOT EFLAGS_IF\<rparr>)"

definition irq_restore :: "u32 \<Rightarrow> workqueue \<Rightarrow> workqueue" where
  "irq_restore flags q =
     (if flags AND EFLAGS_IF \<noteq> 0 then q\<lparr>eflags := eflags q OR EFLAGS_IF\<rparr> else q)"

definition workqueue_init :: "workqueue \<Rightarrow> workqueue" where
  "workqueue_init q = q\<lparr>queue := replicate 64 null_item, head := 0, tail := 0\<rparr>"

definition workqueue_enqueue :: "work_item \<Rightarrow> workqueue \<Rightarrow> bool \<times> workqueue" where
  "workqueue_enqueue w q =
     (if fn w = 0 then (False, q)
      else
        let (flags, q) = irq_save q;
            next_ix = (head q + 1) AND WORKQUEUE_MASK;
            (ok, q) =
              (if next_ix \<noteq> tail q
               then (True, q\<lparr>queue := (queue q)[unat (head q) := w], head := next_ix\<rparr>)
               else (False, q))
        in (ok, irq_restore flags q))"

definition workqueue_pending :: "workqueue \<Rightarrow> bool \<times> workqueue" where
  "workqueue_pending q =
     (let (flags, q) = irq_save q; pending = (head q \<noteq> tail q)
      in (pending, irq_restore flags q))"

text \<open>One turn of the loop of \<open>workqueue_run\<close> up to the call: the item taken out, if any.\<close>

definition workqueue_take :: "workqueue \<Rightarrow> work_item \<times> workqueue" where
  "workqueue_take q =
     (let (flags, q) = irq_save q;
          (w, q) =
            (if head q \<noteq> tail q
             then (queue q ! unat (tail q),
                   q\<lparr>queue := (queue q)[unat (tail q) := null_item],
                     tail := (tail q + 1) AND WORKQUEUE_MASK\<rparr>)
             else (null_item, q))
      in (w, irq_restore flags q))"

text \<open>
  \<open>call\<close> is the effect of calling the item's function, on the queue (a work function may
  enqueue) and on the rest of the kernel \<open>'k\<close>. The loop ends only when the queue is found empty.
\<close>

partial_function (option) workqueue_run ::
  "(work_item \<Rightarrow> workqueue \<times> 'k \<Rightarrow> workqueue \<times> 'k) \<Rightarrow> workqueue \<times> 'k \<Rightarrow> (workqueue \<times> 'k) option"
where
  "workqueue_run call s =
     (let (w, q) = workqueue_take (fst s)
      in if fn w = 0 then Some (q, snd s) else workqueue_run call (call w (q, snd s)))"

section \<open>The queue as a list\<close>

definition wq_len :: "workqueue \<Rightarrow> nat" where
  "wq_len q = ring_len 64 (unat (head q)) (unat (tail q))"

definition wq_items :: "workqueue \<Rightarrow> work_item list" where
  "wq_items q = ring_view (queue q) (unat (tail q)) (wq_len q)"

definition wq_wf :: "workqueue \<Rightarrow> bool" where
  "wq_wf q \<longleftrightarrow> length (queue q) = 64 \<and> unat (head q) < 64 \<and> unat (tail q) < 64 \<and>
     (\<forall>w \<in> set (wq_items q). fn w \<noteq> 0)"

lemma unat_next [word_to_nat]: "unat (((x::u32) + 1) AND 63) = (unat x + 1) mod 64"
proof -
  have "(63::u32) = mask 6" by (simp add: mask_eq_exp_minus_1)
  then have "unat ((x + 1) AND 63) = unat (x + 1) mod 64"
    by (simp only: unat_and_mask) simp
  also have "\<dots> = (unat x + 1) mod 64"
    by (simp add: unat_word_ariths mod_mod_cancel)
  finally show ?thesis .
qed

lemma irq_restore_sel [simp]:
  "queue (irq_restore f q) = queue q" "head (irq_restore f q) = head q"
  "tail (irq_restore f q) = tail q"
  by (simp_all add: irq_restore_def)

lemma wq_items_irq [simp]: "wq_items (irq_restore f q) = wq_items q"
  by (simp add: wq_items_def wq_len_def)

lemma wq_items_eflags [simp]: "wq_items (q\<lparr>eflags := e\<rparr>) = wq_items q"
  by (simp add: wq_items_def wq_len_def)

lemma wq_wf_irq [simp]: "wq_wf (irq_restore f q) = wq_wf q"
  by (simp add: wq_wf_def)

lemma wq_wf_eflags [simp]: "wq_wf (q\<lparr>eflags := e\<rparr>) = wq_wf q"
  by (simp add: wq_wf_def)

lemma wq_len_le: "wq_len q \<le> 63"
  using ring_len_less [of 64] by (simp add: wq_len_def less_Suc_eq_le [symmetric] eval_nat_numeral)

lemma length_wq_items [simp]: "length (wq_items q) = wq_len q"
  by (simp add: wq_items_def)

lemma wq_tail_plus_len:
  "wq_wf q \<Longrightarrow> (unat (tail q) + wq_len q) mod 64 = unat (head q)"
  by (simp add: wq_wf_def wq_len_def ring_len_tail)

lemma wq_empty_iff: "wq_wf q \<Longrightarrow> wq_len q = 0 \<longleftrightarrow> head q = tail q"
  by (simp add: wq_wf_def wq_len_def ring_len_0_iff word_eq_unat_iff)

lemma wq_full_iff: "wq_wf q \<Longrightarrow> wq_len q = 63 \<longleftrightarrow> (head q + 1) AND 63 = tail q"
  using ring_len_full_iff [of "unat (head q)" 64 "unat (tail q)"]
  by (simp add: wq_wf_def wq_len_def word_eq_unat_iff unat_next)

section \<open>The operations on the list\<close>

lemma wq_enqueue_room:
  assumes "wq_wf q" "fn w \<noteq> 0" "wq_len q < 63"
  shows "fst (workqueue_enqueue w q)" "wq_wf (snd (workqueue_enqueue w q))"
    and "wq_items (snd (workqueue_enqueue w q)) = wq_items q @ [w]"
proof -
  let ?q' = "q\<lparr>queue := (queue q)[unat (head q) := w], head := (head q + 1) AND 63\<rparr>"
  from assms(1) have b: "length (queue q) = 64" "unat (head q) < 64" "unat (tail q) < 64"
    by (auto simp: wq_wf_def)
  from assms(1,3) have room: "(head q + 1) AND 63 \<noteq> tail q" using wq_full_iff [of q] by auto
  have head: "unat (head q) = (unat (tail q) + wq_len q) mod 64"
    using wq_tail_plus_len [OF assms(1)] by simp
  have len: "wq_len ?q' = Suc (wq_len q)"
    using ring_len_push [of "unat (head q)" 64 "unat (tail q)"] b assms(3)
    by (simp add: wq_len_def unat_next)
  have items: "wq_items ?q' = wq_items q @ [w]"
    using ring_view_snoc [of "wq_len q" "queue q" "unat (tail q)" w] assms(3) b(1) head len
    by (simp add: wq_items_def)
  have wf: "wq_wf ?q'"
    using b items assms(1,2) by (auto simp: wq_wf_def unat_next)
  have e: "workqueue_enqueue w q = (True, irq_restore (eflags q)
      (?q'\<lparr>eflags := eflags q AND NOT EFLAGS_IF\<rparr>))"
    using room assms(2) by (cases q) (simp add: workqueue_enqueue_def irq_save_def)
  from e show "fst (workqueue_enqueue w q)" by simp
  from e wf show "wq_wf (snd (workqueue_enqueue w q))" by (simp only: snd_conv wq_wf_irq wq_wf_eflags)
  from e items show "wq_items (snd (workqueue_enqueue w q)) = wq_items q @ [w]"
    by (simp only: snd_conv wq_items_irq wq_items_eflags)
qed

lemma wq_enqueue_refused:
  assumes "wq_wf q" "fn w = 0 \<or> wq_len q = 63"
  shows "\<not> fst (workqueue_enqueue w q)" "wq_wf (snd (workqueue_enqueue w q))"
    and "wq_items (snd (workqueue_enqueue w q)) = wq_items q"
  using assms wq_full_iff [OF assms(1)] by (auto simp: workqueue_enqueue_def irq_save_def)

lemma wq_take_Cons:
  assumes "wq_wf q" "wq_items q = w # ws"
  shows "fst (workqueue_take q) = w" "wq_wf (snd (workqueue_take q))"
    and "wq_items (snd (workqueue_take q)) = ws"
proof -
  let ?t = "unat (tail q)"
  let ?q' = "q\<lparr>queue := (queue q)[?t := null_item], tail := (tail q + 1) AND 63\<rparr>"
  from assms(1) have b: "length (queue q) = 64" "unat (head q) < 64" "?t < 64"
    by (auto simp: wq_wf_def)
  from assms(2) have pos: "0 < wq_len q"
    by (metis length_wq_items length_greater_0_conv list.distinct(1))
  with assms(1) have ne: "head q \<noteq> tail q" using wq_empty_iff [of q] by auto
  have len: "wq_len ?q' = wq_len q - 1"
    using ring_len_pop [of "unat (head q)" 64 ?t] b ne
    by (simp add: wq_len_def unat_next word_eq_unat_iff)
  have hd: "queue q ! ?t # ring_view (queue q) (Suc ?t) (wq_len q - 1) = w # ws"
    using assms(2) ring_view_Cons [OF pos, of "queue q" ?t] b by (simp add: wq_items_def)
  have "ring_view ((queue q)[?t := null_item]) (Suc ?t) (wq_len q - 1)
      = ring_view (queue q) (Suc ?t) (wq_len q - 1)"
  proof (rule ring_view_upd_outside)
    show "0 < length (queue q)" "?t < length (queue q)" using b by simp_all
    fix k assume "k < wq_len q - 1"
    then have "Suc k < 64" using wq_len_le [of q] by simp
    then show "(Suc ?t + k) mod length (queue q) \<noteq> ?t"
      using mod_add_inj [of ?t "Suc k" 64 0] b by auto
  qed
  moreover have "ring_view ((queue q)[?t := null_item]) (Suc ?t mod 64) (wq_len q - 1)
      = ring_view ((queue q)[?t := null_item]) (Suc ?t) (wq_len q - 1)"
    using ring_view_mod [of "(queue q)[?t := null_item]" "Suc ?t"] b(1) by simp
  ultimately have items: "wq_items ?q' = ws"
    using hd len by (simp add: wq_items_def unat_next)
  have wf: "wq_wf ?q'"
    using b items assms by (auto simp: wq_wf_def unat_next)
  have e: "workqueue_take q = (queue q ! ?t, irq_restore (eflags q)
      (?q'\<lparr>eflags := eflags q AND NOT EFLAGS_IF\<rparr>))"
    using ne by (cases q) (simp add: workqueue_take_def irq_save_def)
  from e hd show "fst (workqueue_take q) = w" by simp
  from e wf show "wq_wf (snd (workqueue_take q))" by (simp only: snd_conv wq_wf_irq wq_wf_eflags)
  from e items show "wq_items (snd (workqueue_take q)) = ws"
    by (simp only: snd_conv wq_items_irq wq_items_eflags)
qed

lemma wq_take_Nil:
  assumes "wq_wf q" "wq_items q = []"
  shows "fst (workqueue_take q) = null_item" "wq_wf (snd (workqueue_take q))"
    and "wq_items (snd (workqueue_take q)) = []"
proof -
  from assms have "head q = tail q" using wq_empty_iff [of q] by (metis length_wq_items list.size(3))
  then have e: "workqueue_take q = (null_item, irq_restore (eflags q)
      (q\<lparr>eflags := eflags q AND NOT EFLAGS_IF\<rparr>))"
    by (simp add: workqueue_take_def irq_save_def)
  from e show "fst (workqueue_take q) = null_item" by simp
  from e assms show "wq_wf (snd (workqueue_take q))" by simp
  from e assms show "wq_items (snd (workqueue_take q)) = []" by simp
qed

definition workqueue_deq :: "workqueue \<Rightarrow> (work_item \<times> workqueue) option" where
  "workqueue_deq q = (if fn (fst (workqueue_take q)) = 0 then None else Some (workqueue_take q))"

interpretation wq: bounded_queue wq_items wq_wf 63 "\<lambda>w. fn w \<noteq> 0" workqueue_enqueue workqueue_deq
proof
  fix q :: workqueue and w ws
  assume wf: "wq_wf q"
  show "wq_wf (snd (workqueue_enqueue w q))"
    using wq_enqueue_room(2) [OF wf] wq_enqueue_refused(2) [OF wf] wq_len_le [of q]
    by (cases "fn w = 0 \<or> wq_len q = 63") auto
  show "length (wq_items q) \<le> 63" by (simp add: wq_len_le)
  show "fn w \<noteq> 0 \<Longrightarrow> length (wq_items q) < 63 \<Longrightarrow>
      fst (workqueue_enqueue w q) \<and> wq_items (snd (workqueue_enqueue w q)) = wq_items q @ [w]"
    using wq_enqueue_room [OF wf] by simp
  show "length (wq_items q) = 63 \<Longrightarrow>
      \<not> fst (workqueue_enqueue w q) \<and> wq_items (snd (workqueue_enqueue w q)) = wq_items q"
    using wq_enqueue_refused [OF wf] by simp
  show "wq_items q = [] \<Longrightarrow> workqueue_deq q = None"
    using wq_take_Nil [OF wf] by (simp add: workqueue_deq_def null_item_def)
  show "wq_items q = w # ws \<Longrightarrow> \<exists>q'. workqueue_deq q = Some (w, q') \<and> wq_wf q' \<and> wq_items q' = ws"
    using wq_take_Cons [OF wf] wf by (auto simp: workqueue_deq_def wq_wf_def prod_eq_iff)
qed

lemma irq_pair_if:
  "eflags q' = eflags q AND NOT EFLAGS_IF \<Longrightarrow>
    eflags (irq_restore (eflags q) q') AND EFLAGS_IF = eflags q AND EFLAGS_IF"
  using single_bit_restore [of "eflags q" 9] by (auto simp: irq_restore_def)

section \<open>Properties\<close>

text \<open>
  C26: the work queue implements a bounded first-in first-out queue. A non-null work item is taken
  exactly when fewer than 63 are waiting, goes behind every waiting item, and a refused item
  leaves the queue as it was; well-formedness and the caller's interrupt flag are kept.
\<close>

theorem workqueue_enqueue_fifo:
  assumes "wq_wf q"
  shows "wq_wf (snd (workqueue_enqueue w q)) \<and>
    fst (workqueue_enqueue w q) = (fn w \<noteq> 0 \<and> length (wq_items q) < 63) \<and>
    wq_items (snd (workqueue_enqueue w q)) =
      (if fst (workqueue_enqueue w q) then wq_items q @ [w] else wq_items q) \<and>
    eflags (snd (workqueue_enqueue w q)) AND EFLAGS_IF = eflags q AND EFLAGS_IF"
proof -
  have "eflags (snd (workqueue_enqueue w q)) AND EFLAGS_IF = eflags q AND EFLAGS_IF"
    by (auto simp: workqueue_enqueue_def irq_save_def Let_def intro!: irq_pair_if)
  moreover have "fn w = 0 \<or> wq_len q = 63 \<or> (fn w \<noteq> 0 \<and> wq_len q < 63)"
    using wq_len_le [of q] by auto
  ultimately show ?thesis
    using wq_enqueue_room [OF assms] wq_enqueue_refused [OF assms] by auto
qed

theorem workqueue_enqueue_fifo_witness:
  "wq_wf (workqueue_init \<lparr>queue = [], head = 5, tail = 9, eflags = 0x202\<rparr>) \<and>
   fst (workqueue_enqueue \<lparr>fn = 0xC0100000, ctx = 7\<rparr>
     (workqueue_init \<lparr>queue = [], head = 5, tail = 9, eflags = 0x202\<rparr>))"
proof -
  let ?q = "workqueue_init \<lparr>queue = [], head = 5, tail = 9, eflags = 0x202\<rparr>"
  have wf: "wq_wf ?q"
    by (simp add: wq_wf_def workqueue_init_def wq_items_def wq_len_def ring_len_def)
  have "wq_items ?q = []"
    by (simp add: workqueue_init_def wq_items_def wq_len_def ring_len_def)
  with workqueue_enqueue_fifo [OF wf, of "\<lparr>fn = 0xC0100000, ctx = 7\<rparr>"] wf show ?thesis
    by simp
qed

text \<open>
  C27: when the work functions do not enqueue further work, \<open>workqueue_run\<close> returns: it has called
  every waiting item exactly once, in the order of their arrival, and leaves the queue empty.
\<close>

theorem workqueue_run_fifo:
  assumes "wq_wf q"
  shows "\<exists>q'. workqueue_run (\<lambda>w (q, k). (q, f w k)) (q, k) = Some (q', fold f (wq_items q) k) \<and>
    wq_wf q' \<and> wq_items q' = []"
  using assms
proof (induction "wq_items q" arbitrary: q k)
  case Nil
  then have "workqueue_run (\<lambda>w (q, k). (q, f w k)) (q, k) = Some (snd (workqueue_take q), k)"
    using wq_take_Nil [of q]
    by (subst workqueue_run.simps) (simp add: null_item_def case_prod_beta)
  with Nil wq_take_Nil [of q] show ?case by auto
next
  case (Cons w ws)
  let ?q = "snd (workqueue_take q)"
  have t: "fst (workqueue_take q) = w" "wq_wf ?q" "wq_items ?q = ws"
    using wq_take_Cons [OF Cons.prems Cons.hyps(2) [symmetric]] by simp_all
  from Cons.prems Cons.hyps(2) [symmetric] have "fn w \<noteq> 0" by (auto simp: wq_wf_def)
  then have "workqueue_run (\<lambda>w (q, k). (q, f w k)) (q, k)
      = workqueue_run (\<lambda>w (q, k). (q, f w k)) (?q, f w k)"
    using t(1) by (subst workqueue_run.simps) (simp add: case_prod_beta)
  moreover obtain q' where "workqueue_run (\<lambda>w (q, k). (q, f w k)) (?q, f w k)
      = Some (q', fold f ws (f w k))" "wq_wf q'" "wq_items q' = []"
    using Cons.hyps(1) [OF t(3) [symmetric] t(2), of "f w k"] t(3) by auto
  ultimately show ?case using Cons.hyps(2) [symmetric] by auto
qed

theorem workqueue_run_fifo_witness:
  "\<exists>q'. workqueue_run (\<lambda>w (q, k). (q, k @ [ctx w]))
      (wq.enq_all [\<lparr>fn = 1, ctx = 10\<rparr>, \<lparr>fn = 1, ctx = 20\<rparr>]
        (workqueue_init \<lparr>queue = [], head = 5, tail = 9, eflags = 0x202\<rparr>), [])
     = Some (q', [10, 20]) \<and> wq_items q' = []"
proof -
  let ?q = "workqueue_init \<lparr>queue = [], head = 5, tail = 9, eflags = 0x202\<rparr>"
  let ?ws = "[\<lparr>fn = 1, ctx = 10\<rparr>, \<lparr>fn = 1, ctx = 20\<rparr>]"
  have wf: "wq_wf ?q" and nil: "wq_items ?q = []"
    by (simp_all add: wq_wf_def workqueue_init_def wq_items_def wq_len_def ring_len_def)
  have all: "wq_wf (wq.enq_all ?ws ?q)" "wq_items (wq.enq_all ?ws ?q) = ?ws"
    using wq.enq_all_elems [OF wf, of ?ws] nil by simp_all
  show ?thesis
    using workqueue_run_fifo [OF all(1), of "\<lambda>w k. k @ [ctx w]" "[]"] all(2) by auto
qed

end
