(* ===== verification/Kernel_Log.thy ===== *)
theory Kernel_Log
  imports Ring_Buffers
begin

text \<open>
  The boot log and the kernel log of \<^verbatim>\<open>kernel/log.c\<close>. The kernel log is a circular buffer of
  16384 characters that keeps the newest ones, the boot log a buffer of 8192 that keeps the
  oldest ones. A C string argument is the list of its characters before the terminator, so it
  contains no 0; the null pointer is \<^const>\<open>None\<close>. The indices are C \<open>int\<close>s that the code keeps
  within their buffers, read as natural numbers.
\<close>

section \<open>State and operations\<close>

abbreviation LOG_BUF_SIZE :: nat where "LOG_BUF_SIZE \<equiv> 8192"
abbreviation KLOG_BUF_SIZE :: nat where "KLOG_BUF_SIZE \<equiv> 16384"

record klog =
  bootlog_buf :: bytes
  bootlog_index :: nat
  bootlog_enabled :: bool
  klog_buf :: bytes
  klog_head :: nat
  klog_count :: nat

definition klog_initial :: klog where
  "klog_initial = \<lparr>bootlog_buf = replicate LOG_BUF_SIZE 0, bootlog_index = 0,
     bootlog_enabled = True, klog_buf = replicate KLOG_BUF_SIZE 0, klog_head = 0, klog_count = 0\<rparr>"

text \<open>One turn of the loop of \<open>klog_add\<close>.\<close>

definition klog_put :: "u8 \<Rightarrow> klog \<Rightarrow> klog" where
  "klog_put c s =
     (let s = s\<lparr>klog_buf := (klog_buf s)[klog_head s := c], klog_head := klog_head s + 1\<rparr>;
          s = (if klog_head s \<ge> KLOG_BUF_SIZE then s\<lparr>klog_head := 0\<rparr> else s)
      in if klog_count s < KLOG_BUF_SIZE then s\<lparr>klog_count := klog_count s + 1\<rparr> else s)"

definition klog_add :: "bytes option \<Rightarrow> klog \<Rightarrow> klog" where
  "klog_add str s = (case str of None \<Rightarrow> s | Some cs \<Rightarrow> fold klog_put cs s)"

fun bootlog_copy :: "bytes \<Rightarrow> klog \<Rightarrow> klog" where
  "bootlog_copy [] s = s"
| "bootlog_copy (c # cs) s =
     (if bootlog_index s < LOG_BUF_SIZE - 1
      then bootlog_copy cs (s\<lparr>bootlog_buf := (bootlog_buf s)[bootlog_index s := c],
             bootlog_index := bootlog_index s + 1\<rparr>)
      else s)"

definition bootlog_add :: "bytes option \<Rightarrow> klog \<Rightarrow> klog" where
  "bootlog_add str s =
     (case str of None \<Rightarrow> s
      | Some cs \<Rightarrow>
          let s = klog_add str s
          in if \<not> bootlog_enabled s then s
             else let s = bootlog_copy cs s
                  in s\<lparr>bootlog_buf := (bootlog_buf s)[bootlog_index s := 0]\<rparr>)"

text \<open>The string \<open>klog_get\<close> returns, without its terminator.\<close>

definition klog_get :: "klog \<Rightarrow> bytes" where
  "klog_get s =
     (if klog_count s = 0 then []
      else if klog_count s < KLOG_BUF_SIZE then take (klog_count s) (klog_buf s)
      else drop (klog_head s) (klog_buf s) @ take (klog_head s) (klog_buf s))"

definition klog_clear :: "klog \<Rightarrow> klog" where
  "klog_clear s = s\<lparr>klog_head := 0, klog_count := 0, klog_buf := (klog_buf s)[0 := 0]\<rparr>"

text \<open>\<open>bootlog_get\<close> returns the buffer itself; the string it holds ends at the first 0.\<close>

definition bootlog_get :: "klog \<Rightarrow> bytes" where
  "bootlog_get s = takeWhile (\<lambda>c. c \<noteq> 0) (bootlog_buf s)"

definition bootlog_clear :: "klog \<Rightarrow> klog" where
  "bootlog_clear s = s\<lparr>bootlog_index := 0, bootlog_buf := (bootlog_buf s)[0 := 0]\<rparr>"

section \<open>The kernel log is a sliding window\<close>

text \<open>Until the buffer has wrapped its head is the number of characters in it.\<close>

definition klog_wf :: "klog \<Rightarrow> bool" where
  "klog_wf s \<longleftrightarrow> length (klog_buf s) = KLOG_BUF_SIZE \<and> klog_head s < KLOG_BUF_SIZE \<and>
     klog_count s \<le> KLOG_BUF_SIZE \<and> (klog_count s < KLOG_BUF_SIZE \<longrightarrow> klog_head s = klog_count s)"

lemma klog_put_wf: "klog_wf s \<Longrightarrow> klog_wf (klog_put c s)"
  by (auto simp: klog_wf_def klog_put_def Let_def)

lemma klog_get_length: "klog_wf s \<Longrightarrow> length (klog_get s) = klog_count s"
  by (auto simp: klog_wf_def klog_get_def)

lemma klog_get_partial:
  "klog_wf s \<Longrightarrow> klog_count s < KLOG_BUF_SIZE \<Longrightarrow> klog_get s = take (klog_head s) (klog_buf s)"
  by (auto simp: klog_wf_def klog_get_def)

lemma klog_get_full:
  "klog_wf s \<Longrightarrow> klog_count s = KLOG_BUF_SIZE \<Longrightarrow>
    klog_get s = drop (klog_head s) (klog_buf s) @ take (klog_head s) (klog_buf s)"
  by (auto simp: klog_wf_def klog_get_def)

lemma klog_put_get:
  assumes "klog_wf s"
  shows "klog_get (klog_put c s) = lastn KLOG_BUF_SIZE (klog_get s @ [c])"
proof (cases "klog_count s < KLOG_BUF_SIZE")
  case True
  let ?h = "klog_head s"
  from assms True have h: "?h = klog_count s" and len: "length (klog_buf s) = KLOG_BUF_SIZE"
    by (auto simp: klog_wf_def)
  have "klog_get (klog_put c s) = take (Suc ?h) ((klog_buf s)[?h := c])"
    using True h len by (auto simp: klog_get_def klog_put_def Let_def)
  also have "\<dots> = take ?h (klog_buf s) @ [c]"
    using True h len by (simp add: take_Suc_conv_app_nth)
  finally show ?thesis
    using klog_get_partial [OF assms True] True h len by simp
next
  case False
  let ?h = "klog_head s"
  from assms False have n: "klog_count s = KLOG_BUF_SIZE" and h: "?h < KLOG_BUF_SIZE"
    and len: "length (klog_buf s) = KLOG_BUF_SIZE"
    by (auto simp: klog_wf_def)
  have step: "klog_get (klog_put c s) = drop (Suc ?h) (klog_buf s) @ take ?h (klog_buf s) @ [c]"
  proof (cases "Suc ?h = KLOG_BUF_SIZE")
    case True
    then have "klog_get (klog_put c s) = (klog_buf s)[?h := c]"
      using n by (simp add: klog_get_def klog_put_def Let_def)
    also have "\<dots> = take ?h (klog_buf s) @ [c]"
      using True h len by (simp add: list_update_append upd_conv_take_nth_drop)
    finally show ?thesis using True len by simp
  next
    case False
    with h have "klog_get (klog_put c s)
        = drop (Suc ?h) ((klog_buf s)[?h := c]) @ take (Suc ?h) ((klog_buf s)[?h := c])"
      using n by (simp add: klog_get_def klog_put_def Let_def)
    then show ?thesis using h len by (simp add: take_Suc_conv_app_nth)
  qed
  have "length (klog_get s @ [c]) - KLOG_BUF_SIZE = 1"
    using klog_get_length [OF assms] n by simp
  then have "lastn KLOG_BUF_SIZE (klog_get s @ [c]) = tl (klog_get s) @ [c]"
    using klog_get_length [OF assms] n by (simp add: lastn_def drop_Suc)
  moreover have "tl (klog_get s) = drop (Suc ?h) (klog_buf s) @ take ?h (klog_buf s)"
    using klog_get_full [OF assms n] h len by (simp add: Cons_nth_drop_Suc [symmetric])
  ultimately show ?thesis using step by simp
qed

interpretation klogw: sliding_window klog_get klog_wf KLOG_BUF_SIZE klog_put
proof
  fix s c
  assume "klog_wf s"
  then show "klog_wf (klog_put c s)" "klog_get (klog_put c s) = lastn KLOG_BUF_SIZE (klog_get s @ [c])"
    and "length (klog_get s) \<le> KLOG_BUF_SIZE"
    by (auto simp: klog_put_wf klog_put_get klog_get_length) (simp add: klog_wf_def)
qed

section \<open>The boot log keeps a prefix\<close>

definition bootlog_text :: "klog \<Rightarrow> bytes" where
  "bootlog_text s = take (bootlog_index s) (bootlog_buf s)"

definition bootlog_wf :: "klog \<Rightarrow> bool" where
  "bootlog_wf s \<longleftrightarrow> length (bootlog_buf s) = LOG_BUF_SIZE \<and> bootlog_index s \<le> LOG_BUF_SIZE - 1 \<and>
     0 \<notin> set (bootlog_text s) \<and> bootlog_buf s ! bootlog_index s = 0"

lemma bootlog_get_text:
  assumes "bootlog_wf s"
  shows "bootlog_get s = bootlog_text s"
proof -
  let ?i = "bootlog_index s" and ?b = "bootlog_buf s"
  from assms have i: "?i < length ?b" by (simp add: bootlog_wf_def)
  then have "?b = bootlog_text s @ 0 # drop (Suc ?i) ?b"
    using assms id_take_nth_drop [OF i] by (simp add: bootlog_wf_def bootlog_text_def)
  then have "bootlog_get s = takeWhile (\<lambda>c. c \<noteq> 0) (bootlog_text s @ 0 # drop (Suc ?i) ?b)"
    by (simp add: bootlog_get_def)
  also have "\<dots> = bootlog_text s"
    using assms by (subst takeWhile_append2) (auto simp: bootlog_wf_def)
  finally show ?thesis .
qed

lemma bootlog_copy_text:
  "length (bootlog_buf s) = LOG_BUF_SIZE \<Longrightarrow> bootlog_index s \<le> LOG_BUF_SIZE - 1 \<Longrightarrow>
    length (bootlog_buf (bootlog_copy cs s)) = LOG_BUF_SIZE \<and>
    bootlog_index (bootlog_copy cs s) \<le> LOG_BUF_SIZE - 1 \<and>
    bootlog_text (bootlog_copy cs s) = take (LOG_BUF_SIZE - 1) (bootlog_text s @ cs)"
proof (induction cs s rule: bootlog_copy.induct)
  case (1 s)
  then show ?case by (simp add: bootlog_text_def)
next
  case (2 c cs s)
  show ?case
  proof (cases "bootlog_index s < LOG_BUF_SIZE - 1")
    case True
    with 2 show ?thesis by (simp add: bootlog_text_def take_Suc_conv_app_nth)
  next
    case False
    with "2.prems" have "length (bootlog_text s) = LOG_BUF_SIZE - 1"
      by (simp add: bootlog_text_def)
    with False "2.prems" show ?thesis by (simp add: bootlog_text_def)
  qed
qed

lemma klog_put_bootlog [simp]:
  "bootlog_buf (klog_put c s) = bootlog_buf s" "bootlog_index (klog_put c s) = bootlog_index s"
  "bootlog_enabled (klog_put c s) = bootlog_enabled s"
  by (simp_all add: klog_put_def Let_def)

lemma fold_klog_put_bootlog [simp]:
  "bootlog_buf (fold klog_put cs s) = bootlog_buf s"
  "bootlog_index (fold klog_put cs s) = bootlog_index s"
  "bootlog_enabled (fold klog_put cs s) = bootlog_enabled s"
  by (induction cs arbitrary: s) simp_all

lemma bootlog_copy_klog [simp]:
  "klog_buf (bootlog_copy cs s) = klog_buf s" "klog_head (bootlog_copy cs s) = klog_head s"
  "klog_count (bootlog_copy cs s) = klog_count s"
  "bootlog_enabled (bootlog_copy cs s) = bootlog_enabled s"
  by (induction cs s rule: bootlog_copy.induct) simp_all

lemma bootlog_add_text:
  assumes "bootlog_wf s" "bootlog_enabled s" "0 \<notin> set cs"
  shows "bootlog_wf (bootlog_add (Some cs) s)" "bootlog_enabled (bootlog_add (Some cs) s)"
    and "bootlog_get (bootlog_add (Some cs) s) = take (LOG_BUF_SIZE - 1) (bootlog_get s @ cs)"
proof -
  let ?k = "klog_add (Some cs) s"
  let ?c = "bootlog_copy cs ?k"
  have k: "bootlog_buf ?k = bootlog_buf s" "bootlog_index ?k = bootlog_index s"
      "bootlog_enabled ?k = bootlog_enabled s"
    by (simp_all add: klog_add_def)
  then have t: "bootlog_text ?k = bootlog_text s" by (simp add: bootlog_text_def)
  have c: "length (bootlog_buf ?c) = LOG_BUF_SIZE" "bootlog_index ?c \<le> LOG_BUF_SIZE - 1"
      "bootlog_text ?c = take (LOG_BUF_SIZE - 1) (bootlog_text s @ cs)"
    using bootlog_copy_text [of ?k cs] assms(1) k t by (auto simp: bootlog_wf_def)
  have e: "bootlog_add (Some cs) s = ?c\<lparr>bootlog_buf := (bootlog_buf ?c)[bootlog_index ?c := 0]\<rparr>"
    using assms(2) k by (simp add: bootlog_add_def Let_def)
  then have same: "bootlog_text (bootlog_add (Some cs) s) = bootlog_text ?c"
    by (simp add: bootlog_text_def)
  have "set (bootlog_text ?c) \<subseteq> set (bootlog_text s) \<union> set cs"
    unfolding c(3) using set_take_subset by fastforce
  with assms(1,3) show wf: "bootlog_wf (bootlog_add (Some cs) s)"
    using c same unfolding bootlog_wf_def by (auto simp: e)
  show "bootlog_enabled (bootlog_add (Some cs) s)" using assms(2) k by (simp add: e)
  show "bootlog_get (bootlog_add (Some cs) s) = take (LOG_BUF_SIZE - 1) (bootlog_get s @ cs)"
    using bootlog_get_text [OF wf] bootlog_get_text [OF assms(1)] same c(3) by simp
qed

lemma klog_initial_wf: "klog_wf klog_initial" "klog_get klog_initial = []"
  by (simp_all add: klog_wf_def klog_get_def klog_initial_def)

lemma bootlog_initial_wf: "bootlog_wf klog_initial" "bootlog_get klog_initial = []"
proof -
  show wf: "bootlog_wf klog_initial"
    by (simp add: bootlog_wf_def bootlog_text_def klog_initial_def)
  show "bootlog_get klog_initial = []"
    using bootlog_get_text [OF wf] by (simp add: bootlog_text_def klog_initial_def)
qed

section \<open>Properties\<close>

text \<open>
  C28: the kernel log holds the newest 16384 characters of everything ever added to it: from any
  well-formed log, adding the strings \<open>ss\<close> makes \<open>klog_get\<close> return the last 16384 characters of
  the previous text followed by all of \<open>ss\<close>, whether or not the circular buffer wrapped.
\<close>

theorem klog_keeps_latest:
  assumes "klog_wf s"
  shows "klog_wf (fold (\<lambda>cs. klog_add (Some cs)) ss s) \<and>
    klog_get (fold (\<lambda>cs. klog_add (Some cs)) ss s) = lastn KLOG_BUF_SIZE (klog_get s @ concat ss)"
proof -
  have "fold (\<lambda>cs. klog_add (Some cs)) ss s = fold klog_put (concat ss) s"
    by (induction ss arbitrary: s) (simp_all add: klog_add_def)
  with klogw.fold_push_window [OF assms, of "concat ss"] show ?thesis by simp
qed

theorem klog_keeps_latest_witness:
  "klog_get (fold (\<lambda>cs. klog_add (Some cs)) [[104, 105], [33]] klog_initial) = [104, 105, 33]"
  using klog_keeps_latest [OF klog_initial_wf(1), of "[[104, 105], [33]]"] klog_initial_wf(2)
  by simp

text \<open>
  C29: the boot log holds the oldest 8191 characters: starting from the boot state, after any
  sequence of \<open>bootlog_add\<close> calls with proper C strings \<open>bootlog_get\<close> returns the first 8191
  characters of their concatenation (always terminated inside the buffer), and the kernel log
  has received the same text.
\<close>

theorem bootlog_keeps_oldest:
  assumes "0 \<notin> set (concat ss)"
  shows "bootlog_get (fold (\<lambda>cs. bootlog_add (Some cs)) ss klog_initial)
      = take (LOG_BUF_SIZE - 1) (concat ss) \<and>
    klog_get (fold (\<lambda>cs. bootlog_add (Some cs)) ss klog_initial) = lastn KLOG_BUF_SIZE (concat ss)"
proof -
  let ?f = "fold (\<lambda>cs. bootlog_add (Some cs))"
  have boot: "bootlog_wf s \<Longrightarrow> bootlog_enabled s \<Longrightarrow> 0 \<notin> set (concat ss) \<Longrightarrow>
      bootlog_get (?f ss s) = take (LOG_BUF_SIZE - 1) (bootlog_get s @ concat ss)" for s ss
  proof (induction ss arbitrary: s)
    case Nil
    then show ?case using bootlog_get_text [of s] by (simp add: bootlog_wf_def bootlog_text_def)
  next
    case (Cons cs ss)
    then have "bootlog_get (?f (cs # ss) s)
        = take (LOG_BUF_SIZE - 1) (take (LOG_BUF_SIZE - 1) (bootlog_get s @ cs) @ concat ss)"
      using bootlog_add_text [of s cs] by (simp del: take_append)
    then show ?case by (simp only: take_take_append) simp
  qed
  have eq: "klog_get (bootlog_add (Some cs) s) = klog_get (klog_add (Some cs) s)"
      "klog_wf (bootlog_add (Some cs) s) = klog_wf (klog_add (Some cs) s)" for s cs
    by (simp_all add: bootlog_add_def Let_def klog_get_def klog_wf_def)
  have log: "klog_wf s \<Longrightarrow> klog_get (?f ss s) = lastn KLOG_BUF_SIZE (klog_get s @ concat ss)" for s ss
  proof (induction ss arbitrary: s)
    case Nil
    then show ?case using klogw.window_bounded [of s] by simp
  next
    case (Cons cs ss)
    have "klog_wf (bootlog_add (Some cs) s)"
        "klog_get (bootlog_add (Some cs) s) = lastn KLOG_BUF_SIZE (klog_get s @ cs)"
      using klogw.fold_push_window [OF Cons.prems, of cs] eq [of cs s] by (simp_all add: klog_add_def)
    with Cons.IH show ?case by (simp add: lastn_lastn_append)
  qed
  show ?thesis
    using boot [OF bootlog_initial_wf(1) _ assms] log [OF klog_initial_wf(1), of ss]
      klog_initial_wf(2) bootlog_initial_wf(2) by (simp add: klog_initial_def)
qed

theorem bootlog_keeps_oldest_witness:
  "bootlog_get (fold (\<lambda>cs. bootlog_add (Some cs)) [[79, 75], [10]] klog_initial) = [79, 75, 10]"
  using bootlog_keeps_oldest [of "[[79, 75], [10]]"] by simp

end
