(* ===== verification/Timer_Tasks.thy ===== *)
theory Timer_Tasks
  imports Orion_Prelude
begin

text \<open>
  The timer tasks of \<^verbatim>\<open>kernel/proc/timer_task.c\<close>: a table of 32 slots, each a one-shot or periodic
  call that becomes due at a tick. Ticks are 32-bit counters that wrap around. Function pointers
  and contexts are 32-bit addresses. The table is only touched with interrupts disabled, so an
  operation is one step of the state.
\<close>

section \<open>State\<close>

record timer_task =
  task_id :: u32
  due_tick :: u32
  interval_ticks :: u32
  task_fn :: u32
  task_ctx :: u32
  active :: bool

record timers =
  tasks :: "timer_task list"
  next_id :: u32
  tick :: u32

abbreviation MAX_TIMER_TASKS :: nat where "MAX_TIMER_TASKS \<equiv> 32"
abbreviation TIMER_HZ :: u32 where "TIMER_HZ \<equiv> 100"
abbreviation UINT32_MAX :: u32 where "UINT32_MAX \<equiv> 0xFFFFFFFF"

definition zero_task :: timer_task where
  "zero_task = \<lparr>task_id = 0, due_tick = 0, interval_ticks = 0, task_fn = 0, task_ctx = 0, active = False\<rparr>"

section \<open>Operations\<close>

definition tick_elapsed :: "u32 \<Rightarrow> u32 \<Rightarrow> bool" where
  "tick_elapsed now due \<longleftrightarrow> sint (now - due) \<ge> 0"

definition timer_task_init :: "timers \<Rightarrow> timers" where
  "timer_task_init s = s\<lparr>tasks := replicate MAX_TIMER_TASKS zero_task, next_id := 1\<rparr>"

definition timer_task_alloc ::
  "u32 \<Rightarrow> u32 \<Rightarrow> u32 \<Rightarrow> u32 \<Rightarrow> timers \<Rightarrow> int \<times> timers" where
  "timer_task_alloc delay_ticks interval func cx s =
     (if func = 0 then (-1, s)
      else
        let delay_ticks = (if delay_ticks = 0 then 1 else delay_ticks)
        in case first_index (\<lambda>t. \<not> active t) (tasks s) of
             None \<Rightarrow> (-1, s)
           | Some slot \<Rightarrow>
               let new_id = next_id s;
                   s = s\<lparr>next_id := next_id s + 1\<rparr>;
                   s = (if next_id s = 0 then s\<lparr>next_id := 1\<rparr> else s);
                   t = \<lparr>task_id = new_id, due_tick = tick s + delay_ticks, interval_ticks = interval,
                        task_fn = func, task_ctx = cx, active = True\<rparr>
               in (sint new_id, s\<lparr>tasks := (tasks s)[slot := t]\<rparr>))"

definition timer_task_schedule_ticks ::
  "u32 \<Rightarrow> u32 \<Rightarrow> u32 \<Rightarrow> u32 \<Rightarrow> timers \<Rightarrow> int \<times> timers" where
  "timer_task_schedule_ticks delay_ticks interval func cx s =
     timer_task_alloc delay_ticks interval func cx s"

definition ms_to_ticks :: "u32 \<Rightarrow> u32" where
  "ms_to_ticks ms =
     (let q = ms div 1000; r = ms mod 1000
      in if TIMER_HZ = 0 then 1
         else if q > UINT32_MAX div TIMER_HZ then UINT32_MAX
         else
           let ticks = q * TIMER_HZ;
               ticks = (if r \<noteq> 0
                 then let rem = r * TIMER_HZ; ticks = ticks + rem div 1000
                      in if rem mod 1000 \<noteq> 0 then ticks + 1 else ticks
                 else ticks)
           in if ticks = 0 then 1 else ticks)"

definition timer_task_schedule_ms ::
  "u32 \<Rightarrow> u32 \<Rightarrow> u32 \<Rightarrow> u32 \<Rightarrow> timers \<Rightarrow> int \<times> timers" where
  "timer_task_schedule_ms delay_ms interval_ms func cx s =
     (let delay_ticks = ms_to_ticks delay_ms;
          interval = (if interval_ms \<noteq> 0 then ms_to_ticks interval_ms else 0)
      in timer_task_alloc delay_ticks interval func cx s)"

definition timer_task_cancel :: "u32 \<Rightarrow> timers \<Rightarrow> bool \<times> timers" where
  "timer_task_cancel i s =
     (if i = 0 then (False, s)
      else case first_index (\<lambda>t. active t \<and> task_id t = i) (tasks s) of
             None \<Rightarrow> (False, s)
           | Some k \<Rightarrow> (True, s\<lparr>tasks := (tasks s)[k := zero_task]\<rparr>))"

definition task_due :: "u32 \<Rightarrow> timer_task \<Rightarrow> bool" where
  "task_due now t \<longleftrightarrow> active t \<and> tick_elapsed now (due_tick t)"

definition timer_task_due :: "timers \<Rightarrow> bool" where
  "timer_task_due s \<longleftrightarrow> first_index (task_due (tick s)) (tasks s) \<noteq> None"

text \<open>
  What one turn of \<open>timer_task_run_due\<close> does to the slot it picks, and the turn itself: the task
  to call, if one is due.
\<close>

definition task_rearm :: "u32 \<Rightarrow> timer_task \<Rightarrow> timer_task" where
  "task_rearm now t =
     (if interval_ticks t = 0 then zero_task else t\<lparr>due_tick := now + interval_ticks t\<rparr>)"

definition timer_task_pick :: "timers \<Rightarrow> (u32 \<times> u32) \<times> timers" where
  "timer_task_pick s =
     (let now = tick s
      in case first_index (task_due now) (tasks s) of
           None \<Rightarrow> ((0, 0), s)
         | Some i \<Rightarrow>
             let t = tasks s ! i
             in ((task_fn t, task_ctx t), s\<lparr>tasks := (tasks s)[i := task_rearm now t]\<rparr>))"

text \<open>\<open>call\<close> is the effect of a task's function on the timers and on the rest of the kernel.\<close>

partial_function (option) timer_task_run_due ::
  "(u32 \<times> u32 \<Rightarrow> timers \<times> 'k \<Rightarrow> timers \<times> 'k) \<Rightarrow> timers \<times> 'k \<Rightarrow> (timers \<times> 'k) option"
where
  "timer_task_run_due call s =
     (let (fc, t) = timer_task_pick (fst s)
      in if fst fc = 0 then Some (t, snd s)
         else timer_task_run_due call (call fc (t, snd s)))"

section \<open>Well-formed tables\<close>

text \<open>
  An active task has a function to call, and its interval is at most half of the tick counter's
  range, which is what \<open>tick_elapsed\<close> can tell from the past.
\<close>

definition task_wf :: "timer_task \<Rightarrow> bool" where
  "task_wf t \<longleftrightarrow> (active t \<longrightarrow> task_fn t \<noteq> 0 \<and> interval_ticks t \<le> 0x80000000)"

definition timers_wf :: "timers \<Rightarrow> bool" where
  "timers_wf s \<longleftrightarrow> length (tasks s) = MAX_TIMER_TASKS \<and> next_id s \<noteq> 0 \<and> list_all task_wf (tasks s)"

lemma zero_task_wf [simp]: "task_wf zero_task" "\<not> active zero_task" "\<not> task_due now zero_task"
  by (simp_all add: task_wf_def zero_task_def task_due_def)

lemma list_all_update: "list_all P xs \<Longrightarrow> P y \<Longrightarrow> list_all P (xs[i := y])"
  by (auto simp: list_all_iff dest: set_update_subset_insert [THEN subsetD])

lemma sint_neg_interval:
  assumes "i \<noteq> 0" "(i::u32) \<le> 0x80000000"
  shows "sint (- i) < 0"
proof -
  have "0 < uint i" using assms(1) by (simp add: word_neq_0_conv word_less_def)
  moreover have "uint i \<le> 0x80000000" using assms(2) by (simp add: word_le_def)
  ultimately have "uint (- i) = 0x100000000 - uint i"
    by (simp add: uint_word_ariths zmod_zminus1_eq_if)
  with \<open>uint i \<le> _\<close> \<open>0 < uint i\<close> show ?thesis by (simp add: sint_u32)
qed

lemma task_rearm_not_due:
  assumes "task_wf t" "active t"
  shows "\<not> task_due now (task_rearm now t)"
proof (cases "interval_ticks t = 0")
  case True
  then show ?thesis by (simp add: task_rearm_def)
next
  case False
  with assms have "sint (- interval_ticks t) < 0"
    by (intro sint_neg_interval) (simp_all add: task_wf_def)
  with False show ?thesis by (simp add: task_rearm_def task_due_def tick_elapsed_def)
qed

text \<open>The table after every due task has been fired once.\<close>

definition task_fire :: "u32 \<Rightarrow> timer_task \<Rightarrow> timer_task" where
  "task_fire now t = (if task_due now t then task_rearm now t else t)"

lemma task_fire_idem: "task_wf t \<Longrightarrow> task_fire now (task_fire now t) = task_fire now t"
  using task_rearm_not_due [of t now] by (auto simp: task_fire_def task_due_def)

lemma task_rearm_wf: "task_wf t \<Longrightarrow> task_wf (task_rearm now t)"
  by (simp add: task_rearm_def task_wf_def zero_task_def)

lemma task_fire_wf: "task_wf t \<Longrightarrow> task_wf (task_fire now t)"
  by (simp add: task_fire_def task_rearm_wf)

lemma timer_task_pick_some:
  assumes "timers_wf s" "first_index (task_due (tick s)) (tasks s) = Some i"
  defines "s' \<equiv> snd (timer_task_pick s)"
  shows "timers_wf s'" "tick s' = tick s" "next_id s' = next_id s"
    and "map (task_fire (tick s)) (tasks s') = map (task_fire (tick s)) (tasks s)"
    and "filter (task_due (tick s)) (tasks s)
      = tasks s ! i # filter (task_due (tick s)) (tasks s')"
    and "fst (timer_task_pick s) = (task_fn (tasks s ! i), task_ctx (tasks s ! i))"
    and "task_fn (tasks s ! i) \<noteq> 0"
proof -
  let ?t = "tasks s ! i"
  from first_index_SomeD [OF assms(2)] have i: "i < length (tasks s)" "task_due (tick s) ?t" by auto
  with assms(1) have wf: "task_wf ?t" by (simp add: timers_wf_def list_all_length)
  have act: "active ?t" using i(2) by (simp add: task_due_def)
  have s': "s' = s\<lparr>tasks := (tasks s)[i := task_rearm (tick s) ?t]\<rparr>"
    using assms(2) by (simp add: s'_def timer_task_pick_def Let_def)
  show "timers_wf s'"
    using assms(1) task_rearm_wf [OF wf] by (simp add: s' timers_wf_def list_all_update)
  show "tick s' = tick s" "next_id s' = next_id s" by (simp_all add: s')
  have "task_fire (tick s) (task_rearm (tick s) ?t) = task_fire (tick s) ?t"
    using i(2) task_fire_idem [OF wf, of "tick s"] by (simp add: task_fire_def)
  then show "map (task_fire (tick s)) (tasks s') = map (task_fire (tick s)) (tasks s)"
    using i(1) by (simp add: s' map_update list_update_id) (metis list_update_id nth_map)
  show "filter (task_due (tick s)) (tasks s) = ?t # filter (task_due (tick s)) (tasks s')"
    using filter_first_index [OF assms(2) task_rearm_not_due [OF wf act]] by (simp add: s')
  show "fst (timer_task_pick s) = (task_fn ?t, task_ctx ?t)"
    using assms(2) by (simp add: timer_task_pick_def Let_def)
  show "task_fn ?t \<noteq> 0" using wf act by (simp add: task_wf_def)
qed

lemma timer_task_pick_none:
  assumes "first_index (task_due (tick s)) (tasks s) = None"
  shows "timer_task_pick s = ((0, 0), s)"
    and "filter (task_due (tick s)) (tasks s) = []"
    and "map (task_fire (tick s)) (tasks s) = tasks s"
proof -
  show "timer_task_pick s = ((0, 0), s)" using assms by (simp add: timer_task_pick_def Let_def)
  show "filter (task_due (tick s)) (tasks s) = []" "map (task_fire (tick s)) (tasks s) = tasks s"
    using assms by (auto simp: first_index_None_iff task_fire_def filter_empty_conv intro!: map_idI)
qed

section \<open>Properties\<close>

text \<open>
  C30: \<open>timer_task_run_due\<close> fires exactly the due tasks and returns, provided the task functions leave
  the table alone and finish within the tick they were started in (the tick counter does not move
  while the loop runs), and no interval exceeds \<open>2^31\<close> ticks.  Then every task that is due is called
  exactly once, in the order of the slots; a one-shot task is gone afterwards, a periodic one is due
  again one interval from now, the others are untouched, and no task is due any more.
\<close>

theorem timer_task_run_due_fires:
  assumes "timers_wf s"
  shows "\<exists>s'. timer_task_run_due (\<lambda>c (s, k). (s, f c k)) (s, k) =
      Some (s', fold f (map (\<lambda>t. (task_fn t, task_ctx t)) (filter (task_due (tick s)) (tasks s))) k) \<and>
    tasks s' = map (task_fire (tick s)) (tasks s) \<and> tick s' = tick s \<and> timers_wf s' \<and>
    \<not> timer_task_due s'"
  using assms
proof (induction "filter (task_due (tick s)) (tasks s)" arbitrary: s k)
  case Nil
  then have none: "first_index (task_due (tick s)) (tasks s) = None"
    by (auto simp: first_index_None_iff filter_empty_conv dest: sym)
  then have "timer_task_run_due (\<lambda>c (s, k). (s, f c k)) (s, k) = Some (s, k)"
    by (subst timer_task_run_due.simps) (simp add: timer_task_pick_none)
  with Nil.prems none timer_task_pick_none [OF none] show ?case
    by (auto simp: timer_task_due_def)
next
  case (Cons t ts)
  then have "first_index (task_due (tick s)) (tasks s) \<noteq> None"
    by (metis first_index_None_iff filter_empty_conv list.distinct(1))
  then obtain i where i: "first_index (task_due (tick s)) (tasks s) = Some i" by auto
  let ?s = "snd (timer_task_pick s)"
  note pick = timer_task_pick_some [OF Cons.prems i]
  have ts: "t = tasks s ! i" "filter (task_due (tick ?s)) (tasks ?s) = ts"
    using pick(2,5) Cons.hyps(2) by simp_all
  have "timer_task_run_due (\<lambda>c (s, k). (s, f c k)) (s, k) =
      timer_task_run_due (\<lambda>c (s, k). (s, f c k)) (?s, f (task_fn t, task_ctx t) k)"
    using pick(6,7) ts(1) by (subst timer_task_run_due.simps) (simp add: case_prod_beta)
  moreover obtain s' where "timer_task_run_due (\<lambda>c (s, k). (s, f c k))
      (?s, f (task_fn t, task_ctx t) k) = Some (s', fold f (map (\<lambda>t. (task_fn t, task_ctx t)) ts)
        (f (task_fn t, task_ctx t) k))"
      "tasks s' = map (task_fire (tick s)) (tasks s)" "tick s' = tick s" "timers_wf s'"
      "\<not> timer_task_due s'"
    using Cons.hyps(1) [OF ts(2) [symmetric] pick(1), of "f (task_fn t, task_ctx t) k"] pick(2,4) ts(2)
    by auto
  ultimately show ?case using Cons.hyps(2) [symmetric] by simp
qed

theorem timer_task_run_due_fires_witness:
  "\<exists>s'. timer_task_run_due (\<lambda>c (s, k). (s, k @ [c]))
      (\<lparr>tasks = \<lparr>task_id = 1, due_tick = 0xFFFFFFFE, interval_ticks = 5, task_fn = 7, task_ctx = 8,
            active = True\<rparr> # replicate 31 zero_task, next_id = 2, tick = 1\<rparr>, [])
     = Some (s', [(7, 8)]) \<and> \<not> timer_task_due s'"
proof -
  let ?t = "\<lparr>task_id = 1, due_tick = 0xFFFFFFFE, interval_ticks = 5, task_fn = 7, task_ctx = 8,
      active = True\<rparr>"
  let ?s = "\<lparr>tasks = ?t # replicate 31 zero_task, next_id = 2, tick = 1\<rparr>"
  have wf: "timers_wf ?s"
    by (simp add: timers_wf_def task_wf_def list_all_iff)
  have "filter (task_due (tick ?s)) (tasks ?s) = [?t]"
    by (simp add: filter_empty_conv) (simp add: task_due_def tick_elapsed_def)
  with timer_task_run_due_fires [OF wf, of "\<lambda>c k. k @ [c]" "[]"] show ?thesis by auto
qed





lemma unat_ms_to_ticks_steps:
  fixes ms :: u32
  shows "unat (ms div 1000 * 100) = unat ms div 1000 * 100"
    and "unat (ms mod 1000 * 100) = unat ms mod 1000 * 100"
    and "\<not> ms div 1000 > UINT32_MAX div TIMER_HZ"
proof -
  have b: "unat ms < 4294967296" using unat_lt_exp [of ms] by simp
  then have q: "unat ms div 1000 * 100 < 4294967296" "unat ms div 1000 \<le> 42949672" by simp_all
  have r: "unat ms mod 1000 * 100 < 4294967296"
    using mod_less_divisor [of 1000 "unat ms"] by linarith
  show "unat (ms div 1000 * 100) = unat ms div 1000 * 100"
    using q by (simp add: unat_word_ariths unat_div)
  show "unat (ms mod 1000 * 100) = unat ms mod 1000 * 100"
    using r by (simp add: unat_word_ariths unat_mod)
  show "\<not> ms div 1000 > UINT32_MAX div TIMER_HZ"
    using q by (simp add: word_less_nat_alt unat_div)
qed

lemma div_ceil_10: "(x + 9) div 10 = x div 10 + (if x mod 10 = 0 then 0 else 1)" for x :: nat
proof -
  have "x + 9 = (x mod 10 + 9) + x div 10 * 10" using div_mult_mod_eq [of x 10] by linarith
  then have "(x + 9) div 10 = (x mod 10 + 9 + x div 10 * 10) div 10" by (rule arg_cong)
  also have "\<dots> = x div 10 + (x mod 10 + 9) div 10" by (rule div_mult_self1) simp
  also have "(x mod 10 + 9) div 10 = (if x mod 10 = 0 then 0 else 1)"
  proof (cases "x mod 10 = 0")
    case False
    moreover have "x mod 10 < 10" by simp
    ultimately have "10 \<le> x mod 10 + 9" "x mod 10 + 9 < 20" by linarith+
    then show ?thesis using False by (simp add: div_nat_eqI)
  qed simp
  finally show ?thesis .
qed

lemma unat_ms_to_ticks: "unat (ms_to_ticks ms) = max 1 ((unat ms + 9) div 10)"
proof -
  let ?q = "unat ms div 1000" and ?r = "unat ms mod 1000"
  note steps = unat_ms_to_ticks_steps [of ms]
  have b: "unat ms < 4294967296" using unat_lt_exp [of ms] by simp
  have r0: "ms mod 1000 = 0 \<longleftrightarrow> ?r = 0" by (simp add: word_eq_unat_iff unat_mod)
  have m0: "ms mod 1000 * 100 mod 1000 = 0 \<longleftrightarrow> ?r * 100 mod 1000 = 0"
    using steps(2) by (simp add: word_eq_unat_iff unat_mod)
  have d: "unat (ms div 1000 * 100 + ms mod 1000 * 100 div 1000) = ?q * 100 + ?r * 100 div 1000"
  proof -
    have "?q * 100 + ?r * 100 div 1000 < 4294967296" using b by simp
    then show ?thesis using steps by (simp add: unat_word_ariths unat_div)
  qed
  have d1: "unat (ms div 1000 * 100 + ms mod 1000 * 100 div 1000 + 1) = ?q * 100 + ?r * 100 div 1000 + 1"
  proof -
    have "?q * 100 + ?r * 100 div 1000 + 1 < 4294967296" using b by simp
    then show ?thesis using d by (subst unat_plus_one) simp_all
  qed
  define ticks where "ticks = (if ms mod 1000 \<noteq> 0
     then (if ms mod 1000 * 100 mod 1000 \<noteq> 0
           then ms div 1000 * 100 + ms mod 1000 * 100 div 1000 + 1
           else ms div 1000 * 100 + ms mod 1000 * 100 div 1000)
     else ms div 1000 * 100)"
  have rd: "?r * 100 div 1000 = ?r div 10" "?r * 100 mod 1000 = ?r mod 10 * 100"
    using div_mult_mult2 [of 100 ?r 10] mult_mod_left [of ?r 10 100] by simp_all
  have "unat ticks = ?q * 100 + (?r + 9) div 10"
    using d d1 r0 m0 steps(1) unfolding ticks_def rd div_ceil_10 by (auto split: if_splits)
  also have "\<dots> = (?r + 9 + ?q * 100 * 10) div 10" by (rule div_mult_self1 [symmetric]) simp
  also have "?r + 9 + ?q * 100 * 10 = unat ms + 9" using div_mult_mod_eq [of "unat ms" 1000] by linarith
  finally have t: "unat ticks = (unat ms + 9) div 10" .
  have "ms_to_ticks ms = (if ticks = 0 then 1 else ticks)"
    using steps(3) by (simp add: ms_to_ticks_def ticks_def Let_def)
  then show ?thesis using t by (auto simp: word_eq_unat_iff max_def)
qed

lemma filter_update_out:
  "i < length xs \<Longrightarrow> \<not> P (xs ! i) \<Longrightarrow> \<not> P y \<Longrightarrow> filter P (xs[i := y]) = filter P xs"
proof (induction xs arbitrary: i)
  case (Cons x xs)
  then show ?case by (cases i) auto
qed simp

lemma ms_to_ticks_le: "ms_to_ticks ms \<le> 0x80000000"
proof -
  have "unat ms < 4294967296" using unat_lt_exp [of ms] by simp
  then have "(unat ms + 9) div 10 \<le> 2147483648" by simp
  then show ?thesis using unat_ms_to_ticks [of ms] by (simp add: word_le_nat_alt)
qed

text \<open>
  C33: the conversion of milliseconds to ticks never overflows and rounds up: at 100 Hz it is the
  number of 10 ms ticks that cover the delay, and at least one.
\<close>

theorem ms_to_ticks_ceil:
  "unat (ms_to_ticks ms) = max 1 ((unat ms + 9) div 10)"
  by (rule unat_ms_to_ticks)

lemma timer_task_alloc_free:
  fixes delay interval cx :: u32
  assumes "timers_wf s" "func \<noteq> 0" "interval \<le> 0x80000000"
    and "first_index (\<lambda>t. \<not> active t) (tasks s) = Some k"
  defines "t \<equiv> \<lparr>task_id = next_id s, due_tick = tick s + (if delay = 0 then 1 else delay),
    interval_ticks = interval, task_fn = func, task_ctx = cx, active = True\<rparr>"
  shows "fst (timer_task_alloc delay interval func cx s) = sint (next_id s)"
    and "tasks (snd (timer_task_alloc delay interval func cx s)) = (tasks s)[k := t]"
    and "timers_wf (snd (timer_task_alloc delay interval func cx s))"
    and "tick (snd (timer_task_alloc delay interval func cx s)) = tick s"
proof -
  have t: "task_wf t" using assms(2,3) by (simp add: task_wf_def t_def)
  show "fst (timer_task_alloc delay interval func cx s) = sint (next_id s)"
    and tasks: "tasks (snd (timer_task_alloc delay interval func cx s)) = (tasks s)[k := t]"
    using assms(2,4) by (simp_all add: timer_task_alloc_def Let_def t_def)
  show "tick (snd (timer_task_alloc delay interval func cx s)) = tick s"
    using assms(2,4) by (simp add: timer_task_alloc_def Let_def)
  have "next_id (snd (timer_task_alloc delay interval func cx s)) \<noteq> 0"
    using assms(2,4) by (simp add: timer_task_alloc_def Let_def)
  with t tasks assms(1) show "timers_wf (snd (timer_task_alloc delay interval func cx s))"
    by (simp add: timers_wf_def list_all_update)
qed

lemma ms_to_ticks_pos: "ms_to_ticks ms \<noteq> 0"
  using unat_ms_to_ticks [of ms] by (auto simp: word_eq_unat_iff)

text \<open>
  C34: scheduling a task and cancelling it by the id it was given is a round trip.  While a slot is
  free and no active task carries the next id, \<open>timer_task_schedule_ms\<close> stores the task in the first
  free slot, with the next id, the function and its context, due after the delay in ticks and with
  the interval in ticks (0 for a one-shot task), touches no other slot, keeps the table well formed
  and returns the id; \<open>timer_task_cancel\<close> of that id then clears this slot and no other, which leaves
  exactly the active tasks there were.
\<close>

theorem timer_task_schedule_cancel:
  fixes delay_ms interval_ms cx :: u32
  assumes "timers_wf s" "func \<noteq> 0" "first_index (\<lambda>t. \<not> active t) (tasks s) = Some k"
    and "\<forall>t \<in> set (tasks s). active t \<longrightarrow> task_id t \<noteq> next_id s"
  defines "r \<equiv> timer_task_schedule_ms delay_ms interval_ms func cx s"
  defines "c \<equiv> timer_task_cancel (next_id s) (snd r)"
  shows "fst r = sint (next_id s) \<and> timers_wf (snd r) \<and> tick (snd r) = tick s
    \<and> tasks (snd r) = (tasks s)[k := \<lparr>task_id = next_id s, due_tick = tick s + ms_to_ticks delay_ms,
        interval_ticks = (if interval_ms = 0 then 0 else ms_to_ticks interval_ms),
        task_fn = func, task_ctx = cx, active = True\<rparr>]
    \<and> fst c \<and> tasks (snd c) = (tasks s)[k := zero_task]
    \<and> filter active (tasks (snd c)) = filter active (tasks s)"
proof -
  let ?d = "ms_to_ticks delay_ms" and ?i = "if interval_ms \<noteq> 0 then ms_to_ticks interval_ms else 0"
  note k' = first_index_SomeD [OF assms(3)]
  have r: "r = timer_task_alloc ?d ?i func cx s"
    by (simp add: r_def timer_task_schedule_ms_def)
  have "?i \<le> 0x80000000" by (simp add: ms_to_ticks_le)
  note alloc = timer_task_alloc_free [OF assms(1,2) this assms(3), of ?d cx, folded r]
  define t where "t = \<lparr>task_id = next_id s, due_tick = tick s + ?d,
    interval_ticks = (if interval_ms = 0 then 0 else ms_to_ticks interval_ms), task_fn = func, task_ctx = cx, active = True\<rparr>"
  have tasks: "tasks (snd r) = (tasks s)[k := t]" using alloc(2) ms_to_ticks_pos [of delay_ms] by (simp add: t_def)
  have hit: "first_index (\<lambda>t. active t \<and> task_id t = next_id s) (tasks (snd r)) = Some k"
    using k' assms(4) by (auto simp: first_index_Some_iff tasks t_def)
  have "next_id s \<noteq> 0" using assms(1) by (simp add: timers_wf_def)
  with hit have c: "fst c" "tasks (snd c) = (tasks s)[k := zero_task]"
    using k' by (simp_all add: c_def timer_task_cancel_def tasks)
  have fz: "filter active ((tasks s)[k := zero_task]) = filter active (tasks s)"
    using k' by (intro filter_update_out) simp_all
  show ?thesis using alloc(1,3,4) c fz tasks by (simp add: t_def)
qed

theorem timer_task_schedule_cancel_witness:
  "let s = timer_task_init \<lparr>tasks = [], next_id = 0, tick = 77\<rparr>;
       s1 = snd (timer_task_schedule_ms 250 1000 0xC0101000 5 s)
   in due_tick (tasks s1 ! 0) = 102 \<and> interval_ticks (tasks s1 ! 0) = 100 \<and> task_ctx (tasks s1 ! 0) = 5
    \<and> fst (timer_task_cancel 1 s1)"
proof -
  let ?s = "timer_task_init \<lparr>tasks = [], next_id = 0, tick = 77\<rparr>"
  have w: "timers_wf ?s" "first_index (\<lambda>t. \<not> active t) (tasks ?s) = Some 0"
    "\<forall>t \<in> set (tasks ?s). active t \<longrightarrow> task_id t \<noteq> next_id ?s" and n: "next_id ?s = 1" "tick ?s = 77" "length (tasks ?s) = 32"
    by (simp_all add: timers_wf_def timer_task_init_def list_all_iff numeral_eq_Suc [of Num.One] first_index_Some_iff)
  have t: "ms_to_ticks 250 = 25" "ms_to_ticks 1000 = 100" by (simp_all add: ms_to_ticks_def)
  from timer_task_schedule_cancel [OF w(1) _ w(2,3), of "0xC0101000" 250 1000 5] show ?thesis
    unfolding n t by (simp add: Let_def n)
qed

end
