(* ===== verification/Libc_String.thy ===== *)
theory Libc_String
  imports Orion_Prelude "HOL-Library.Sublist"
begin

text \<open>
  The string and memory routines of \<^verbatim>\<open>libc/string.c\<close> (the user-space copy \<^verbatim>\<open>olibc/string.c\<close> has the
  same text but for \<open>hex_to_ascii\<close>).

  A \<^verbatim>\<open>const char*\<close> is the list of the bytes from the pointer to the end of the object it points
  into; running off the end of the object is \<^const>\<open>None\<close>.  A destination is such a list too, and
  the routine returns it updated.  The destination and the source of \<open>strcpy\<close>, \<open>strcat\<close>,
  \<open>strncpy\<close>, \<open>strncat\<close> are distinct objects; \<open>memmove\<close> and \<open>memcpy\<close> work on two offsets
  into one object, so that overlap is part of the model.  A pointer result is the offset from the
  pointer that was passed.  Objects are smaller than 2 GiB, the size a C \<open>int\<close> can index, so the
  indexes are natural numbers.  \<open>char\<close> is signed: \<^const>\<open>sint\<close> reads a character as a C \<open>int\<close>.
\<close>

section \<open>Model\<close>

abbreviation ch :: "char \<Rightarrow> u8" where
  "ch c \<equiv> of_char c"

definition char_between :: "char \<Rightarrow> char \<Rightarrow> u8 \<Rightarrow> bool" where
  "char_between lo hi c \<longleftrightarrow> sint (ch lo) \<le> sint c \<and> sint c \<le> sint (ch hi)"

fun strlen :: "bytes \<Rightarrow> nat option" where
  "strlen [] = None"
| "strlen (c # s) = (if c = 0 then Some 0 else map_option Suc (strlen s))"

definition append_ch :: "bytes \<Rightarrow> u8 \<Rightarrow> bytes option" where
  "append_ch s n = do {
     len \<leftarrow> strlen s;
     s \<leftarrow> arr_set s len n;
     arr_set s (len + 1) 0 }"

text \<open>\<open>backspace\<close> of the empty string writes \<^verbatim>\<open>s[-1]\<close>.\<close>

definition backspace :: "bytes \<Rightarrow> bytes option" where
  "backspace s = do {
     len \<leftarrow> strlen s;
     if len = 0 then None else arr_set s (len - 1) 0 }"

function reverse_loop :: "bytes \<Rightarrow> int \<Rightarrow> int \<Rightarrow> bytes option" where
  "reverse_loop s i j = (if i < j then do {
       c \<leftarrow> arr_get s (nat i);
       d \<leftarrow> arr_get s (nat j);
       s \<leftarrow> arr_set s (nat i) d;
       s \<leftarrow> arr_set s (nat j) c;
       reverse_loop s (i + 1) (j - 1) }
     else Some s)"
  by auto
termination by (relation "measure (\<lambda>(s, i, j). nat (j - i))") auto

definition reverse :: "bytes \<Rightarrow> bytes option" where
  "reverse s = do { len \<leftarrow> strlen s; reverse_loop s 0 (int len - 1) }"

fun strcmp :: "bytes \<Rightarrow> bytes \<Rightarrow> int option" where
  "strcmp (c # s1) (d # s2) =
     (if c = d then (if c = 0 then Some 0 else strcmp s1 s2) else Some (sint c - sint d))"
| "strcmp _ _ = None"

fun strncmp :: "bytes \<Rightarrow> bytes \<Rightarrow> nat \<Rightarrow> int option" where
  "strncmp s1 s2 0 = Some 0"
| "strncmp (c # s1) (d # s2) (Suc n) =
     (if c \<noteq> d then Some (uint c - uint d) else if c = 0 then Some 0 else strncmp s1 s2 n)"
| "strncmp _ _ (Suc n) = None"

text \<open>The inner loop of \<open>strstr\<close>: whether the needle is used up where the loop stops.\<close>

fun strstr_match :: "bytes \<Rightarrow> bytes \<Rightarrow> bool option" where
  "strstr_match (h # hs) (n # ns) =
     (if h \<noteq> 0 \<and> n \<noteq> 0 \<and> h = n then strstr_match hs ns else Some (n = 0))"
| "strstr_match _ _ = None"

fun strstr_loop :: "bytes \<Rightarrow> bytes \<Rightarrow> nat option option" where
  "strstr_loop [] needle = None"
| "strstr_loop (h # hs) needle = (if h = 0 then Some None else do {
     m \<leftarrow> strstr_match (h # hs) needle;
     if m then Some (Some 0) else map_option (map_option Suc) (strstr_loop hs needle) })"

definition strstr :: "bytes \<Rightarrow> bytes \<Rightarrow> nat option option" where
  "strstr haystack needle = do {
     n \<leftarrow> arr_get needle 0;
     if n = 0 then Some (Some 0) else strstr_loop haystack needle }"

fun strchr :: "bytes \<Rightarrow> u8 \<Rightarrow> nat option option" where
  "strchr [] c = None"
| "strchr (d # s) c = (if d = 0 then Some None else if d = c then Some (Some 0)
     else map_option (map_option Suc) (strchr s c))"

fun strrchr_loop :: "bytes \<Rightarrow> u8 \<Rightarrow> nat \<Rightarrow> nat option \<Rightarrow> nat option option" where
  "strrchr_loop [] c i l = None"
| "strrchr_loop (d # s) c i l = (if d = 0 then Some l
     else strrchr_loop s c (i + 1) (if d = c then Some i else l))"

definition strrchr :: "bytes \<Rightarrow> u8 \<Rightarrow> nat option option" where
  "strrchr s c = strrchr_loop s c 0 None"

definition toupper :: "int \<Rightarrow> int" where
  "toupper c = (if sint (ch CHR ''a'') \<le> c \<and> c \<le> sint (ch CHR ''z'') then c - 32 else c)"

definition tolower :: "u8 \<Rightarrow> u8" where
  "tolower c = (if char_between CHR ''A'' CHR ''Z'' c then c + 32 else c)"

definition isdigit :: "u8 \<Rightarrow> bool" where
  "isdigit c = char_between CHR ''0'' CHR ''9'' c"

fun memcmp :: "bytes \<Rightarrow> bytes \<Rightarrow> nat \<Rightarrow> int option" where
  "memcmp p1 p2 0 = Some 0"
| "memcmp (c # p1) (d # p2) (Suc n) = (if c \<noteq> d then Some (uint c - uint d) else memcmp p1 p2 n)"
| "memcmp _ _ (Suc n) = None"

text \<open>
  \<open>strncpy\<close>: the first loop copies while the source has characters, the second fills the rest of
  the \<open>n\<close> bytes with zeroes.
\<close>

function strncpy_copy :: "bytes \<Rightarrow> bytes \<Rightarrow> nat \<Rightarrow> nat \<Rightarrow> (bytes \<times> nat) option" where
  "strncpy_copy dest src n i = (if i < n then do {
       c \<leftarrow> arr_get src i;
       if c = 0 then Some (dest, i) else do {
         dest \<leftarrow> arr_set dest i c;
         strncpy_copy dest src n (i + 1) } }
     else Some (dest, i))"
  by auto
termination by (relation "measure (\<lambda>(dest, src, n, i). n - i)") auto

function strncpy_fill :: "bytes \<Rightarrow> nat \<Rightarrow> nat \<Rightarrow> bytes option" where
  "strncpy_fill dest n i = (if i < n then do {
       dest \<leftarrow> arr_set dest i 0;
       strncpy_fill dest n (i + 1) }
     else Some dest)"
  by auto
termination by (relation "measure (\<lambda>(dest, n, i). n - i)") auto

definition strncpy :: "bytes \<Rightarrow> bytes \<Rightarrow> int \<Rightarrow> bytes option" where
  "strncpy dest src n = do {
     (dest, i) \<leftarrow> strncpy_copy dest src (nat n) 0;
     strncpy_fill dest (nat n) i }"

fun strcasecmp :: "bytes \<Rightarrow> bytes \<Rightarrow> int option" where
  "strcasecmp (c # s1) (d # s2) =
     (if c \<noteq> 0 \<and> d \<noteq> 0 then
        (let c1 = if char_between CHR ''A'' CHR ''Z'' c then c + (ch CHR ''a'' - ch CHR ''A'') else c;
             c2 = if char_between CHR ''A'' CHR ''Z'' d then d + (ch CHR ''a'' - ch CHR ''A'') else d
         in if c1 \<noteq> c2 then Some (uint c1 - uint c2) else strcasecmp s1 s2)
      else Some (uint c - uint d))"
| "strcasecmp _ _ = None"

fun rtrim_loop :: "bytes \<Rightarrow> nat \<Rightarrow> bytes" where
  "rtrim_loop s 0 = s"
| "rtrim_loop s (Suc i) =
     (if s ! i \<in> {ch CHR '' '', 9, 13, 10} then rtrim_loop (s[i := 0]) i else s)"

definition rtrim :: "bytes \<Rightarrow> bytes option" where
  "rtrim s = map_option (rtrim_loop s) (strlen s)"

fun strlower :: "bytes \<Rightarrow> bytes option" where
  "strlower [] = None"
| "strlower (c # s) = (if c = 0 then Some (c # s)
     else map_option ((#) (if char_between CHR ''A'' CHR ''Z'' c
                           then c - ch CHR ''A'' + ch CHR ''a'' else c)) (strlower s))"

text \<open>\<open>memmove\<close> within one object \<open>m\<close>: the destination at offset \<open>d\<close>, the source at offset \<open>s\<close>.\<close>

definition copy_byte :: "bytes \<Rightarrow> nat \<Rightarrow> nat \<Rightarrow> bytes option" where
  "copy_byte m d s = do { c \<leftarrow> arr_get m s; arr_set m d c }"

fun copy_down :: "bytes \<Rightarrow> nat \<Rightarrow> nat \<Rightarrow> nat \<Rightarrow> bytes option" where
  "copy_down m d s 0 = Some m"
| "copy_down m d s (Suc n) = do { m \<leftarrow> copy_byte m (d + n) (s + n); copy_down m d s n }"

fun copy_up :: "bytes \<Rightarrow> nat \<Rightarrow> nat \<Rightarrow> nat \<Rightarrow> bytes option" where
  "copy_up m d s 0 = Some m"
| "copy_up m d s (Suc n) = do { m \<leftarrow> copy_byte m d s; copy_up m (d + 1) (s + 1) n }"

definition memmove :: "bytes \<Rightarrow> nat \<Rightarrow> nat \<Rightarrow> nat \<Rightarrow> bytes option" where
  "memmove m d s n = (if d < s then copy_up m d s n else if s < d then copy_down m d s n else Some m)"

definition memcpy :: "bytes \<Rightarrow> nat \<Rightarrow> nat \<Rightarrow> nat \<Rightarrow> bytes option" where
  "memcpy m d s n = copy_up m d s n"

fun memset :: "bytes \<Rightarrow> int \<Rightarrow> nat \<Rightarrow> bytes option" where
  "memset m val 0 = Some m"
| "memset [] val (Suc n) = None"
| "memset (b # m) val (Suc n) = map_option ((#) (word_of_int val)) (memset m val n)"

fun strcpy :: "bytes \<Rightarrow> bytes \<Rightarrow> bytes option" where
  "strcpy (_ # d) (c # s) = (if c = 0 then Some (c # d) else map_option ((#) c) (strcpy d s))"
| "strcpy _ _ = None"

text \<open>The copy loop of \<open>strcat\<close> and the store of the final zero.\<close>

fun cat_copy :: "bytes \<Rightarrow> bytes \<Rightarrow> bytes option" where
  "cat_copy (e # d) (c # s) = (if c = 0 then Some (0 # d) else map_option ((#) c) (cat_copy d s))"
| "cat_copy _ _ = None"

fun strcat :: "bytes \<Rightarrow> bytes \<Rightarrow> bytes option" where
  "strcat [] src = None"
| "strcat (e # d) src = (if e \<noteq> 0 then map_option ((#) e) (strcat d src) else cat_copy (e # d) src)"

text \<open>\<open>n-- && *src\<close> does not read the source once \<open>n\<close> characters are copied.\<close>

fun ncat_copy :: "bytes \<Rightarrow> bytes \<Rightarrow> nat \<Rightarrow> bytes option" where
  "ncat_copy (e # d) s 0 = Some (0 # d)"
| "ncat_copy (e # d) (c # s) (Suc n) =
     (if c = 0 then Some (0 # d) else map_option ((#) c) (ncat_copy d s n))"
| "ncat_copy _ _ _ = None"

fun strncat :: "bytes \<Rightarrow> bytes \<Rightarrow> nat \<Rightarrow> bytes option" where
  "strncat [] src n = None"
| "strncat (e # d) src n =
     (if e \<noteq> 0 then map_option ((#) e) (strncat d src n) else ncat_copy (e # d) src n)"

text \<open>
  \<open>strtok\<close> keeps the rest of the string it splits in the static \<open>strtok_next\<close>: an offset into
  the buffer, or \<^const>\<open>None\<close> for the null pointer.  It cuts the buffer in place.
\<close>

record strtok_state =
  tok_buf :: bytes
  strtok_next :: "nat option"

fun skip_delims :: "bool \<Rightarrow> bytes \<Rightarrow> bytes \<Rightarrow> nat option" where
  "skip_delims want delim [] = None"
| "skip_delims want delim (c # s) = (if c = 0 then Some 0 else do {
     hit \<leftarrow> strchr delim c;
     if (hit \<noteq> None) = want then map_option Suc (skip_delims want delim s) else Some 0 })"

definition strtok :: "nat option \<Rightarrow> bytes \<Rightarrow> strtok_state \<Rightarrow> (nat option \<times> strtok_state) option" where
  "strtok str delim st =
     (let st = (if str \<noteq> None then st\<lparr>strtok_next := str\<rparr> else st) in
      case strtok_next st of
        None \<Rightarrow> Some (None, st)
      | Some p \<Rightarrow> do {
          c \<leftarrow> arr_get (tok_buf st) p;
          if c = 0 then Some (None, st) else do {
            k \<leftarrow> skip_delims True delim (drop p (tok_buf st));
            c \<leftarrow> arr_get (tok_buf st) (p + k);
            if c = 0 then Some (None, st\<lparr>strtok_next := Some (p + k)\<rparr>) else do {
              n \<leftarrow> skip_delims False delim (drop (p + k) (tok_buf st));
              c \<leftarrow> arr_get (tok_buf st) (p + k + n);
              if c \<noteq> 0 then do {
                b \<leftarrow> arr_set (tok_buf st) (p + k + n) 0;
                Some (Some (p + k), \<lparr>tok_buf = b, strtok_next = Some (p + k + n + 1)\<rparr>) }
              else Some (Some (p + k), st\<lparr>strtok_next := Some (p + k + n)\<rparr>) } } })"

text \<open>The xorshift generator: the new seed is the result.\<close>

definition rand :: "u32 \<Rightarrow> u32" where
  "rand s = (let s = s XOR push_bit 13 s; s = s XOR drop_bit 17 s in s XOR push_bit 5 s)"

section \<open>Strings in buffers\<close>

declare reverse_loop.simps [simp del] strncpy_copy.simps [simp del] strncpy_fill.simps [simp del]

text \<open>The string a buffer holds: the bytes before its first zero.\<close>

definition cstr :: "bytes \<Rightarrow> bytes" where
  "cstr s = takeWhile (\<lambda>c. c \<noteq> 0) s"

lemma str_Nil [simp]: "cstr [] = []"
  by (simp add: cstr_def)

lemma str_Cons [simp]: "cstr (c # s) = (if c = 0 then [] else c # cstr s)"
  by (simp add: cstr_def)

lemma str_terminated [simp]: "0 \<notin> set xs \<Longrightarrow> cstr (xs @ 0 # t) = xs"
  by (induction xs) auto

lemma zero_notin_str [simp]: "0 \<notin> set (cstr s)"
  by (induction s) auto

lemma str_unterminated: "0 \<notin> set s \<Longrightarrow> cstr s = s"
  by (induction s) auto

lemma str_split: "0 \<in> set s \<Longrightarrow> \<exists>t. s = cstr s @ 0 # t"
  by (induction s) auto

lemma strE:
  assumes "0 \<in> set s"
  obtains t where "s = cstr s @ 0 # t"
  using str_split [OF assms] by blast

lemma strlen_str [simp]: "0 \<in> set s \<Longrightarrow> strlen s = Some (length (cstr s))"
  by (induction s) auto

lemma strlen_terminated [simp]: "0 \<notin> set xs \<Longrightarrow> strlen (xs @ 0 # t) = Some (length xs)"
  by (induction xs) auto

lemma strlen_None_iff: "strlen s = None \<longleftrightarrow> 0 \<notin> set s"
  by (induction s) auto

lemma append_ch_terminated:
  assumes "0 \<notin> set xs" "t \<noteq> []"
  shows "append_ch (xs @ 0 # t) c = Some (xs @ c # 0 # tl t)"
proof -
  obtain y t' where "t = y # t'" using assms(2) by (cases t) auto
  with assms(1) show ?thesis
    by (simp add: append_ch_def arr_set_def list_update_append split: nat.splits)
qed

lemma reverse_loop_mid:
  "reverse_loop (pre @ xs @ post) (int (length pre)) (int (length pre + length xs) - 1)
    = Some (pre @ rev xs @ post)"
proof (induction "length xs" arbitrary: pre xs post rule: less_induct)
  case less
  show ?case
  proof (cases "length xs \<le> 1")
    case True
    then have "rev xs = xs" by (cases xs) auto
    with True show ?thesis by (subst reverse_loop.simps) auto
  next
    case False
    then obtain a ys b where xs: "xs = a # ys @ [b]"
      by (metis One_nat_def append_butlast_last_id le_simps(1) length_0_conv length_Cons list.exhaust
          list.size(3) not_less_eq zero_less_one le_refl)
    have "reverse_loop (pre @ xs @ post) (int (length pre)) (int (length pre + length xs) - 1)
      = reverse_loop ((pre @ [b]) @ ys @ (a # post)) (int (length (pre @ [b])))
          (int (length (pre @ [b]) + length ys) - 1)"
      by (subst reverse_loop.simps)
        (simp add: xs nat_add_distrib nth_append list_update_append arr_get_def arr_set_def
          add.commute)
    also have "\<dots> = Some ((pre @ [b]) @ rev ys @ (a # post))"
      by (rule less.hyps) (simp add: xs)
    finally show ?thesis by (simp add: xs)
  qed
qed

lemma reverse_terminated:
  "0 \<notin> set xs \<Longrightarrow> reverse (xs @ 0 # t) = Some (rev xs @ 0 # t)"
  using reverse_loop_mid [of "[]" xs "0 # t"] by (simp add: reverse_def)

section \<open>Moving memory\<close>

lemma copy_up_nth:
  assumes "d + n \<le> length m" "s + n \<le> length m" "d \<le> s \<or> s + n \<le> d"
  shows "\<exists>m'. copy_up m d s n = Some m' \<and> length m' = length m
    \<and> (\<forall>i < length m. m' ! i = (if d \<le> i \<and> i < d + n then m ! (s + i - d) else m ! i))"
  using assms
proof (induction n arbitrary: m d s)
  case 0
  then show ?case by auto
next
  case (Suc n)
  let ?m = "m[d := m ! s]"
  obtain m' where m': "copy_up ?m (d + 1) (s + 1) n = Some m'" "length m' = length m"
    "\<forall>i < length m. m' ! i = (if d + 1 \<le> i \<and> i < d + 1 + n then ?m ! (s + 1 + i - (d + 1)) else ?m ! i)"
    using Suc.IH [of "d + 1" ?m "s + 1"] Suc.prems by auto
  have "m' ! i = (if d \<le> i \<and> i < d + Suc n then m ! (s + i - d) else m ! i)"
    if "i < length m" for i
    using m'(3) that Suc.prems by (cases "i = d") (auto simp: nth_list_update)
  with m' Suc.prems show ?case by (auto simp: copy_byte_def)
qed

lemma copy_down_nth:
  assumes "d + n \<le> length m" "s + n \<le> length m" "s \<le> d"
  shows "\<exists>m'. copy_down m d s n = Some m' \<and> length m' = length m
    \<and> (\<forall>i < length m. m' ! i = (if d \<le> i \<and> i < d + n then m ! (s + i - d) else m ! i))"
  using assms
proof (induction n arbitrary: m)
  case 0
  then show ?case by auto
next
  case (Suc n)
  let ?m = "m[d + n := m ! (s + n)]"
  obtain m' where m': "copy_down ?m d s n = Some m'" "length m' = length m"
    "\<forall>i < length m. m' ! i = (if d \<le> i \<and> i < d + n then ?m ! (s + i - d) else ?m ! i)"
    using Suc.IH [of ?m] Suc.prems by auto
  have "m' ! i = (if d \<le> i \<and> i < d + Suc n then m ! (s + i - d) else m ! i)"
    if "i < length m" for i
    using m'(3) that Suc.prems by (cases "i = d + n") (auto simp: nth_list_update)
  with m' Suc.prems show ?case by (auto simp: copy_byte_def)
qed

text \<open>The result of a move as a list: the source block as it was, in the place of the destination.\<close>

lemma moved_block:
  assumes "length m' = length m" "d + n \<le> length m" "s + n \<le> length m"
    "\<forall>i < length m. m' ! i = (if d \<le> i \<and> i < d + n then m ! (s + i - d) else m ! i)"
  shows "m' = take d m @ take n (drop s m) @ drop (d + n) m"
proof (rule nth_equalityI)
  fix i
  assume "i < length m'"
  moreover have "min n (length m - s) = n" using assms(3) by simp
  ultimately show "m' ! i = (take d m @ take n (drop s m) @ drop (d + n) m) ! i"
    using assms by (auto simp: nth_append)
qed (use assms in simp)

lemma memcpy_block:
  assumes "d + n \<le> length m" "s + n \<le> length m" "d \<le> s \<or> s + n \<le> d"
  shows "memcpy m d s n = Some (take d m @ take n (drop s m) @ drop (d + n) m)"
proof -
  obtain m' where "copy_up m d s n = Some m'" "length m' = length m"
    "\<forall>i < length m. m' ! i = (if d \<le> i \<and> i < d + n then m ! (s + i - d) else m ! i)"
    using copy_up_nth [OF assms] by blast
  with assms show ?thesis unfolding memcpy_def by (simp add: moved_block)
qed

text \<open>
  C15: \<open>memmove\<close> moves a block within an object correctly however source and destination overlap:
  the destination receives the bytes the source had before the call, everything else is kept and
  nothing outside the object is touched.  \<open>memcpy\<close> does the same when the destination does not
  begin inside the source block.
\<close>

theorem memmove_block:
  assumes "d + n \<le> length m" "s + n \<le> length m"
  shows "memmove m d s n = Some (take d m @ take n (drop s m) @ drop (d + n) m)
    \<and> (d \<le> s \<or> s + n \<le> d \<longrightarrow> memcpy m d s n = memmove m d s n)"
proof -
  consider "d < s" | "s < d" | "s = d" by linarith
  then have "memmove m d s n = Some (take d m @ take n (drop s m) @ drop (d + n) m)"
  proof cases
    case 1
    then show ?thesis using memcpy_block [of d n m s] assms by (simp add: memmove_def memcpy_def)
  next
    case 2
    obtain m' where "copy_down m d s n = Some m'" "length m' = length m"
      "\<forall>i < length m. m' ! i = (if d \<le> i \<and> i < d + n then m ! (s + i - d) else m ! i)"
      using copy_down_nth [OF assms less_imp_le [OF 2]] by blast
    with 2 assms show ?thesis unfolding memmove_def by (simp add: moved_block)
  next
    case 3
    then show ?thesis
      by (simp add: memmove_def) (metis add.commute append_take_drop_id drop_drop)
  qed
  with memcpy_block [of d n m s] assms show ?thesis by simp
qed

theorem memmove_block_witness:
  "memmove [1, 2, 3, 4, 5] 1 0 3 = Some [1, 1, 2, 3, 5]
    \<and> memmove [1, 2, 3, 4, 5] 0 1 3 = Some [2, 3, 4, 4, 5]"
  using memmove_block [of 1 3 "[1, 2, 3, 4, 5]" 0] memmove_block [of 0 3 "[1, 2, 3, 4, 5]" 1]
  by (simp add: eval_nat_numeral)

section \<open>Copying strings\<close>

lemma strcpy_str:
  assumes "0 \<in> set s" "length (cstr s) < length d"
  shows "strcpy d s = Some (cstr s @ 0 # drop (Suc (length (cstr s))) d)"
  using assms by (induction d s rule: strcpy.induct) (auto split: if_splits)

lemma cat_copy_str:
  assumes "0 \<in> set s" "length (cstr s) < length d"
  shows "cat_copy d s = Some (cstr s @ 0 # drop (Suc (length (cstr s))) d)"
  using assms by (induction d s rule: cat_copy.induct) (auto split: if_splits)

lemma strcat_str:
  assumes "0 \<in> set s" "0 \<in> set d" "length (cstr d) + length (cstr s) < length d"
  shows "strcat d s = Some (cstr d @ cstr s @ 0 # drop (Suc (length (cstr d) + length (cstr s))) d)"
  using assms(2,3)
proof (induction d)
  case (Cons e d)
  then show ?case
    using cat_copy_str [OF assms(1), of "e # d"] by auto
qed simp

lemma strncpy_copy_str:
  assumes "0 \<in> set src \<or> n \<le> length src" "n \<le> length d" "i \<le> min n (length (cstr src))"
  shows "strncpy_copy (take i (cstr src) @ drop i d) src n i
    = (let k = min n (length (cstr src)) in Some (take k (cstr src) @ drop k d, k))"
  using assms(3)
proof (induction "min n (length (cstr src)) - i" arbitrary: i)
  case 0
  then have i: "i = min n (length (cstr src))" by simp
  show ?case
  proof (cases "i < n")
    case True
    with i assms(1) have "0 \<in> set src" "i = length (cstr src)"
      by (cases "0 \<in> set src"; auto simp: min_def str_unterminated split: if_splits)+
    moreover then obtain t where "src = cstr src @ 0 # t" by (auto elim: strE)
    then have "arr_get src (length (cstr src)) = Some 0" by (metis arr_get_append_length)
    ultimately show ?thesis using True by (subst strncpy_copy.simps) (simp add: min_def Let_def)
  next
    case False
    with i show ?thesis by (subst strncpy_copy.simps) (simp add: Let_def min_def)
  qed
next
  case (Suc x)
  then have i: "i < n" "i < length (cstr src)" by auto
  then have nth: "i < length src" "src ! i = cstr src ! i" "src ! i \<noteq> 0"
    using length_takeWhile_le [of "\<lambda>c. c \<noteq> 0" src] nth_mem [of i "cstr src"]
    by (auto simp: cstr_def takeWhile_nth dest: set_takeWhileD)
  have "(take i (cstr src) @ drop i d)[i := src ! i] = take (Suc i) (cstr src) @ drop (Suc i) d"
    using i assms(2) nth(2)
    by (simp add: list_update_append take_Suc_conv_app_nth Cons_nth_drop_Suc [symmetric, of i d])
  then have "strncpy_copy (take i (cstr src) @ drop i d) src n i
    = strncpy_copy (take (Suc i) (cstr src) @ drop (Suc i) d) src n (Suc i)"
    using i nth assms(2) by (subst strncpy_copy.simps) (simp add: arr_set_def)
  with Suc.hyps(1) [of "Suc i"] Suc.hyps(2) i show ?case by simp
qed

lemma strncpy_fill_from:
  "i \<le> n \<Longrightarrow> n \<le> length d \<Longrightarrow> strncpy_fill d n i = Some (take i d @ replicate (n - i) 0 @ drop n d)"
proof (induction "n - i" arbitrary: i d)
  case 0
  then show ?case by (subst strncpy_fill.simps) simp
next
  case (Suc x)
  then have i: "i < n" by simp
  with Suc.prems have "strncpy_fill d n i = strncpy_fill (d[i := 0]) n (Suc i)"
    by (subst strncpy_fill.simps) simp
  also have "\<dots> = Some (take (Suc i) (d[i := 0]) @ replicate (n - Suc i) 0 @ drop n (d[i := 0]))"
    using Suc by (intro Suc.hyps) auto
  also have "\<dots> = Some (take i d @ replicate (n - i) 0 @ drop n d)"
    using Suc.hyps(2) Suc.prems
    by (simp add: take_Suc_conv_app_nth Suc_diff_Suc [symmetric] del: Suc_diff_Suc)
  finally show ?case .
qed

text \<open>
  \<open>strncpy\<close> writes exactly \<open>n\<close> bytes: the string, cut to \<open>n\<close> characters, and zeroes.  There is no
  final zero when the string does not fit.
\<close>

lemma strncpy_str:
  assumes "0 \<in> set src \<or> nat n \<le> length src" "nat n \<le> length d"
  shows "strncpy d src n
    = Some (take (nat n) (cstr src) @ replicate (nat n - length (cstr src)) 0 @ drop (nat n) d)"
proof -
  let ?k = "min (nat n) (length (cstr src))"
  have "strncpy_copy d src (nat n) 0 = Some (take ?k (cstr src) @ drop ?k d, ?k)"
    using strncpy_copy_str [OF assms, of 0] by (simp add: Let_def)
  moreover have "strncpy_fill (take ?k (cstr src) @ drop ?k d) (nat n) ?k
    = Some (take ?k (cstr src) @ replicate (nat n - ?k) 0 @ drop (nat n) d)"
    using assms(2) by (subst strncpy_fill_from) (auto simp: min_def)
  ultimately show ?thesis by (auto simp: strncpy_def min_def)
qed

text \<open>
  C23: building a string with \<open>strcpy\<close> and \<open>strcat\<close>.  When the destination has room for
  the result and its zero, copying \<open>a\<close> and appending \<open>b\<close> leaves the concatenation of the two
  strings, terminated, at the front of the buffer, and the bytes behind the terminator as they were.
\<close>

theorem strcpy_strcat:
  assumes "0 \<in> set a" "0 \<in> set b" "length (cstr a) + length (cstr b) < length d"
  shows "do { d \<leftarrow> strcpy d a; strcat d b }
    = Some (cstr a @ cstr b @ 0 # drop (Suc (length (cstr a) + length (cstr b))) d)"
proof -
  let ?d = "cstr a @ 0 # drop (Suc (length (cstr a))) d"
  have "strcpy d a = Some ?d" using assms by (intro strcpy_str) auto
  moreover have "strcat ?d b
    = Some (cstr ?d @ cstr b @ 0 # drop (Suc (length (cstr ?d) + length (cstr b))) ?d)"
    using assms by (intro strcat_str) auto
  ultimately show ?thesis by (simp add: add.commute)
qed

theorem strcpy_strcat_witness:
  "do { d \<leftarrow> strcpy [9, 9, 9, 9, 9, 9] [1, 2, 0, 7]; strcat d [3, 0] } = Some [1, 2, 3, 0, 9, 9]"
  using strcpy_strcat [of "[1, 2, 0, 7]" "[3, 0]" "[9, 9, 9, 9, 9, 9]"] by simp

section \<open>Comparing and searching strings\<close>

text \<open>
  C22: \<open>strcmp\<close> of two strings is 0 exactly when they are equal, and its sign is the lexicographic
  order of the strings with their terminators, characters taken as signed.
\<close>

theorem strcmp_order:
  assumes "0 \<in> set s1" "0 \<in> set s2"
  shows "\<exists>r. strcmp s1 s2 = Some r \<and> (r = 0 \<longleftrightarrow> cstr s1 = cstr s2)
    \<and> (r < 0 \<longleftrightarrow> (cstr s1 @ [0], cstr s2 @ [0]) \<in> lexord {(c, d). sint c < sint d})"
  using assms
proof (induction s1 s2 rule: strcmp.induct)
  case (1 c s1 d s2)
  from 1 show ?case
    by (cases "c = d"; cases "c = 0"; cases "d = 0") (auto simp: sint_eq_iff sint_0_iff)
qed simp_all

theorem strcmp_order_witness:
  "strcmp [104, 105, 0] [104, 105, 0, 7] = Some 0 \<and> strcmp [104, 0] [104, 105, 0] = Some (-105)"
  using strcmp_order [of "[104, 105, 0]" "[104, 105, 0, 7]"] strcmp_order [of "[104, 0]" "[104, 105, 0]"]
  by simp

lemma strstr_match_prefix:
  assumes "0 \<in> set h" "0 \<in> set n"
  shows "strstr_match h n = Some (prefix (cstr n) (cstr h))"
  using assms by (induction h n rule: strstr_match.induct) auto

lemma strstr_loop_first:
  assumes "0 \<in> set h" "0 \<in> set n" "cstr n \<noteq> []"
  shows "strstr_loop h n
    = Some (first_index (\<lambda>k. prefix (cstr n) (drop k (cstr h))) [0..<length (cstr h)])"
  using assms(1)
proof (induction h)
  case (Cons c h)
  have "first_index (\<lambda>k. prefix (cstr n) (drop k (c # cstr h))) [Suc 0..<Suc (length (cstr h))]
    = first_index (\<lambda>k. prefix (cstr n) (drop k (cstr h))) [0..<length (cstr h)]"
    unfolding map_Suc_upt [symmetric] first_index_map by (simp add: comp_def)
  then show ?case
    using Cons strstr_match_prefix [OF Cons.prems assms(2)] by (auto simp: upt_rec [of 0])
qed simp

text \<open>
  C21: \<open>strstr\<close> finds the first occurrence of the needle: its result is the least offset at which
  the needle's string is a prefix of what is left of the haystack's string, and the null pointer
  exactly when there is none.
\<close>

theorem strstr_first:
  assumes "0 \<in> set h" "0 \<in> set n"
  shows "\<exists>r. strstr h n = Some r
    \<and> (case r of
         None \<Rightarrow> \<not> sublist (cstr n) (cstr h)
       | Some k \<Rightarrow> prefix (cstr n) (drop k (cstr h)) \<and> (\<forall>j<k. \<not> prefix (cstr n) (drop j (cstr h))))"
proof (cases "cstr n = []")
  case True
  with assms(2) show ?thesis by (cases n) (auto simp: strstr_def split: if_splits)
next
  case False
  with assms(2) obtain c n' where n: "n = c # n'" "c \<noteq> 0" by (cases n) (auto split: if_splits)
  let ?r = "first_index (\<lambda>k. prefix (cstr n) (drop k (cstr h))) [0..<length (cstr h)]"
  have "strstr h n = Some ?r"
    using strstr_loop_first [OF assms False] n by (simp add: strstr_def)
  moreover have "\<not> sublist (cstr n) (cstr h)" if "?r = None"
  proof
    assume "sublist (cstr n) (cstr h)"
    then obtain ps ss where h: "cstr h = ps @ cstr n @ ss" by (auto simp: sublist_def)
    then have "length ps < length (cstr h)" using False by simp
    moreover have "prefix (cstr n) (drop (length ps) (cstr h))" by (simp add: h)
    ultimately show False using that by (auto simp: first_index_None_iff)
  qed
  ultimately show ?thesis
    by (auto dest!: first_index_SomeD split: option.splits)
qed

theorem strstr_first_witness:
  "strstr [97, 98, 97, 99, 0] [97, 99, 0] = Some (Some 2) \<and> strstr [97, 98, 0] [99, 0] = Some None
    \<and> prefix (cstr [97, 99, 0]) (drop 2 (cstr [97, 98, 97, 99, 0]))"
  using strstr_first [of "[97, 98, 97, 99, 0]" "[97, 99, 0]"] strstr_first [of "[97, 98, 0]" "[99, 0]"]
  by (simp add: strstr_def)

section \<open>Splitting a string into tokens\<close>

text \<open>The tokens of a string: its maximal non-empty runs of characters that are no delimiters.\<close>

function tokens :: "u8 set \<Rightarrow> bytes \<Rightarrow> bytes list" where
  "tokens D s = (let r = dropWhile (\<lambda>c. c \<in> D) s in
     if r = [] then [] else takeWhile (\<lambda>c. c \<notin> D) r # tokens D (dropWhile (\<lambda>c. c \<notin> D) r))"
  by auto
termination
proof (relation "measure (\<lambda>(D, s). length s)", goal_cases)
  case (2 D s r)
  then obtain c t where "r = c # t" "c \<notin> D"
    using hd_dropWhile [of "\<lambda>c. c \<in> D" s] by (cases r) force+
  moreover have "length r \<le> length s" using 2(1) by (simp add: length_dropWhile_le)
  moreover have "length (dropWhile (\<lambda>c. c \<notin> D) t) \<le> length t" by (rule length_dropWhile_le)
  ultimately show ?case by simp
qed simp

declare tokens.simps [simp del]

lemma tokens_delim: "c \<in> D \<Longrightarrow> tokens D (c # s) = tokens D s"
  by (simp add: tokens.simps [of D "c # s"] tokens.simps [of D s])

text \<open>The loop every caller of \<open>strtok\<close> runs, with at most \<open>n\<close> calls.\<close>

fun strtok_iter :: "nat \<Rightarrow> bytes \<Rightarrow> strtok_state \<Rightarrow> (nat list \<times> strtok_state) option" where
  "strtok_iter 0 delim st = None"
| "strtok_iter (Suc n) delim st = do {
     (r, st) \<leftarrow> strtok None delim st;
     case r of
       None \<Rightarrow> Some ([], st)
     | Some q \<Rightarrow> do { (qs, st) \<leftarrow> strtok_iter n delim st; Some (q # qs, st) } }"

lemma strchr_hit:
  "0 \<in> set s \<Longrightarrow> c \<noteq> 0 \<Longrightarrow> \<exists>h. strchr s c = Some h \<and> (h \<noteq> None) = (c \<in> set (cstr s))"
  by (induction s) auto

lemma skip_delims_takeWhile:
  assumes "0 \<in> set delim" "0 \<notin> set r"
  shows "skip_delims want delim (r @ 0 # t)
    = Some (length (takeWhile (\<lambda>c. (c \<in> set (cstr delim)) = want) r))"
  using assms(2)
proof (induction r)
  case (Cons c r)
  then obtain h where "strchr delim c = Some h" "(h \<noteq> None) = (c \<in> set (cstr delim))"
    using strchr_hit [OF assms(1), of c] by auto
  with Cons show ?case by auto
qed simp

lemma strtok_none:
  assumes "0 \<in> set delim" "0 \<notin> set r" "\<forall>c \<in> set r. c \<in> set (cstr delim)"
  shows "\<exists>p. strtok None delim \<lparr>tok_buf = a @ r @ 0 # t, strtok_next = Some (length a)\<rparr>
    = Some (None, \<lparr>tok_buf = a @ r @ 0 # t, strtok_next = Some p\<rparr>)"
proof (cases r)
  case (Cons c r')
  moreover have "skip_delims True delim (r @ 0 # t) = Some (length r)"
    using skip_delims_takeWhile [OF assms(1,2), of True t] assms(3) by (simp add: takeWhile_eq_all_conv [THEN iffD2])
  ultimately show ?thesis using assms(2)
    by (simp add: strtok_def arr_get_def nth_append)
qed (simp add: strtok_def)

lemma strtok_token:
  assumes "0 \<in> set delim" "0 \<notin> set (pre @ tok @ rest)" "tok \<noteq> []"
    "\<forall>c \<in> set pre. c \<in> set (cstr delim)" "\<forall>c \<in> set tok. c \<notin> set (cstr delim)"
    "rest = [] \<or> hd rest \<in> set (cstr delim)"
  shows "strtok None delim \<lparr>tok_buf = a @ pre @ tok @ rest @ 0 # t, strtok_next = Some (length a)\<rparr>
    = Some (Some (length (a @ pre)),
        \<lparr>tok_buf = a @ pre @ tok @ 0 # drop 1 rest @ (if rest = [] then t else 0 # t),
         strtok_next = Some (length (a @ pre @ tok) + (if rest = [] then 0 else 1))\<rparr>)"
proof -
  let ?D = "set (cstr delim)"
  obtain x xs where ne: "tok = x # xs" "x \<notin> ?D" "x \<noteq> 0" using assms(2,3,5) by (cases tok) auto
  have "takeWhile (\<lambda>c. (c \<in> ?D) = True) (pre @ tok @ rest) = pre"
    using assms(4) ne by simp
  then have k: "skip_delims True delim (pre @ tok @ rest @ 0 # t) = Some (length pre)"
    using skip_delims_takeWhile [OF assms(1,2), of True t] by simp
  have "takeWhile (\<lambda>c. (c \<in> ?D) = False) (tok @ rest) = tok"
    using assms(5,6) by (cases rest) auto
  then have n: "skip_delims False delim (tok @ rest @ 0 # t) = Some (length tok)"
    using skip_delims_takeWhile [OF assms(1), of "tok @ rest" False t] assms(2) by simp
  have first: "(pre @ tok @ rest @ 0 # t) ! 0 \<noteq> 0"
    using assms(2) ne by (cases pre) auto
  show ?thesis
    using k n first assms(2) ne
    by (cases rest) (simp_all add: strtok_def arr_get_def arr_set_def nth_append list_update_append add.assoc)
qed

text \<open>
  Running the loop over a buffer whose unread part holds the string \<open>r\<close>: the results point to the
  tokens of \<open>r\<close> in order, the part in front stays untouched.
\<close>

lemma strtok_iter_tokens:
  assumes "0 \<in> set delim" "0 \<notin> set r" "length (tokens (set (cstr delim)) r) < n"
  shows "\<exists>qs st y. strtok_iter n delim \<lparr>tok_buf = a @ r @ 0 # t, strtok_next = Some (length a)\<rparr> = Some (qs, st)
    \<and> map (\<lambda>q. cstr (drop q (tok_buf st))) qs = tokens (set (cstr delim)) r
    \<and> tok_buf st = a @ y \<and> (r = [] \<longrightarrow> y = 0 # t) \<and> (\<forall>q \<in> set qs. length a \<le> q)"
  using assms(2,3)
proof (induction n arbitrary: a r t)
  case (Suc n)
  let ?D = "set (cstr delim)"
  define pre s where "pre = takeWhile (\<lambda>c. c \<in> ?D) r" and "s = dropWhile (\<lambda>c. c \<in> ?D) r"
  have r: "r = pre @ s" and pre: "\<forall>c \<in> set pre. c \<in> ?D"
    by (auto simp: pre_def s_def dest: set_takeWhileD)
  show ?case
  proof (cases "s = []")
    case True
    with r pre have "\<forall>c \<in> set r. c \<in> ?D" by simp
    from strtok_none [OF assms(1) Suc.prems(1) this, of a t] show ?thesis
      using True by (auto simp: tokens.simps [of ?D r] s_def)
  next
    case False
    define tok rest where "tok = takeWhile (\<lambda>c. c \<notin> ?D) s" and "rest = dropWhile (\<lambda>c. c \<notin> ?D) s"
    have s: "s = tok @ rest" and tok: "\<forall>c \<in> set tok. c \<notin> ?D"
      by (auto simp: tok_def rest_def dest: set_takeWhileD)
    have rest: "rest = [] \<or> hd rest \<in> ?D" using hd_dropWhile [of "\<lambda>c. c \<notin> ?D" s] by (auto simp: rest_def)
    have "hd s \<notin> ?D" using hd_dropWhile [of "\<lambda>c. c \<in> ?D" r] False by (simp add: s_def)
    with False have ne: "tok \<noteq> []" by (cases s) (auto simp: tok_def)
    have toks: "tokens ?D r = tok # tokens ?D (drop 1 rest)"
      using False rest by (simp add: tokens.simps [of ?D r] s_def [symmetric] tok_def [symmetric] rest_def [symmetric])
        (cases rest; simp add: tokens_delim)
    let ?a = "a @ pre @ tok @ (if rest = [] then [] else [0])"
    have step: "strtok None delim \<lparr>tok_buf = a @ r @ 0 # t, strtok_next = Some (length a)\<rparr>
      = Some (Some (length (a @ pre)), \<lparr>tok_buf = ?a @ drop 1 rest @ 0 # t, strtok_next = Some (length ?a)\<rparr>)"
      using strtok_token [OF assms(1) _ ne pre tok rest, of a t] Suc.prems(1) by (simp add: r s)
    have "0 \<notin> set (drop 1 rest)" "length (tokens ?D (drop 1 rest)) < n"
      using Suc.prems toks by (auto simp: r s dest: in_set_dropD)
    from Suc.IH [OF this, of ?a t] obtain qs st y where iter: "strtok_iter n delim
        \<lparr>tok_buf = ?a @ drop 1 rest @ 0 # t, strtok_next = Some (length ?a)\<rparr> = Some (qs, st)"
      "map (\<lambda>q. cstr (drop q (tok_buf st))) qs = tokens ?D (drop 1 rest)"
      "tok_buf st = ?a @ y" "drop 1 rest = [] \<longrightarrow> y = 0 # t" "\<forall>q \<in> set qs. length ?a \<le> q"
      by blast
    have "cstr (drop (length (a @ pre)) (tok_buf st)) = tok"
      using iter(3,4) Suc.prems(1) by (cases "rest = []") (simp_all add: r s)
    with step iter toks show ?thesis
      by (auto simp: r s ne intro!: exI [of _ "pre @ tok @ (if rest = [] then [] else [0]) @ y"])
  qed
qed simp

text \<open>
  C17: splitting a string with \<open>strtok\<close>.  The first call on the string and the calls with the null
  pointer that follow it return, in order, pointers to the tokens of the string (its maximal runs
  of characters that are no delimiters) and then the null pointer; when the loop is over each
  pointer still points to its token, terminated in place.
\<close>

theorem strtok_tokens:
  assumes "0 \<in> set delim" "0 \<in> set s" "length (tokens (set (cstr delim)) (cstr s)) < n"
  shows "\<exists>qs st. strtok_iter n delim \<lparr>tok_buf = s, strtok_next = Some 0\<rparr> = Some (qs, st)
    \<and> map (\<lambda>q. cstr (drop q (tok_buf st))) qs = tokens (set (cstr delim)) (cstr s)
    \<and> strtok (Some 0) delim \<lparr>tok_buf = s, strtok_next = p\<rparr> = strtok None delim \<lparr>tok_buf = s, strtok_next = Some 0\<rparr>"
proof -
  obtain t where s: "s = [] @ cstr s @ 0 # t" using assms(2) by (auto elim: strE)
  have "\<exists>qs st y. strtok_iter n delim \<lparr>tok_buf = [] @ cstr s @ 0 # t, strtok_next = Some (length ([]::bytes))\<rparr> = Some (qs, st)
    \<and> map (\<lambda>q. cstr (drop q (tok_buf st))) qs = tokens (set (cstr delim)) (cstr s)
    \<and> tok_buf st = [] @ y \<and> (cstr s = [] \<longrightarrow> y = 0 # t) \<and> (\<forall>q \<in> set qs. length ([]::bytes) \<le> q)"
    by (rule strtok_iter_tokens [OF assms(1) zero_notin_str assms(3)])
  then show ?thesis unfolding s [symmetric] by (auto simp: strtok_def)
qed

theorem strtok_tokens_witness:
  "\<exists>qs st. strtok_iter 3 [47, 0] \<lparr>tok_buf = [47, 97, 98, 47, 47, 99, 0], strtok_next = Some 0\<rparr> = Some (qs, st)
    \<and> map (\<lambda>q. cstr (drop q (tok_buf st))) qs = [[97, 98], [99]]"
  using strtok_tokens [of "[47, 0]" "[47, 97, 98, 47, 47, 99, 0]" 3 None] by (auto simp: tokens.simps)

section \<open>The random number generator\<close>

lemma xor_push_bit_inj:
  fixes x y :: "'a::len word"
  assumes "x XOR push_bit k x = y XOR push_bit k y" "0 < k"
  shows "x = y"
proof (rule bit_word_eqI)
  fix n
  assume "n < LENGTH('a)"
  then show "bit x n \<longleftrightarrow> bit y n"
  proof (induction n rule: less_induct)
    case (less n)
    have "bit (x XOR push_bit k x) n = bit (y XOR push_bit k y) n" by (simp add: assms(1))
    moreover have "k \<le> n \<Longrightarrow> bit x (n - k) = bit y (n - k)" using less assms(2) by simp
    ultimately show ?case using less.prems by (auto simp: bit_simps)
  qed
qed

lemma xor_drop_bit_inj:
  fixes x y :: "'a::len word"
  assumes "x XOR drop_bit k x = y XOR drop_bit k y" "0 < k"
  shows "x = y"
proof (rule bit_word_eqI)
  fix n
  assume "n < LENGTH('a)"
  then show "bit x n \<longleftrightarrow> bit y n"
  proof (induction "LENGTH('a) - n" arbitrary: n rule: less_induct)
    case less
    have "bit (x XOR drop_bit k x) n = bit (y XOR drop_bit k y) n" by (simp add: assms(1))
    moreover have "bit x (k + n) = bit y (k + n)"
      using less.hyps [of "k + n"] less.prems assms(2) bit_imp_le_length [of x "k + n"] bit_imp_le_length [of y "k + n"]
      by (cases "k + n < LENGTH('a)") auto
    ultimately show ?case by (auto simp: bit_simps)
  qed
qed

text \<open>
  C24: the generator is a permutation of its 32-bit states that leaves only 0 in place of 0: from the
  non-zero seed it starts with it never gets stuck at 0, and no two seeds meet.
\<close>

theorem rand_permutation: "bij rand \<and> (\<forall>s. rand s = 0 \<longleftrightarrow> s = 0)"
proof -
  have inj: "inj rand"
    unfolding rand_def Let_def
    by (rule injI) (drule xor_push_bit_inj xor_drop_bit_inj, simp)+
  then have "bij rand" by (simp add: bij_def finite_UNIV_inj_surj)
  moreover have "rand 0 = 0" by (simp add: rand_def)
  ultimately show ?thesis using inj by (metis injD)
qed

end
