(* ===== verification/Libc_Format.thy ===== *)
theory Libc_Format
  imports Libc_String
begin

text \<open>
  The conversions between numbers and strings of \<^verbatim>\<open>libc/string.c\<close>: \<open>int_to_ascii\<close>, \<open>itoa\<close>,
  \<open>hex_to_ascii\<close>, \<open>atoi\<close>, \<open>strtol\<close>, \<open>strtoul\<close>, \<open>parse_color_args\<close> and \<open>snprintf\<close>.

  \<open>int\<close> and \<open>long\<close> are 32 bits wide, an overflow of either is \<^const>\<open>None\<close>; \<open>unsigned long\<close> is a
  32-bit word that wraps.  An end pointer is the suffix it points to.  A variable argument list is
  the list of its values; fetching an argument of the wrong type, or one too many, is \<^const>\<open>None\<close>.
\<close>

section \<open>Model\<close>

subsection \<open>Numbers to strings\<close>

function ita_digits :: "int \<Rightarrow> bytes \<Rightarrow> nat \<Rightarrow> (bytes \<times> nat) option" where
  "ita_digits n str i = do {
     str \<leftarrow> arr_set str i (word_of_int (c_mod n 10 + sint (ch CHR ''0'')));
     if 0 < c_div n 10 then ita_digits (c_div n 10) str (i + 1) else Some (str, i + 1) }"
  by auto
termination
  by (relation "measure (\<lambda>(n, str, i). nat n)")
    (auto simp: c_div_def sgn_if split: if_splits)

definition int_to_ascii :: "int \<Rightarrow> bytes \<Rightarrow> bytes option" where
  "int_to_ascii n str = do {
     m \<leftarrow> (if n < 0 then c_int (- n) else Some n);
     (str, i) \<leftarrow> ita_digits m str 0;
     (str, i) \<leftarrow> (if n < 0 then map_option (\<lambda>s. (s, i + 1)) (arr_set str i (ch CHR ''-''))
                  else Some (str, i));
     str \<leftarrow> arr_set str i 0;
     reverse str }"

fun hex_loop :: "u32 \<Rightarrow> nat list \<Rightarrow> bool \<Rightarrow> bytes \<Rightarrow> (bool \<times> bytes) option" where
  "hex_loop n [] started str = Some (started, str)"
| "hex_loop n (shift # shifts) started str =
     (let nibble = drop_bit shift n AND 0xF in
      if \<not> started \<and> nibble = 0 \<and> shift \<noteq> 0 then hex_loop n shifts started str
      else do {
        str \<leftarrow> append_ch str (if 0xA \<le> nibble then ucast (nibble - 0xA) + ch CHR ''a''
                              else ucast nibble + ch CHR ''0'');
        hex_loop n shifts True str })"

definition hex_to_ascii :: "u32 \<Rightarrow> bytes \<Rightarrow> bytes option" where
  "hex_to_ascii n str = do {
     str \<leftarrow> append_ch str (ch CHR ''0'');
     str \<leftarrow> append_ch str (ch CHR ''x'');
     (started, str) \<leftarrow> hex_loop n (rev (map (\<lambda>k. 4 * k) [0..<8])) False str;
     if \<not> started then append_ch str (ch CHR ''0'') else Some str }"

definition digit_table :: bytes where
  "digit_table = map of_char ''0123456789abcdefghijklmnopqrstuvwxyz'' @ [0]"

text \<open>
  The digit loop of \<open>itoa\<close>; its caller has checked that the base is at least 2.  A negative value
  in a base other than 10 gives a negative index into the digit table.
\<close>

function itoa_digits :: "int \<Rightarrow> int \<Rightarrow> bytes \<Rightarrow> nat \<Rightarrow> (bytes \<times> nat) option" where
  "itoa_digits v base str p = (if base < 2 then None else do {
     c \<leftarrow> (if c_mod v base < 0 then None else arr_get digit_table (nat (c_mod v base)));
     str \<leftarrow> arr_set str p c;
     if c_div v base \<noteq> 0 then itoa_digits (c_div v base) base str (p + 1) else Some (str, p + 1) })"
  by auto
termination
proof (relation "measure (\<lambda>(v, base, str, p). nat \<bar>v\<bar>)", goal_cases)
  case (2 v base str p c str')
  then have "v \<noteq> 0" "2 \<le> base" by (auto simp: c_div_def)
  then have "\<bar>v\<bar> div \<bar>base\<bar> < \<bar>v\<bar>" by (intro int_div_less_self) auto
  moreover have "\<bar>c_div v base\<bar> = \<bar>v\<bar> div \<bar>base\<bar>"
    using \<open>v \<noteq> 0\<close> \<open>2 \<le> base\<close> by (simp add: c_div_def abs_mult abs_sgn_eq pos_imp_zdiv_nonneg_iff)
  ultimately show ?case by simp
qed simp

definition itoa :: "int \<Rightarrow> bytes \<Rightarrow> int \<Rightarrow> bytes option" where
  "itoa value str base =
     (if base < 2 \<or> 36 < base then arr_set str 0 0
      else do {
        v \<leftarrow> (if value < 0 \<and> base = 10 then c_int (- value) else Some value);
        (str, p) \<leftarrow> itoa_digits v base str 0;
        (str, p) \<leftarrow> (if value < 0 \<and> base = 10
           then map_option (\<lambda>s. (s, p + 1)) (arr_set str p (ch CHR ''-'')) else Some (str, p));
        str \<leftarrow> arr_set str p 0;
        reverse_loop str 0 (int p - 1) })"

subsection \<open>Strings to numbers\<close>

fun skip_set :: "u8 list \<Rightarrow> bytes \<Rightarrow> bytes option" where
  "skip_set ws [] = None"
| "skip_set ws (c # s) = (if c \<in> set ws then skip_set ws s else Some (c # s))"

definition read_sign :: "bytes \<Rightarrow> (bool \<times> bytes) option" where
  "read_sign s = (case s of
       [] \<Rightarrow> None
     | c # t \<Rightarrow> Some (if c = ch CHR ''-'' then (True, t)
                       else if c = ch CHR ''+'' then (False, t) else (False, s)))"

fun atoi_digits :: "bytes \<Rightarrow> int \<Rightarrow> (int \<times> bytes) option" where
  "atoi_digits [] r = None"
| "atoi_digits (c # s) r = (if char_between CHR ''0'' CHR ''9'' c then do {
       r \<leftarrow> c_int (r * 10);
       r \<leftarrow> c_int (r + (sint c - sint (ch CHR ''0'')));
       atoi_digits s r }
     else Some (r, c # s))"

definition atoi :: "bytes option \<Rightarrow> int option" where
  "atoi str = (case str of
       None \<Rightarrow> Some 0
     | Some s \<Rightarrow> do {
         s \<leftarrow> skip_set [ch CHR '' '', 9, 10, 13, 11, 12] s;
         (neg, s) \<leftarrow> read_sign s;
         (r, _) \<leftarrow> atoi_digits s 0;
         c_int ((if neg then -1 else 1) * r) })"

definition base_prefix :: "int \<Rightarrow> bytes \<Rightarrow> (int \<times> bytes) option" where
  "base_prefix base s = (case s of
       [] \<Rightarrow> None
     | c # t \<Rightarrow>
         if base = 0 then
           (if c = ch CHR ''0'' then
              (case t of
                 [] \<Rightarrow> None
               | x # u \<Rightarrow> Some (if x = ch CHR ''x'' \<or> x = ch CHR ''X'' then (16, u) else (8, t)))
            else Some (10, s))
         else if base = 16 \<and> c = ch CHR ''0'' then
           (case t of
              [] \<Rightarrow> None
            | x # u \<Rightarrow> Some (base, if x = ch CHR ''x'' \<or> x = ch CHR ''X'' then u else s))
         else Some (base, s))"

definition digit_value :: "char \<Rightarrow> char \<Rightarrow> u8 \<Rightarrow> int option" where
  "digit_value zl zu c =
     (if char_between CHR ''0'' CHR ''9'' c then Some (sint c - sint (ch CHR ''0''))
      else if char_between CHR ''a'' zl c then Some (sint c - sint (ch CHR ''a'') + 10)
      else if char_between CHR ''A'' zu c then Some (sint c - sint (ch CHR ''A'') + 10)
      else None)"

fun strtol_digits :: "int \<Rightarrow> bytes \<Rightarrow> int \<Rightarrow> (int \<times> bytes) option" where
  "strtol_digits base [] acc = None"
| "strtol_digits base (c # s) acc = (if c = 0 then Some (acc, c # s) else
     (case digit_value CHR ''f'' CHR ''F'' c of
        None \<Rightarrow> Some (acc, c # s)
      | Some digit \<Rightarrow>
          if base \<le> digit then Some (acc, c # s)
          else do {
            acc \<leftarrow> c_int (acc * base);
            acc \<leftarrow> c_int (acc + digit);
            strtol_digits base s acc }))"

definition strtol :: "bytes \<Rightarrow> int \<Rightarrow> (int \<times> bytes) option" where
  "strtol nptr base = do {
     s \<leftarrow> skip_set [ch CHR '' '', 9, 10] nptr;
     (neg, s) \<leftarrow> read_sign s;
     (base, s) \<leftarrow> base_prefix base s;
     (acc, s) \<leftarrow> strtol_digits base s 0;
     acc \<leftarrow> (if neg then c_int (- acc) else Some acc);
     Some (acc, s) }"

fun strtoul_digits :: "int \<Rightarrow> bytes \<Rightarrow> u32 \<Rightarrow> (u32 \<times> bytes) option" where
  "strtoul_digits base [] r = None"
| "strtoul_digits base (c # s) r = (if c = 0 then Some (r, c # s) else
     (case digit_value CHR ''z'' CHR ''Z'' c of
        None \<Rightarrow> Some (r, c # s)
      | Some digit \<Rightarrow>
          if base \<le> digit then Some (r, c # s)
          else strtoul_digits base s (r * word_of_int base + word_of_int digit)))"

definition strtoul :: "bytes \<Rightarrow> int \<Rightarrow> (u32 \<times> bytes) option" where
  "strtoul nptr base = do {
     s \<leftarrow> skip_set [ch CHR '' '', 9, 10, 13, 12, 11] nptr;
     (neg, s) \<leftarrow> read_sign s;
     (base, s) \<leftarrow> base_prefix base s;
     (r, s) \<leftarrow> strtoul_digits base s 0;
     Some (if neg then - r else r, s) }"

text \<open>\<open>parse_color_args\<close>: the result and what it leaves in \<^verbatim>\<open>*fg\<close> and \<^verbatim>\<open>*bg\<close>.\<close>

definition starts_digit :: "bytes \<Rightarrow> bool option" where
  "starts_digit s = map_option (char_between CHR ''0'' CHR ''9'') (arr_get s 0)"

definition parse_color_args :: "bytes \<Rightarrow> (bool \<times> int \<times> int) option" where
  "parse_color_args str = do {
     s \<leftarrow> skip_set [ch CHR '' ''] str;
     d \<leftarrow> starts_digit s;
     if \<not> d then Some (False, 0, 0) else do {
       (fg, s) \<leftarrow> atoi_digits s 0;
       s \<leftarrow> skip_set [ch CHR '' ''] s;
       d \<leftarrow> starts_digit s;
       if \<not> d then Some (False, fg, 0) else do {
         (bg, s) \<leftarrow> atoi_digits s 0;
         Some (True, fg, bg) } } }"

section \<open>Numerals\<close>

text \<open>The numeral of a number in a base: the reference for all conversions.\<close>

definition digit_ch :: "nat \<Rightarrow> u8" where
  "digit_ch d = (if d < 10 then of_nat (48 + d) else of_nat (87 + d))"

function num_str :: "nat \<Rightarrow> nat \<Rightarrow> bytes" where
  "num_str b n = (if n < b \<or> b < 2 then [digit_ch n] else num_str b (n div b) @ [digit_ch (n mod b)])"
  by auto
termination by (relation "measure snd") auto

definition int_str :: "int \<Rightarrow> bytes" where
  "int_str v = (if v < 0 then ch CHR ''-'' # num_str 10 (nat (- v)) else num_str 10 (nat v))"

declare num_str.simps [simp del] ita_digits.simps [simp del] itoa_digits.simps [simp del]

lemma sint_digit_ch: "d < 36 \<Longrightarrow> sint (digit_ch d) = (if d < 10 then 48 + int d else 87 + int d)"
  by (simp add: digit_ch_def sint_of_nat_u8 del: of_nat_add)

lemma digit_ch_props [simp]:
  assumes "d < 36"
  shows "digit_ch d \<noteq> 0" "digit_ch d \<noteq> 45" "digit_ch d \<noteq> 43"
    "digit_ch d \<noteq> 32" "digit_ch d \<noteq> 9" "digit_ch d \<noteq> 10" "digit_ch d \<noteq> 11"
    "digit_ch d \<noteq> 12" "digit_ch d \<noteq> 13"
  using sint_digit_ch [OF assms] by (auto split: if_splits)

lemma digit_value_digit_ch:
  "d < 36 \<Longrightarrow> digit_value CHR ''z'' CHR ''Z'' (digit_ch d) = Some (int d)"
  "d < 16 \<Longrightarrow> digit_value CHR ''f'' CHR ''F'' (digit_ch d) = Some (int d)"
  by (simp_all add: digit_value_def char_between_def sint_digit_ch)

lemma digit_table_nth: "d < 36 \<Longrightarrow> arr_get digit_table d = Some (digit_ch d)"
proof -
  assume "d < 36"
  moreover have "\<forall>i < 36. digit_table ! i = digit_ch i"
    unfolding digit_table_def by (simp add: digit_ch_def All_less_Suc eval_nat_numeral)
  ultimately show ?thesis by (simp add: arr_get_def digit_table_def)
qed

lemma num_str_ne [simp]: "num_str b n \<noteq> []"
  by (subst num_str.simps) simp

lemma num_str_set:
  assumes "2 \<le> b" "b \<le> 36" "c \<in> set (num_str b n)"
  shows "\<exists>d < b. c = digit_ch d"
  using assms(1,3)
proof (induction b n rule: num_str.induct)
  case (1 b n)
  show ?case
  proof (cases "n < b")
    case True
    with 1(3) show ?thesis by (subst (asm) num_str.simps) auto
  next
    case False
    with 1(2,3) have "c \<in> set (num_str b (n div b)) \<or> c = digit_ch (n mod b)"
      by (subst (asm) num_str.simps) auto
    with 1(1,2) False show ?thesis by (auto intro: exI [of _ "n mod b"])
  qed
qed

lemma num_str_no_zero: "2 \<le> b \<Longrightarrow> b \<le> 36 \<Longrightarrow> 0 \<notin> set (num_str b n)"
  using num_str_set [of b 0 n] digit_ch_props(1) by fastforce

lemma num_str_rec:
  "2 \<le> b \<Longrightarrow> num_str b n = (if n div b = 0 then [] else num_str b (n div b)) @ [digit_ch (n mod b)]"
  by (subst num_str.simps) (auto simp: div_eq_0_iff)

lemma itoa_digits_str:
  assumes "2 \<le> b" "b \<le> 36" "length (num_str b n) \<le> length junk"
  shows "itoa_digits (int n) (int b) (pre @ junk) (length pre)
    = Some (pre @ rev (num_str b n) @ drop (length (num_str b n)) junk, length pre + length (num_str b n))"
  using assms(3)
proof (induction n arbitrary: pre junk rule: less_induct)
  case (less n)
  note rec = num_str_rec [OF assms(1), of n]
  obtain y junk' where junk: "junk = y # junk'" using less.prems by (cases junk) auto
  let ?d = "digit_ch (n mod b)"
  have "n mod b < 36" using assms(1,2) mod_less_divisor [of b n] by linarith
  moreover have "c_mod (int n) (int b) = int (n mod b)" "c_div (int n) (int b) = int (n div b)"
    using assms(1) by (simp_all add: c_mod_nonneg c_div_nonneg zdiv_int zmod_int)
  ultimately have step: "itoa_digits (int n) (int b) (pre @ junk) (length pre)
    = (if n div b \<noteq> 0 then itoa_digits (int (n div b)) (int b) ((pre @ [?d]) @ junk') (length (pre @ [?d]))
       else Some ((pre @ [?d]) @ junk', length (pre @ [?d])))"
    using assms(1) by (subst itoa_digits.simps) (simp add: junk digit_table_nth del: of_nat_mod of_nat_div)
  show ?case
  proof (cases "n div b = 0")
    case True
    with step rec show ?thesis by (simp add: junk)
  next
    case False
    then have "n div b < n" using assms(1) by (auto intro!: div_less_dividend gr0I)
    moreover have "length (num_str b (n div b)) \<le> length junk'" using less.prems rec False junk by simp
    ultimately show ?thesis
      using less.IH [of "n div b" junk' "pre @ [?d]"] step rec False by (simp add: junk)
  qed
qed

lemma ita_digits_eq: "0 \<le> n \<Longrightarrow> ita_digits n s i = itoa_digits n 10 s i"
proof (induction n s i rule: ita_digits.induct)
  case (1 n s i)
  have [simp]: "c_div n 10 = n div 10" "c_mod n 10 = n mod 10"
    using 1(2) by (simp_all add: c_div_nonneg c_mod_nonneg)
  have "nat (n mod 10) < 36" by simp
  moreover have "digit_ch (nat (n mod 10)) = word_of_int (n mod 10 + 48)"
    by (simp add: digit_ch_def of_nat_nat)
  moreover have "0 < n div 10 \<longleftrightarrow> n div 10 \<noteq> 0"
    using pos_imp_zdiv_nonneg_iff [of 10 n] 1(2) by linarith
  ultimately show ?case
    using 1 by (subst ita_digits.simps, subst itoa_digits.simps) (auto simp: digit_table_nth intro!: Option.bind_cong)
qed

text \<open>The sign and the final zero behind the digits, then the reversal.\<close>

lemma itoa_str:
  assumes "2 \<le> b" "b \<le> 36" "0 \<le> v" "length (num_str b (nat v)) < length buf"
  shows "itoa v buf (int b) = Some (num_str b (nat v) @ 0 # drop (Suc (length (num_str b (nat v)))) buf)"
proof -
  let ?d = "num_str b (nat v)"
  obtain y junk where buf: "drop (length ?d) buf = y # junk"
    using assms(4) by (cases "drop (length ?d) buf") auto
  then have "junk = drop (Suc (length ?d)) buf" by (metis drop_Suc tl_drop list.sel(3))
  moreover have "itoa_digits v (int b) buf 0 = Some (rev ?d @ y # junk, length ?d)"
    using itoa_digits_str [OF assms(1,2), of "nat v" buf "[]"] assms(3,4) by (simp add: buf)
  moreover have "reverse_loop (rev ?d @ 0 # junk) 0 (int (length ?d) - 1) = Some (?d @ 0 # junk)"
    using reverse_loop_mid [of "[]" "rev ?d" "0 # junk"] by simp
  ultimately show ?thesis
    using assms(1-3) arr_set_append_length [of "rev ?d" y junk 0] by (simp add: itoa_def)
qed

lemma int_to_ascii_str:
  assumes "int_range v" "v \<noteq> - (2 ^ 31)" "length (int_str v) < length buf"
  shows "int_to_ascii v buf = Some (int_str v @ 0 # drop (Suc (length (int_str v))) buf)"
proof -
  define d where "d = num_str 10 (nat \<bar>v\<bar>)"
  have d: "0 \<notin> set d" unfolding d_def by (rule num_str_no_zero) simp_all
  have ist: "int_str v = (if v < 0 then ch CHR ''-'' # d else d)" by (simp add: int_str_def d_def)
  have digs: "ita_digits \<bar>v\<bar> buf 0 = Some (rev d @ drop (length d) buf, length d)"
    using itoa_digits_str [of 10 "nat \<bar>v\<bar>" buf "[]"] assms(3)
    by (simp add: ist ita_digits_eq d_def split: if_splits)
  show ?thesis
  proof (cases "v < 0")
    case True
    with assms(3) have "2 \<le> length (drop (length d) buf)" by (simp add: ist)
    then obtain y z junk where buf: "drop (length d) buf = y # z # junk"
      by (metis Suc_le_length_iff numeral_2_eq_2)
    then have "junk = drop (Suc (Suc (length d))) buf" by (metis drop_Suc tl_drop list.sel(3))
    moreover have "c_int (- v) = Some \<bar>v\<bar>" using True assms(1,2) by (simp add: int_range_def)
    moreover have "arr_set (rev d @ y # z # junk) (length d) 45 = Some (rev d @ 45 # z # junk)"
      "arr_set (rev d @ 45 # z # junk) (Suc (length d)) 0 = Some (rev d @ 45 # 0 # junk)"
      using arr_set_append_length [of "rev d" y "z # junk" 45]
        arr_set_append_length [of "rev d @ [45]" z junk 0] by simp_all
    ultimately show ?thesis
      using True digs d reverse_terminated [of "rev d @ [45]" junk] by (simp add: int_to_ascii_def ist buf)
  next
    case False
    with assms(3) obtain y junk where buf: "drop (length d) buf = y # junk"
      by (cases "drop (length d) buf") (auto simp: ist)
    then have "junk = drop (Suc (length d)) buf" by (metis drop_Suc tl_drop list.sel(3))
    with False digs d buf show ?thesis
      using arr_set_append_length [of "rev d" y junk 0] reverse_terminated [of "rev d" junk]
      by (simp add: int_to_ascii_def ist)
  qed
qed

section \<open>Reading numerals back\<close>

definition digits_value :: "nat \<Rightarrow> nat list \<Rightarrow> nat \<Rightarrow> nat" where
  "digits_value b ds a = foldl (\<lambda>a d. a * b + d) a ds"

lemma digits_value_simps [simp]:
  "digits_value b [] a = a" "digits_value b (d # ds) a = digits_value b ds (a * b + d)"
  "digits_value b (ds @ es) a = digits_value b es (digits_value b ds a)"
  by (simp_all add: digits_value_def)

lemma digits_value_ge: "1 \<le> b \<Longrightarrow> a \<le> digits_value b ds a"
proof (induction ds arbitrary: a)
  case (Cons d ds)
  have "a \<le> a * b + d" using Cons.prems by (simp add: trans_le_add1)
  with Cons show ?case by (simp add: le_trans [OF _ Cons.IH])
qed simp

lemma num_str_digits:
  assumes "2 \<le> b"
  shows "\<exists>ds. num_str b n = map digit_ch ds \<and> (\<forall>d \<in> set ds. d < b) \<and> digits_value b ds 0 = n"
proof (induction n rule: less_induct)
  case (less n)
  show ?case
  proof (cases "n div b = 0")
    case True
    with assms show ?thesis
      by (intro exI [of _ "[n]"]) (simp add: num_str_rec [OF assms, of n] div_eq_0_iff)
  next
    case False
    then have "n div b < n" using assms by (auto intro!: div_less_dividend gr0I)
    from less [OF this] obtain ds where "num_str b (n div b) = map digit_ch ds" "\<forall>d \<in> set ds. d < b"
      "digits_value b ds 0 = n div b" by blast
    with False assms show ?thesis
      by (intro exI [of _ "ds @ [n mod b]"]) (auto simp: num_str_rec [OF assms, of n])
  qed
qed

lemma strtoul_digits_map:
  assumes "b \<le> 36" "\<forall>d \<in> set ds. d < b"
  shows "strtoul_digits (int b) (map digit_ch ds @ 0 # t) (of_nat a) = Some (of_nat (digits_value b ds a), 0 # t)"
  using assms(2)
proof (induction ds arbitrary: a)
  case (Cons d ds)
  then have "d < 36" "d < b" using assms(1) by auto
  with Cons.IH [of "a * b + d"] Cons.prems show ?case by (simp add: digit_value_digit_ch)
qed simp

lemma atoi_digits_map:
  assumes "\<forall>d \<in> set ds. d < 10" "int (digits_value 10 ds a) < 2 ^ 31"
    "\<not> char_between CHR ''0'' CHR ''9'' c"
  shows "atoi_digits (map digit_ch ds @ c # t) (int a) = Some (int (digits_value 10 ds a), c # t)"
  using assms(1,2)
proof (induction ds arbitrary: a)
  case Nil
  with assms(3) show ?case by simp
next
  case (Cons d ds)
  then have d: "d < 10" by simp
  have "a * 10 + d \<le> digits_value 10 (d # ds) a" using digits_value_ge [of 10 "a * 10 + d" ds] by simp
  then have "int a * 10 + int d < 2 ^ 31" using Cons.prems(2) by linarith
  then have "int_range (int a * 10)" "int_range (int a * 10 + int d)" by (auto simp: int_range_def)
  with Cons.IH [of "a * 10 + d"] Cons.prems d show ?case
    by (simp add: char_between_def sint_digit_ch)
qed

lemma skip_set_digit:
  assumes "d < 36" "set ws \<subseteq> {32, 9, 10, 11, 12, 13}"
  shows "skip_set ws (digit_ch d # s) = Some (digit_ch d # s)"
  using assms digit_ch_props [OF assms(1)] by auto

lemma length_num_str: "2 \<le> b \<Longrightarrow> n < b ^ Suc k \<Longrightarrow> length (num_str b n) \<le> Suc k"
proof (induction k arbitrary: n)
  case 0
  then show ?case by (simp add: num_str_rec [of b n])
next
  case (Suc k)
  then have "n div b < b ^ Suc k" by (simp add: less_mult_imp_div_less mult.commute)
  with Suc show ?case by (simp add: num_str_rec [of b n])
qed

lemma strtoul_str:
  assumes "2 \<le> b" "b \<le> 36" "ds \<noteq> []" "\<forall>d \<in> set ds. d < b"
  shows "strtoul (map digit_ch ds @ 0 # t) (int b) = Some (of_nat (digits_value b ds 0), 0 # t)"
proof -
  obtain d ds' where ds: "ds = d # ds'" "d < 36" using assms by (cases ds) auto
  have "digit_ch e \<noteq> ch CHR ''x''" "digit_ch e \<noteq> ch CHR ''X''" if "e < 16" for e
    using sint_digit_ch [of e] that by (auto split: if_splits)
  then have "base_prefix (int b) (map digit_ch ds @ 0 # t) = Some (int b, map digit_ch ds @ 0 # t)"
    using assms by (cases ds') (auto simp: base_prefix_def ds)
  moreover have "read_sign (map digit_ch ds @ 0 # t) = Some (False, map digit_ch ds @ 0 # t)"
    using digit_ch_props [OF ds(2)] by (simp add: read_sign_def ds)
  moreover have "skip_set [ch CHR '' '', 9, 10, 13, 12, 11] (map digit_ch ds @ 0 # t)
    = Some (map digit_ch ds @ 0 # t)"
    using skip_set_digit [OF ds(2)] by (simp add: ds)
  moreover have "strtoul_digits (int b) (map digit_ch ds @ 0 # t) 0
    = Some (of_nat (digits_value b ds 0), 0 # t)"
    using strtoul_digits_map [OF assms(2,4), of t 0] by simp
  ultimately show ?thesis by (simp add: strtoul_def)
qed

text \<open>
  C18: printing a non-negative \<open>int\<close> with \<open>itoa\<close> in any base from 2 to 36 and reading it back with
  \<open>strtoul\<close> is a round trip.  A buffer of 32 bytes is enough, the buffer then holds the numeral of
  the value, and reading it consumes the whole string.
\<close>

theorem itoa_strtoul:
  assumes "2 \<le> b" "b \<le> 36" "0 \<le> v" "int_range v" "32 \<le> length buf"
  shows "\<exists>s t. itoa v buf (int b) = Some s \<and> cstr s = num_str b (nat v)
    \<and> strtoul s (int b) = Some (word_of_int v, 0 # t)"
proof -
  obtain ds where ds: "num_str b (nat v) = map digit_ch ds" "\<forall>d \<in> set ds. d < b"
    "digits_value b ds 0 = nat v"
    using num_str_digits [OF assms(1)] by blast
  then have "ds \<noteq> []" using num_str_ne [of b "nat v"] by auto
  have "nat v < 2 ^ Suc 30" using assms(3,4) by (simp add: int_range_def)
  also have "\<dots> \<le> b ^ Suc 30" using assms(1) by (rule power_mono) simp
  finally have "length (num_str b (nat v)) \<le> Suc 30" by (rule length_num_str [OF assms(1)])
  then have "itoa v buf (int b)
    = Some (num_str b (nat v) @ 0 # drop (Suc (length (num_str b (nat v)))) buf)"
    using assms by (intro itoa_str) auto
  moreover have "strtoul (num_str b (nat v) @ 0 # u) (int b) = Some (word_of_int v, 0 # u)" for u
    using strtoul_str [OF assms(1,2) \<open>ds \<noteq> []\<close> ds(2), of u] ds(1,3) assms(3) by (simp add: of_nat_nat)
  ultimately show ?thesis using num_str_no_zero [OF assms(1,2)] by simp
qed

theorem itoa_strtoul_witness:
  "\<exists>s t. itoa 255 (replicate 32 7) 16 = Some s \<and> cstr s = [ch CHR ''f'', ch CHR ''f'']
    \<and> strtoul s 16 = Some (255, 0 # t)"
  using itoa_strtoul [of 16 255 "replicate 32 7"]
  by (simp add: int_range_def num_str.simps digit_ch_def)

text \<open>
  C19: \<open>int_to_ascii\<close> and \<open>atoi\<close> are inverse on every \<open>int\<close> but the smallest: 12 bytes hold the
  decimal numeral with its sign, and \<open>atoi\<close> reads the value back.  For the smallest \<open>int\<close> the
  negation in \<open>int_to_ascii\<close> overflows.
\<close>

theorem int_to_ascii_atoi:
  assumes "int_range v" "12 \<le> length buf"
  shows "if v = - (2 ^ 31) then int_to_ascii v buf = None
    else \<exists>s. int_to_ascii v buf = Some s \<and> cstr s = int_str v \<and> atoi (Some s) = Some v"
proof (cases "v = - (2 ^ 31)")
  case True
  then show ?thesis by (simp add: int_to_ascii_def c_int_def int_range_def)
next
  case False
  obtain ds where ds: "num_str 10 (nat \<bar>v\<bar>) = map digit_ch ds" "\<forall>d \<in> set ds. d < 10"
    "digits_value 10 ds 0 = nat \<bar>v\<bar>"
    using num_str_digits [of 10] by auto
  then obtain d ds' where cons: "ds = d # ds'" "d < 36"
    using num_str_ne [of 10 "nat \<bar>v\<bar>"] by (cases ds) auto
  have "nat \<bar>v\<bar> < 10 ^ Suc 9" using assms(1) by (auto simp: int_range_def)
  then have "length (num_str 10 (nat \<bar>v\<bar>)) \<le> Suc 9" by (rule length_num_str [rotated]) simp
  then have "length (int_str v) < length buf" using assms(2) by (auto simp: int_str_def)
  from int_to_ascii_str [OF assms(1) False this]
  have "int_to_ascii v buf = Some (int_str v @ 0 # drop (Suc (length (int_str v))) buf)" .
  moreover have "atoi (Some (int_str v @ 0 # u)) = Some v" for u
  proof -
    have "\<bar>v\<bar> < 2 ^ 31" using assms(1) False by (auto simp: int_range_def abs_less_iff)
    then have "atoi_digits (map digit_ch ds @ 0 # u) 0 = Some (\<bar>v\<bar>, 0 # u)"
      using atoi_digits_map [OF ds(2), of 0 0 u] ds(3) by (simp add: char_between_def)
    moreover have "c_int v = Some v" using assms(1) by simp
    ultimately show ?thesis
      using skip_set_digit [OF cons(2)] digit_ch_props [OF cons(2)] ds(1)
      by (cases "v < 0") (simp_all add: atoi_def int_str_def read_sign_def cons)
  qed
  moreover have "0 \<notin> set (int_str v)"
    using num_str_no_zero [of 10] by (auto simp: int_str_def)
  ultimately show ?thesis using False by simp
qed

theorem int_to_ascii_atoi_witness:
  "\<exists>s. int_to_ascii (-405) (replicate 12 7) = Some s \<and> cstr s = [45, 52, 48, 53] \<and> atoi (Some s) = Some (-405)"
  using int_to_ascii_atoi [of "-405" "replicate 12 7"]
  by (simp add: int_range_def int_str_def num_str.simps digit_ch_def)

section \<open>Hexadecimal output\<close>

text \<open>The last \<open>k\<close> hexadecimal digits of a number, leading zeroes included.\<close>

definition hex_digits :: "nat \<Rightarrow> nat \<Rightarrow> bytes" where
  "hex_digits k n = map (\<lambda>i. digit_ch (n div 16 ^ i mod 16)) (rev [0..<k])"

lemma hex_digits_Suc: "hex_digits (Suc k) n = digit_ch (n div 16 ^ k mod 16) # hex_digits k n"
  by (simp add: hex_digits_def)

lemma hex_digits_snoc: "hex_digits (Suc k) n = hex_digits k (n div 16) @ [digit_ch (n mod 16)]"
proof -
  have "rev [0..<Suc k] = map Suc (rev [0..<k]) @ [0]"
    by (simp add: rev_map [symmetric] map_Suc_upt upt_conv_Cons del: upt_Suc)
  then show ?thesis by (simp add: hex_digits_def comp_def div_mult2_eq del: upt_Suc)
qed

lemma num_str_hex:
  "0 < n div 16 ^ k \<Longrightarrow> n < 16 ^ Suc k \<Longrightarrow> num_str 16 n = hex_digits (Suc k) n"
proof (induction k arbitrary: n)
  case 0
  then show ?case by (simp add: num_str.simps hex_digits_def)
next
  case (Suc k)
  have "0 < n div 16 div 16 ^ k" using Suc.prems(1) by (simp add: div_mult2_eq)
  moreover have "n div 16 < 16 ^ Suc k" using Suc.prems(2) by (simp add: less_mult_imp_div_less)
  moreover have "n div 16 \<noteq> 0" using calculation(1) by (intro notI) simp
  ultimately show ?case
    using Suc.IH [of "n div 16"] by (subst num_str_rec) (simp_all add: hex_digits_snoc [of "Suc k"])
qed

lemma hex_digit_mod: "i < m \<Longrightarrow> n mod 16 ^ m div 16 ^ i mod 16 = n div 16 ^ i mod (16::nat)"
proof -
  assume "i < m"
  then have m: "(16::nat) ^ m = 16 ^ i * 16 ^ (m - i)" "(16::nat) dvd 16 ^ (m - i)"
    by (simp_all flip: power_add)
  then have "n mod 16 ^ m div 16 ^ i = n div 16 ^ i mod 16 ^ (m - i)" by (simp add: mod_mult2_eq)
  with m(2) show ?thesis by (simp add: mod_mod_cancel)
qed

lemma nibble_nat: "unat (drop_bit (4 * k) (n::u32) AND 0xF) = unat n div 16 ^ k mod 16"
proof -
  have "unat (drop_bit (4 * k) n AND 0xF) = unat (drop_bit (4 * k) n AND mask 4)"
    by (simp add: mask_eq_exp_minus_1)
  also have "\<dots> = unat (drop_bit (4 * k) n) mod 16" by (simp add: unat_and_mask)
  also have "unat (drop_bit (4 * k) n) = unat n div 16 ^ k"
    unfolding unat_drop_bit_eq by (simp add: drop_bit_eq_div power_mult)
  finally show ?thesis .
qed

lemma nibble_char:
  assumes "(w::u32) < 16"
  shows "(if 0xA \<le> w then ucast (w - 0xA) + 97 else ucast w + 48 :: u8) = digit_ch (unat w)"
proof -
  have uc: "ucast v = (of_nat (unat v) :: u8)" for v :: u32 by (simp only: of_nat_unat)
  show ?thesis
  proof (cases "0xA \<le> w")
    case True
    then have "unat (w - 0xA) = unat w - 10" "10 \<le> unat w"
      using unat_sub [OF True] by (simp_all add: word_le_nat_alt)
    then have "unat w = unat (w - 0xA) + 10" by linarith
    then have "digit_ch (unat w) = of_nat (unat (w - 0xA) + 97)"
      unfolding digit_ch_def by simp
    with True show ?thesis by (simp only: uc of_nat_add of_nat_numeral if_True)
  next
    case False
    then have "unat w < 10" by (simp add: word_le_nat_alt)
    then have "digit_ch (unat w) = of_nat (unat w + 48)" by (simp only: digit_ch_def if_True add.commute)
    with False show ?thesis by (simp only: uc of_nat_add of_nat_numeral if_False)
  qed
qed

lemma hex_loop_digits:
  assumes "0 \<notin> set xs" "k \<le> length t" "started \<or> 0 < k"
  shows "hex_loop n (rev (map (\<lambda>i. 4 * i) [0..<k])) started (xs @ 0 # t)
    = (let ds = if started then hex_digits k (unat n) else num_str 16 (unat n mod 16 ^ k)
       in Some (True, xs @ ds @ 0 # drop (length ds) t))"
  using assms
proof (induction k arbitrary: xs t started)
  case 0
  then show ?case by (simp add: hex_digits_def Let_def)
next
  case (Suc k)
  let ?w = "drop_bit (4 * k) n AND 0xF"
  have w: "unat ?w = unat n div 16 ^ k mod 16" by (rule nibble_nat)
  then have w16: "?w < 16" by (simp add: word_less_nat_alt)
  have w0: "?w = 0 \<longleftrightarrow> unat n div 16 ^ k mod 16 = 0" using w by (metis unat_eq_0)
  have m: "unat n mod 16 ^ Suc k = unat n div 16 ^ k mod 16 * 16 ^ k + unat n mod 16 ^ k"
    by (simp only: power_Suc2 mod_mult2_eq) (simp add: mult.commute)
  show ?case
  proof (cases "\<not> started \<and> ?w = 0 \<and> k \<noteq> 0")
    case True
    with Suc.IH [of xs t started] Suc.prems m w0 show ?thesis by simp
  next
    case False
    let ?d = "digit_ch (unat n div 16 ^ k mod 16)"
    have "?d \<noteq> 0" by (rule digit_ch_props) (simp add: less_le_trans [OF mod_less_divisor])
    moreover have "append_ch (xs @ 0 # t) ?d = Some ((xs @ [?d]) @ 0 # tl t)"
      using Suc.prems by (subst append_ch_terminated) auto
    ultimately have "hex_loop n (rev (map (\<lambda>i. 4 * i) [0..<Suc k])) started (xs @ 0 # t)
      = Some (True, xs @ hex_digits (Suc k) (unat n) @ 0 # drop (Suc k) t)"
      using Suc.IH [of "xs @ [?d]" "tl t" True] Suc.prems False nibble_char [OF w16] w
      by (auto simp: Let_def hex_digits_Suc hex_digits_def drop_Suc)
    moreover have "num_str 16 (unat n mod 16 ^ Suc k) = hex_digits (Suc k) (unat n)" if "\<not> started"
    proof (cases "k = 0")
      case True
      then show ?thesis by (simp add: num_str.simps hex_digits_def)
    next
      case k: False
      have "hex_digits (Suc k) (unat n mod 16 ^ Suc k) = hex_digits (Suc k) (unat n)"
        unfolding hex_digits_def
        by (rule map_cong) (auto simp: hex_digit_mod simp del: power_Suc)
      moreover have "0 < unat n mod 16 ^ Suc k div 16 ^ k"
        using that False k w0 unfolding m by simp
      ultimately show ?thesis using num_str_hex [of "unat n mod 16 ^ Suc k" k] by simp
    qed
    moreover have "length (hex_digits (Suc k) (unat n)) = Suc k" by (simp add: hex_digits_def)
    ultimately show ?thesis by (simp add: Let_def)
  qed
qed

text \<open>
  C20: \<open>hex_to_ascii\<close> appends \<^verbatim>\<open>0x\<close> and the hexadecimal numeral without leading zeroes to the string
  in its buffer, for every 32-bit value; 10 bytes behind the terminator are enough.  Appended to an
  empty string, \<open>strtoul\<close> reads the value back, in base 16 and with automatic base.
\<close>

theorem hex_to_ascii_strtoul:
  assumes "0 \<notin> set xs" "10 \<le> length t"
  shows "\<exists>u. hex_to_ascii n (xs @ 0 # t) = Some (xs @ map of_char ''0x'' @ num_str 16 (unat n) @ 0 # u)
    \<and> strtoul (map of_char ''0x'' @ num_str 16 (unat n) @ 0 # u) 16 = Some (n, 0 # u)
    \<and> strtoul (map of_char ''0x'' @ num_str 16 (unat n) @ 0 # u) 0 = Some (n, 0 # u)"
proof -
  have a: "append_ch (xs @ 0 # t) 48 = Some ((xs @ [48]) @ 0 # tl t)"
    using assms by (subst append_ch_terminated) auto
  have b: "append_ch ((xs @ [48]) @ 0 # tl t) 120 = Some ((xs @ [48, 120]) @ 0 # tl (tl t))"
    using assms by (subst append_ch_terminated) (auto simp flip: length_greater_0_conv)
  have "unat n mod 16 ^ 8 = unat n" using unat_lt_exp [of n] by simp
  then have c: "hex_loop n (rev (map (\<lambda>k. 4 * k) [0..<8])) False ((xs @ [48, 120]) @ 0 # tl (tl t))
    = Some (True, (xs @ [48, 120]) @ num_str 16 (unat n) @ 0 # drop (length (num_str 16 (unat n))) (tl (tl t)))"
    using assms by (subst hex_loop_digits) (auto simp: Let_def)
  let ?u = "drop (length (num_str 16 (unat n))) (tl (tl t))"
  have hex: "hex_to_ascii n (xs @ 0 # t) = Some (xs @ map of_char ''0x'' @ num_str 16 (unat n) @ 0 # ?u)"
    using a b c by (simp add: hex_to_ascii_def del: upt_rec_numeral)
  obtain ds where ds: "num_str 16 (unat n) = map digit_ch ds" "\<forall>d \<in> set ds. d < 16"
    "digits_value 16 ds 0 = unat n"
    using num_str_digits [of 16] by auto
  have "strtoul_digits 16 (num_str 16 (unat n) @ 0 # ?u) 0 = Some (n, 0 # ?u)"
    using strtoul_digits_map [of 16 ds ?u 0] ds by simp
  then have "strtoul (map of_char ''0x'' @ num_str 16 (unat n) @ 0 # ?u) 16 = Some (n, 0 # ?u)"
    "strtoul (map of_char ''0x'' @ num_str 16 (unat n) @ 0 # ?u) 0 = Some (n, 0 # ?u)"
    by (simp_all add: strtoul_def read_sign_def base_prefix_def)
  with hex show ?thesis by blast
qed

theorem hex_to_ascii_strtoul_witness:
  "\<exists>u. hex_to_ascii 0x1A0 (0 # replicate 10 7) = Some (map of_char ''0x1a0'' @ 0 # u)
    \<and> strtoul (map of_char ''0x1a0'' @ 0 # u) 16 = Some (0x1A0, 0 # u)"
  using hex_to_ascii_strtoul [of "[]" "replicate 10 7" "0x1A0"]
  by (auto simp: num_str.simps digit_ch_def)

end
