(* ===== verification/Libc_Printf.thy ===== *)
theory Libc_Printf
  imports Libc_Format
begin

text \<open>
  \<open>snprintf\<close> of \<^verbatim>\<open>libc/string.c\<close>, loop by loop, and the reference it implements: the directives of
  the format rendered one after the other and cut to the size of the buffer.

  The position in the format and in a string argument is the suffix that is left to read.  \<open>len\<close>
  counts the characters written so far.
\<close>

section \<open>Model\<close>

datatype va_arg = VaInt int | VaStr bytes

fun fmt_width :: "bytes \<Rightarrow> int \<Rightarrow> (int \<times> bytes) option" where
  "fmt_width [] w = None"
| "fmt_width (c # p) w = (if char_between CHR ''0'' CHR ''9'' c then do {
       w \<leftarrow> c_int (w * 10);
       w \<leftarrow> c_int (w + (sint c - sint (ch CHR ''0'')));
       fmt_width p w }
     else Some (w, c # p))"

fun put_str :: "int \<Rightarrow> bytes \<Rightarrow> bytes \<Rightarrow> nat \<Rightarrow> (bytes \<times> nat) option" where
  "put_str sz [] out len = None"
| "put_str sz (c # s) out len = (if c \<noteq> 0 \<and> int len < sz - 1
     then do { out \<leftarrow> arr_set out len c; put_str sz s out (len + 1) }
     else Some (out, len))"

text \<open>The digits of a positive value, least significant first, as \<^verbatim>\<open>buf[32]\<close> receives them.\<close>

function dec_loop :: "int \<Rightarrow> bytes \<Rightarrow> bytes" where
  "dec_loop v buf = (if 0 < v \<and> length buf < 32
     then dec_loop (c_div v 10) (buf @ [word_of_int (sint (ch CHR ''0'') + c_mod v 10)]) else buf)"
  by auto
termination by (relation "measure (\<lambda>(v, buf). nat v)") (auto simp: c_div_nonneg)

definition dec_buf :: "int \<Rightarrow> bytes option" where
  "dec_buf v = (if v = 0 then Some [ch CHR ''0'']
     else do {
       w \<leftarrow> (if v < 0 then c_int (- v) else Some v);
       if v < 0 then (if length (dec_loop w []) < 32 then Some (dec_loop w [] @ [ch CHR ''-'']) else None)
       else Some (dec_loop w []) })"

function put_pad :: "int \<Rightarrow> u8 \<Rightarrow> int \<Rightarrow> int \<Rightarrow> bytes \<Rightarrow> nat \<Rightarrow> (bytes \<times> nat) option" where
  "put_pad sz pad digits width out len = (if digits < width \<and> int len < sz - 1
     then do { out \<leftarrow> arr_set out len pad; put_pad sz pad digits (width - 1) out (len + 1) }
     else Some (out, len))"
  by auto
termination by (relation "measure (\<lambda>(sz, pad, digits, width, out, len). nat (width - digits))") auto

text \<open>Writing \<^verbatim>\<open>buf[--i]\<close> while there is room: the buffer read from its end.\<close>

fun put_rev :: "int \<Rightarrow> bytes \<Rightarrow> bytes \<Rightarrow> nat \<Rightarrow> (bytes \<times> nat) option" where
  "put_rev sz [] out len = Some (out, len)"
| "put_rev sz (c # rbuf) out len = (if int len < sz - 1
     then do { out \<leftarrow> arr_set out len c; put_rev sz rbuf out (len + 1) }
     else Some (out, len))"

lemma fmt_width_length: "fmt_width p w = Some (w', q) \<Longrightarrow> length q \<le> length p"
proof (induction p arbitrary: w)
  case (Cons c p)
  then show ?case by (auto intro: le_SucI split: if_splits bind_splits)
qed simp

text \<open>One directive, \<open>p\<close> pointing behind the percent sign: the new output and the rest of the format.\<close>

definition fmt_flags :: "bytes \<Rightarrow> (u8 \<times> int \<times> bytes) option" where
  "fmt_flags p = do {
     c \<leftarrow> arr_get p 0;
     (pad, p) \<leftarrow> Some (if c = ch CHR ''0'' then (c, tl p) else (ch CHR '' '', p));
     (width, p) \<leftarrow> fmt_width p 0;
     Some (pad, width, p) }"

definition put_directive ::
  "int \<Rightarrow> u8 \<Rightarrow> u8 \<Rightarrow> int \<Rightarrow> va_arg list \<Rightarrow> bytes \<Rightarrow> nat \<Rightarrow> (va_arg list \<times> bytes \<times> nat) option" where
  "put_directive sz c pad width args out len =
     (if c = ch CHR ''s'' then
        (case args of
           VaStr s # args \<Rightarrow> map_option (Pair args) (put_str sz s out len)
         | _ \<Rightarrow> None)
      else if c = ch CHR ''d'' then
        (case args of
           VaInt v # args \<Rightarrow> do {
             buf \<leftarrow> dec_buf v;
             (out, len) \<leftarrow> put_pad sz pad (int (length buf)) width out len;
             map_option (Pair args) (put_rev sz (rev buf) out len) }
         | _ \<Rightarrow> None)
      else if c = ch CHR ''c'' then
        (case args of
           VaInt v # args \<Rightarrow> do { out \<leftarrow> arr_set out len (word_of_int v); Some (args, out, len + 1) }
         | _ \<Rightarrow> None)
      else do {
        out \<leftarrow> arr_set out len (ch CHR ''%'');
        if c \<noteq> 0 \<and> int (len + 1) < sz - 1
        then do { out \<leftarrow> arr_set out (len + 1) c; Some (args, out, len + 2) }
        else Some (args, out, len + 1) })"

lemma fmt_flags_length: "fmt_flags p = Some (pad, width, q) \<Longrightarrow> length q \<le> length p"
  by (auto simp: fmt_flags_def arr_get_def dest!: fmt_width_length split: bind_splits if_splits)

function snprintf_loop ::
  "int \<Rightarrow> bytes \<Rightarrow> va_arg list \<Rightarrow> bytes \<Rightarrow> nat \<Rightarrow> (bytes \<times> nat) option" where
  "snprintf_loop sz p args out len = (case p of
       [] \<Rightarrow> None
     | c # p \<Rightarrow>
         if c = 0 \<or> \<not> int len < sz - 1 then Some (out, len)
         else if c \<noteq> ch CHR ''%'' then do {
           out \<leftarrow> arr_set out len c;
           snprintf_loop sz p args out (len + 1) }
         else
           (case fmt_flags p of
              None \<Rightarrow> None
            | Some (pad, width, p) \<Rightarrow>
                (case p of
                   [] \<Rightarrow> None
                 | c # p \<Rightarrow> do {
                     (args, out, len) \<leftarrow> put_directive sz c pad width args out len;
                     snprintf_loop sz p args out len })))"
  by pat_completeness auto
termination
  by (relation "measure (\<lambda>(sz, p, args, out, len). length p)")
    (auto dest!: fmt_flags_length)

definition snprintf :: "bytes \<Rightarrow> int \<Rightarrow> bytes \<Rightarrow> va_arg list \<Rightarrow> (bytes \<times> nat) option" where
  "snprintf out sz fmt args = do {
     (out, len) \<leftarrow> snprintf_loop sz fmt args out 0;
     out \<leftarrow> arr_set out len 0;
     Some (out, len) }"

section \<open>The reference\<close>

datatype directive = Lit u8 | Conv u8 u8 int

function parse_fmt :: "bytes \<Rightarrow> directive list option" where
  "parse_fmt p = (case p of
       [] \<Rightarrow> None
     | c # p \<Rightarrow>
         if c = 0 then Some []
         else if c \<noteq> ch CHR ''%'' then map_option ((#) (Lit c)) (parse_fmt p)
         else
           (case fmt_flags p of
              None \<Rightarrow> None
            | Some (pad, width, p) \<Rightarrow>
                (case p of
                   [] \<Rightarrow> None
                 | c # p \<Rightarrow> if c = 0 then None
                            else map_option ((#) (Conv c pad width)) (parse_fmt p))))"
  by pat_completeness auto
termination by (relation "measure length") (auto dest!: fmt_flags_length)

text \<open>The text of one directive and the arguments it leaves.\<close>

fun render :: "directive \<Rightarrow> va_arg list \<Rightarrow> (bytes \<times> va_arg list) option" where
  "render (Lit c) args = Some ([c], args)"
| "render (Conv c pad width) args =
     (if c = ch CHR ''s'' then
        (case args of VaStr s # as \<Rightarrow> if 0 \<in> set s then Some (cstr s, as) else None | _ \<Rightarrow> None)
      else if c = ch CHR ''d'' then
        (case args of
           VaInt v # as \<Rightarrow>
             if int_range v \<and> v \<noteq> - (2 ^ 31)
             then Some (replicate (nat width - length (int_str v)) pad @ int_str v, as) else None
         | _ \<Rightarrow> None)
      else if c = ch CHR ''c'' then
        (case args of VaInt v # as \<Rightarrow> Some ([word_of_int v], as) | _ \<Rightarrow> None)
      else Some ([ch CHR ''%'', c], args))"

fun render_all :: "directive list \<Rightarrow> va_arg list \<Rightarrow> bytes option" where
  "render_all [] args = Some []"
| "render_all (d # ds) args = do {
     (r, args) \<leftarrow> render d args;
     rs \<leftarrow> render_all ds args;
     Some (r @ rs) }"

declare snprintf_loop.simps [simp del] parse_fmt.simps [simp del] dec_loop.simps [simp del]
  put_pad.simps [simp del]

section \<open>The refinement\<close>

text \<open>The buffer and the length after \<open>r\<close> has been written into \<open>out\<close> with room for \<open>lim\<close> characters.\<close>

definition cut_out :: "nat \<Rightarrow> bytes \<Rightarrow> bytes \<Rightarrow> bytes" where
  "cut_out lim r out = take lim r @ drop (min lim (length r)) out"

definition cut_len :: "nat \<Rightarrow> bytes \<Rightarrow> nat" where
  "cut_len lim r = min lim (length r)"

lemma cut_full:
  "lim \<le> length r \<Longrightarrow> cut_out lim (r @ s) out = cut_out lim r out"
  "lim \<le> length r \<Longrightarrow> cut_len lim (r @ s) = cut_len lim r"
  by (simp_all add: cut_out_def cut_len_def)

lemma cut_put:
  assumes "length r < lim" "lim < length out"
  shows "arr_set (cut_out lim r out) (cut_len lim r) c = Some (cut_out lim (r @ [c]) out)"
    "Suc (cut_len lim r) = cut_len lim (r @ [c])"
  using assms by (simp_all add: cut_out_def cut_len_def arr_set_def list_update_append
      Cons_nth_drop_Suc [symmetric, of "length r" out])

lemma cut_len_less: "cut_len lim r < lim \<longleftrightarrow> length r < lim"
  by (auto simp: cut_len_def)

lemma put_str_cut:
  assumes "0 \<in> set s" "lim < length out"
  shows "put_str (int lim + 1) s (cut_out lim r out) (cut_len lim r)
    = Some (cut_out lim (r @ cstr s) out, cut_len lim (r @ cstr s))"
  using assms(1)
proof (induction s arbitrary: r)
  case (Cons c s)
  show ?case
  proof (cases "c \<noteq> 0 \<and> length r < lim")
    case True
    then show ?thesis using Cons cut_put [of r lim out c] assms(2) by (simp add: cut_len_less)
  next
    case False
    then show ?thesis by (auto simp: cut_len_less cut_full)
  qed
qed simp

lemma put_rev_cut:
  assumes "lim < length out"
  shows "put_rev (int lim + 1) cs (cut_out lim r out) (cut_len lim r)
    = Some (cut_out lim (r @ cs) out, cut_len lim (r @ cs))"
proof (induction cs arbitrary: r)
  case (Cons c cs)
  then show ?case
    using cut_put [of r lim out c] assms by (cases "length r < lim") (simp_all add: cut_len_less cut_full)
qed simp

lemma put_pad_cut:
  assumes "lim < length out"
  shows "put_pad (int lim + 1) pad (int d) width (cut_out lim r out) (cut_len lim r)
    = Some (cut_out lim (r @ replicate (nat width - d) pad) out, cut_len lim (r @ replicate (nat width - d) pad))"
proof (induction "nat width - d" arbitrary: width r)
  case 0
  then have "\<not> int d < width" by linarith
  with 0 show ?case by (subst put_pad.simps) simp
next
  case (Suc x)
  then have w: "int d < width" by linarith
  then have "x = nat (width - 1) - d" "nat width - d = Suc (nat (width - 1) - d)" using Suc.hyps(2) by linarith+
  with Suc.hyps(1) [of "width - 1" "r @ [pad]"] w cut_put [of r lim out pad] assms show ?case
    by (cases "length r < lim"; subst put_pad.simps) (simp_all add: cut_len_less cut_full)
qed

lemma dec_loop_str:
  assumes "0 < n" "length buf + length (num_str 10 n) \<le> 32"
  shows "dec_loop (int n) buf = buf @ rev (num_str 10 n)"
  using assms
proof (induction n arbitrary: buf rule: less_induct)
  case (less n)
  have rec: "num_str 10 n = (if n div 10 = 0 then [] else num_str 10 (n div 10)) @ [digit_ch (n mod 10)]"
    by (rule num_str_rec) simp
  have "48 + int n mod 10 = int (48 + n mod 10)" by (simp add: zmod_int)
  then have "word_of_int (48 + int n mod 10) = digit_ch (n mod 10)"
    by (simp only: digit_ch_def of_int_of_nat_eq) simp
  then have step: "dec_loop (int n) buf = dec_loop (int (n div 10)) (buf @ [digit_ch (n mod 10)])"
    using less.prems rec by (subst dec_loop.simps) (simp add: c_div_nonneg c_mod_nonneg zdiv_int split: if_splits)
  show ?case
  proof (cases "n div 10 = 0")
    case True
    with step rec show ?thesis by (simp add: dec_loop.simps)
  next
    case False
    then have "n div 10 < n" "0 < n div 10" using less.prems(1) by simp_all
    with less.IH [of "n div 10" "buf @ [digit_ch (n mod 10)]"] less.prems(2) step rec False show ?thesis
      by simp
  qed
qed

lemma dec_buf_str: "int_range v \<Longrightarrow> v \<noteq> - (2 ^ 31) \<Longrightarrow> dec_buf v = Some (rev (int_str v))"
proof -
  assume v: "int_range v" "v \<noteq> - (2 ^ 31)"
  then have "nat \<bar>v\<bar> < 10 ^ Suc 9" by (auto simp: int_range_def)
  then have len: "length (num_str 10 (nat \<bar>v\<bar>)) \<le> Suc 9" by (rule length_num_str [rotated]) simp
  have "dec_loop \<bar>v\<bar> [] = rev (num_str 10 (nat \<bar>v\<bar>))" if "v \<noteq> 0"
    using dec_loop_str [of "nat \<bar>v\<bar>" "[]"] len that by simp
  moreover have "v < 0 \<Longrightarrow> c_int (- v) = Some (- v)" using v by (simp add: int_range_def)
  ultimately show ?thesis
    using len by (cases "v = 0"; cases "v < 0")
      (simp_all add: dec_buf_def int_str_def num_str.simps [of 10 0] digit_ch_def)
qed

lemma put_directive_cut:
  assumes "render (Conv c pad width) args = Some (s, args')" "c \<noteq> 0" "length r < lim" "lim < length out"
  shows "put_directive (int lim + 1) c pad width args (cut_out lim r out) (cut_len lim r)
    = Some (args', cut_out lim (r @ s) out, cut_len lim (r @ s))"
proof -
  consider "c = ch CHR ''s''" | "c = ch CHR ''d''" | "c = ch CHR ''c''"
    | "c \<noteq> ch CHR ''s''" "c \<noteq> ch CHR ''d''" "c \<noteq> ch CHR ''c''" by blast
  then show ?thesis
  proof cases
    case 1
    then obtain t where "args = VaStr t # args'" "s = cstr t" "0 \<in> set t"
      using assms(1) by (auto split: list.splits va_arg.splits if_splits)
    with 1 put_str_cut [OF _ assms(4)] show ?thesis by (simp add: put_directive_def)
  next
    case 2
    then obtain v where v: "args = VaInt v # args'" "int_range v" "v \<noteq> - (2 ^ 31)"
      "s = replicate (nat width - length (int_str v)) pad @ int_str v"
      using assms(1) by (auto split: list.splits va_arg.splits if_splits)
    with 2 put_pad_cut [OF assms(4), of pad "length (int_str v)" width r]
      put_rev_cut [OF assms(4), of "int_str v" "r @ replicate (nat width - length (int_str v)) pad"]
    show ?thesis by (simp add: put_directive_def dec_buf_str)
  next
    case 3
    then obtain v where "args = VaInt v # args'" "s = [word_of_int v]"
      using assms(1) by (auto split: list.splits va_arg.splits if_splits)
    with 3 cut_put [OF assms(3,4)] show ?thesis by (simp add: put_directive_def)
  next
    case 4
    then have "args' = args" "s = [ch CHR ''%'', c]" using assms(1) by auto
    with 4 show ?thesis
      using cut_put [OF assms(3,4), of 37] cut_put [of "r @ [37]" lim out c] assms(2-4) cut_full(1) [of lim "r @ [37]" "[c]" out]
        cut_full(2) [of lim "r @ [37]" "[c]"]
      by (cases "length (r @ [37]) < lim") (simp_all add: put_directive_def cut_len_less)
  qed
qed

lemma snprintf_loop_cut:
  assumes "parse_fmt p = Some ds" "render_all ds args = Some s" "lim < length out"
  shows "snprintf_loop (int lim + 1) p args (cut_out lim r out) (cut_len lim r)
    = Some (cut_out lim (r @ s) out, cut_len lim (r @ s))"
  using assms(1,2)
proof (induction "length p" arbitrary: p ds args s r rule: less_induct)
  case less
  from less.prems(1) obtain c q where p: "p = c # q" by (cases p) (auto simp: parse_fmt.simps)
  note loop = snprintf_loop.simps [of _ p] and parse = parse_fmt.simps [of "c # q"]
  consider "c = 0" | "lim \<le> length r" | "c \<noteq> 0" "c \<noteq> ch CHR ''%''" "length r < lim"
    | "c = ch CHR ''%''" "length r < lim" by linarith
  then show ?case
  proof cases
    case 1
    with less.prems show ?thesis by (subst loop) (simp add: p parse_fmt.simps [of "0 # q"])
  next
    case 2
    then show ?thesis by (subst loop) (simp add: p cut_len_less cut_full)
  next
    case 3
    with less.prems obtain ds' s' where *: "parse_fmt q = Some ds'" "render_all ds' args = Some s'" "s = c # s'"
      by (auto simp: p parse split: bind_splits)
    with less.hyps [of q ds' args s' "r @ [c]"] cut_put [OF 3(3) assms(3), of c] 3 show ?thesis
      by (subst loop) (simp add: p cut_len_less)
  next
    case 4
    with less.prems(1) obtain pad width c' q' where f: "fmt_flags q = Some (pad, width, c' # q')" "c' \<noteq> 0"
      and ds: "map_option ((#) (Conv c' pad width)) (parse_fmt q') = Some ds"
      by (auto simp: p parse_fmt.simps [of "37 # q"] split: option.splits list.splits if_splits)
    with less.prems(2) obtain ds' s1 args' s2 where *: "parse_fmt q' = Some ds'"
      "render (Conv c' pad width) args = Some (s1, args')" "render_all ds' args' = Some s2" "s = s1 @ s2"
      by (auto simp del: render.simps split: bind_splits)
    have "length q' < length p" using fmt_flags_length [OF f(1)] by (simp add: p)
    from less.hyps [OF this *(1,3), of "r @ s1"] put_directive_cut [OF *(2) f(2) 4(2) assms(3)] 4 f *(4)
    show ?thesis by (subst loop) (simp add: p cut_len_less)
  qed
qed

text \<open>
  C16: \<open>snprintf\<close> writes the rendering of the format, cut to one character less than the size, and a
  final zero, returns the number of characters written, and touches no byte behind the zero.  The
  hypotheses: the buffer really has \<open>sz\<close> bytes, at least one; every directive is complete and
  finds an argument of its type, string arguments are terminated and \<^verbatim>\<open>%d\<close> is not given the
  smallest \<open>int\<close>.
\<close>

theorem snprintf_renders:
  assumes "parse_fmt fmt = Some ds" "render_all ds args = Some s" "1 \<le> sz" "sz \<le> int (length out)"
  shows "snprintf out sz fmt args
    = (let k = min (nat sz - 1) (length s) in Some (take k s @ 0 # drop (Suc k) out, k))"
proof -
  define lim where "lim = nat sz - 1"
  have sz: "sz = int lim + 1" "lim < length out" using assms(3,4) by (auto simp: lim_def)
  define k where "k = min lim (length s)"
  have loop: "snprintf_loop sz fmt args out 0 = Some (take k s @ drop k out, k)"
    using snprintf_loop_cut [OF assms(1,2) sz(2), of "[]"]
    by (cases "lim \<le> length s") (simp_all add: sz(1) cut_out_def cut_len_def k_def)
  have "k < length out" using sz(2) by (simp add: k_def)
  then obtain y d where "drop k out = y # d" "drop (Suc k) out = d"
    using Cons_nth_drop_Suc [of k out] by (metis list.inject)
  moreover have "length (take k s) = k" by (simp add: k_def)
  then have "arr_set (take k s @ y # d) k 0 = Some (take k s @ 0 # d)"
    using arr_set_append_length [of "take k s" y d 0] by simp
  ultimately have "snprintf out sz fmt args = Some (take k s @ 0 # drop (Suc k) out, k)"
    by (simp add: snprintf_def loop)
  then show ?thesis by (simp only: k_def lim_def Let_def)
qed

theorem snprintf_renders_witness:
  "snprintf [9, 9, 9, 9, 9, 9] 5 (map of_char ''d=%03d'' @ [0]) [VaInt 42]
    = Some (map of_char ''d=04'' @ [0, 9], 4)"
  using snprintf_renders [of "map of_char ''d=%03d'' @ [0]" "[Lit 100, Lit 61, Conv 100 48 3]" "[VaInt 42]"
      "map of_char ''d=042''" 5 "[9, 9, 9, 9, 9, 9]"]
  by (simp add: parse_fmt.simps fmt_flags_def char_between_def int_range_def int_str_def num_str.simps
      digit_ch_def arr_get_def Let_def)

end
