(* ===== verification/Kheap.thy ===== *)
theory Kheap
  imports Orion_Prelude
begin

text \<open>
  The kernel heap \<^verbatim>\<open>mm/mem.c\<close>: a doubly linked list of blocks, each a 16-byte header and its
  payload, with first-fit allocation, splitting, alignment and coalescing.

  Pointers are 32-bit addresses, 0 the null pointer.  \<open>hmem\<close> is the memory read as block headers:
  the header at an address.  The page mapper \<open>vmm_map_page_alloc\<close>, which commits heap pages on
  demand, is the argument \<open>map_page\<close> with its own state; it returns 0 for success.  A loop that
  need not end (the walk along the list, the rounding of an alignment) is a partial function.
\<close>

section \<open>Model\<close>

record block_header =
  bsize :: u32
  bnext :: u32
  bprev :: u32
  bfree :: u32

record kheap =
  heap_base :: u32
  heap_curr :: u32
  heap_commit_end :: u32
  heap_end :: u32
  heap_head :: u32
  heap_tail :: u32
  hmem :: "u32 \<Rightarrow> block_header"

abbreviation HDR :: u32 where "HDR \<equiv> 16"
abbreviation MIN_BLOCK_SIZE :: u32 where "MIN_BLOCK_SIZE \<equiv> HDR + 8"

definition ALIGN_UP :: "u32 \<Rightarrow> u32 \<Rightarrow> u32" where
  "ALIGN_UP x a = (x + (a - 1)) AND NOT (a - 1)"

definition ALIGN4 :: "u32 \<Rightarrow> u32" where
  "ALIGN4 x = (x + 3) AND NOT 3"

definition PAGE_ALIGN_UP :: "u32 \<Rightarrow> u32" where
  "PAGE_ALIGN_UP x = ALIGN_UP x 0x1000"

definition align_up :: "u32 \<Rightarrow> u32 \<Rightarrow> u32" where
  "align_up val align = (if align = 0 then val else ALIGN_UP val align)"

text \<open>\<^verbatim>\<open>while (p < align) p <<= 1\<close>: it never ends when the alignment is above \<open>2^31\<close>.\<close>

partial_function (option) pow2_from :: "u32 \<Rightarrow> u32 \<Rightarrow> u32 option" where
  "pow2_from p align = (if p < align then pow2_from (push_bit 1 p) align else Some p)"

definition normalize_align :: "u32 \<Rightarrow> u32 option" where
  "normalize_align align =
     (if align < 2 then Some 0
      else do {
        align \<leftarrow> (if align AND (align - 1) \<noteq> 0 then pow2_from 1 align else Some align);
        Some (if align < 4 then 4 else align) })"

definition upd :: "u32 \<Rightarrow> (block_header \<Rightarrow> block_header) \<Rightarrow> kheap \<Rightarrow> kheap" where
  "upd a f st = st\<lparr>hmem := (hmem st)(a := f (hmem st a))\<rparr>"

definition block_end :: "kheap \<Rightarrow> u32 \<Rightarrow> u32" where
  "block_end st block = block + HDR + bsize (hmem st block)"

definition blocks_adjacent :: "kheap \<Rightarrow> u32 \<Rightarrow> u32 \<Rightarrow> bool" where
  "blocks_adjacent st a b \<longleftrightarrow> block_end st a = b"

definition split_block :: "u32 \<Rightarrow> u32 \<Rightarrow> kheap \<Rightarrow> kheap" where
  "split_block block sz st =
     (if bsize (hmem st block) \<le> sz then st
      else
        (let remaining = bsize (hmem st block) - sz in
         if remaining < MIN_BLOCK_SIZE then st
         else
           (let next = block + HDR + sz;
                st = upd next (\<lambda>h. h\<lparr>bsize := remaining - HDR\<rparr>) st;
                st = upd next (\<lambda>h. h\<lparr>bfree := 1\<rparr>) st;
                st = upd next (\<lambda>h. h\<lparr>bprev := block\<rparr>) st;
                st = upd next (\<lambda>h. h\<lparr>bnext := bnext (hmem st block)\<rparr>) st;
                st = (if bnext (hmem st block) \<noteq> 0
                      then upd (bnext (hmem st block)) (\<lambda>h. h\<lparr>bprev := next\<rparr>) st else st);
                st = upd block (\<lambda>h. h\<lparr>bnext := next\<rparr>) st;
                st = (if heap_tail st = block then st\<lparr>heap_tail := next\<rparr> else st)
            in upd block (\<lambda>h. h\<lparr>bsize := sz\<rparr>) st)))"

text \<open>The aligned header when the block fits.\<close>

definition block_can_fit :: "kheap \<Rightarrow> u32 \<Rightarrow> u32 \<Rightarrow> u32 \<Rightarrow> u32 option" where
  "block_can_fit st block sz align =
     (let start = block;
          payload = start + HDR;
          aligned_payload = (if align \<noteq> 0 then align_up payload align else payload);
          aligned_header = aligned_payload - HDR;
          end_addr = block_end st block
      in
        if end_addr < aligned_payload + sz then None
        else if aligned_header - start \<noteq> 0 \<and> aligned_header - start < MIN_BLOCK_SIZE then None
        else Some aligned_header)"

text \<open>The walk from block \<open>cur\<close>: the block found and its aligned header; 0 for none.\<close>

partial_function (option) find_block_from :: "kheap \<Rightarrow> u32 \<Rightarrow> u32 \<Rightarrow> u32 \<Rightarrow> (u32 \<times> u32) option" where
  "find_block_from st sz align cur =
     (if cur = 0 then Some (0, 0)
      else if bfree (hmem st cur) = 0 then find_block_from st sz align (bnext (hmem st cur))
      else
        (case block_can_fit st cur sz align of
           Some aligned_header \<Rightarrow> Some (cur, aligned_header)
         | None \<Rightarrow> find_block_from st sz align (bnext (hmem st cur))))"

definition find_free_block :: "kheap \<Rightarrow> u32 \<Rightarrow> u32 \<Rightarrow> (u32 \<times> u32) option" where
  "find_free_block st sz align = find_block_from st sz align (heap_head st)"

definition split_leading :: "u32 \<Rightarrow> u32 \<Rightarrow> kheap \<Rightarrow> kheap" where
  "split_leading block aligned st =
     (let end_addr = block_end st block;
          leading = aligned - block;
          lead = block;
          st = upd lead (\<lambda>h. h\<lparr>bsize := leading - HDR\<rparr>) st;
          st = upd lead (\<lambda>h. h\<lparr>bfree := 1\<rparr>) st;
          st = upd aligned (\<lambda>h. h\<lparr>bsize := end_addr - (aligned + HDR)\<rparr>) st;
          st = upd aligned (\<lambda>h. h\<lparr>bfree := 1\<rparr>) st;
          st = upd aligned (\<lambda>h. h\<lparr>bprev := lead\<rparr>) st;
          st = upd aligned (\<lambda>h. h\<lparr>bnext := bnext (hmem st lead)\<rparr>) st;
          st = (if bnext (hmem st lead) \<noteq> 0
                then upd (bnext (hmem st lead)) (\<lambda>h. h\<lparr>bprev := aligned\<rparr>) st else st);
          st = upd lead (\<lambda>h. h\<lparr>bnext := aligned\<rparr>) st
      in if heap_tail st = lead then st\<lparr>heap_tail := aligned\<rparr> else st)"

definition allocate_from_block :: "u32 \<Rightarrow> u32 \<Rightarrow> u32 \<Rightarrow> kheap \<Rightarrow> u32 \<times> kheap" where
  "allocate_from_block block aligned_header sz st =
     (let st = (if aligned_header \<noteq> block then split_leading block aligned_header st else st);
          block = (if aligned_header \<noteq> block then aligned_header else block);
          st = split_block block sz st;
          st = upd block (\<lambda>h. h\<lparr>bfree := 0\<rparr>) st
      in (block + HDR, st))"

text \<open>Committing pages one by one: the loop stops at the first page that cannot be mapped.\<close>

partial_function (option) commit_loop ::
  "(u32 \<Rightarrow> 'k \<Rightarrow> int \<times> 'k) \<Rightarrow> u32 \<Rightarrow> u32 \<Rightarrow> 'k \<Rightarrow> (bool \<times> 'k) option" where
  "commit_loop map_page addr new_end k =
     (if addr < new_end then
        (case map_page addr k of
           (r, k) \<Rightarrow> if r \<noteq> 0 then Some (False, k) else commit_loop map_page (addr + 0x1000) new_end k)
      else Some (True, k))"

definition heap_commit_to ::
  "(u32 \<Rightarrow> 'k \<Rightarrow> int \<times> 'k) \<Rightarrow> u32 \<Rightarrow> kheap \<Rightarrow> 'k \<Rightarrow> (bool \<times> kheap \<times> 'k) option" where
  "heap_commit_to map_page need_end st k =
     (let new_commit_end = PAGE_ALIGN_UP need_end in
      if new_commit_end \<le> heap_commit_end st then Some (True, st, k)
      else do {
        (ok, k) \<leftarrow> commit_loop map_page (heap_commit_end st) new_commit_end k;
        Some (if ok then (True, st\<lparr>heap_commit_end := new_commit_end\<rparr>, k) else (False, st, k)) })"

text \<open>Appending a block header behind the current tail.\<close>

definition link_tail :: "u32 \<Rightarrow> u32 \<Rightarrow> u32 \<Rightarrow> kheap \<Rightarrow> kheap" where
  "link_tail block sz fr st =
     (let st = upd block (\<lambda>h. h\<lparr>bsize := sz\<rparr>) st;
          st = upd block (\<lambda>h. h\<lparr>bfree := fr\<rparr>) st;
          st = upd block (\<lambda>h. h\<lparr>bprev := heap_tail st\<rparr>) st;
          st = upd block (\<lambda>h. h\<lparr>bnext := 0\<rparr>) st;
          st = (if heap_tail st \<noteq> 0 then upd (heap_tail st) (\<lambda>h. h\<lparr>bnext := block\<rparr>) st
                else st\<lparr>heap_head := block\<rparr>)
      in st\<lparr>heap_tail := block\<rparr>)"

definition allocate_new_block ::
  "(u32 \<Rightarrow> 'k \<Rightarrow> int \<times> 'k) \<Rightarrow> u32 \<Rightarrow> u32 \<Rightarrow> kheap \<Rightarrow> 'k \<Rightarrow> (u32 \<times> kheap \<times> 'k) option" where
  "allocate_new_block map_page sz align st k =
     (let start = heap_curr st;
          payload = start + HDR;
          aligned_payload = (if align \<noteq> 0 then align_up payload align else payload);
          aligned_header = aligned_payload - HDR;
          end_addr = aligned_header + HDR + sz
      in
        if heap_end st < end_addr then Some (0, st, k)
        else do {
          (ok, st, k) \<leftarrow> heap_commit_to map_page end_addr st k;
          Some
            (if \<not> ok then (0, st, k)
             else
               (let st =
                  (if start < aligned_header then
                     (let gap = aligned_header - start in
                      if MIN_BLOCK_SIZE \<le> gap then link_tail start (gap - HDR) 1 st
                      else if 0 < gap \<and> heap_tail st \<noteq> 0 \<and> bfree (hmem st (heap_tail st)) \<noteq> 0
                              \<and> blocks_adjacent st (heap_tail st) start
                      then upd (heap_tail st) (\<lambda>h. h\<lparr>bsize := bsize h + gap\<rparr>) st
                      else st)
                   else st);
                    st = link_tail aligned_header sz 0 st
                in (aligned_header + HDR, st\<lparr>heap_curr := end_addr\<rparr>, k))) })"

definition kmalloc_internal ::
  "(u32 \<Rightarrow> 'k \<Rightarrow> int \<times> 'k) \<Rightarrow> u32 \<Rightarrow> u32 \<Rightarrow> kheap \<Rightarrow> 'k \<Rightarrow> (u32 \<times> kheap \<times> 'k) option" where
  "kmalloc_internal map_page sz align st k =
     (if sz = 0 then Some (0, st, k)
      else do {
        align \<leftarrow> normalize_align align;
        (block, aligned_header) \<leftarrow> find_free_block st (ALIGN4 sz) align;
        if block \<noteq> 0
        then Some (case allocate_from_block block aligned_header (ALIGN4 sz) st of (p, st) \<Rightarrow> (p, st, k))
        else allocate_new_block map_page (ALIGN4 sz) align st k })"

definition kmalloc_init :: "(u32 \<Rightarrow> 'k \<Rightarrow> int \<times> 'k) \<Rightarrow> u32 \<Rightarrow> u32 \<Rightarrow> kheap \<Rightarrow> 'k \<Rightarrow> (kheap \<times> 'k) option" where
  "kmalloc_init map_page heap_start heap_end_addr st k =
     (let st = st\<lparr>heap_base := (if heap_start \<noteq> 0 then PAGE_ALIGN_UP heap_start else 0xC1000000)\<rparr>;
          st = st\<lparr>heap_end := (if heap_end_addr \<noteq> 0 then heap_end_addr else heap_base st + 64 * 1024 * 1024)\<rparr>;
          st = st\<lparr>heap_curr := heap_base st, heap_commit_end := heap_base st, heap_head := 0, heap_tail := 0\<rparr>
      in do { (_, st, k) \<leftarrow> heap_commit_to map_page (heap_base st + 1) st k; Some (st, k) })"

definition kmalloc ::
  "(u32 \<Rightarrow> 'k \<Rightarrow> int \<times> 'k) \<Rightarrow> (u32 \<Rightarrow> 'k \<Rightarrow> u32 option) \<Rightarrow> u32 \<Rightarrow> int \<Rightarrow> kheap \<Rightarrow> 'k
    \<Rightarrow> (u32 \<times> u32 \<times> kheap \<times> 'k) option" where
  "kmalloc map_page virt_to_phys sz align st k = do {
     (res, st, k) \<leftarrow> kmalloc_internal map_page sz (if align \<noteq> 0 then 0x1000 else 0) st k;
     Some (res,
       if res = 0 then 0 else case virt_to_phys res k of Some phys \<Rightarrow> phys | None \<Rightarrow> res,
       st, k) }"

definition kmalloc_aligned ::
  "(u32 \<Rightarrow> 'k \<Rightarrow> int \<times> 'k) \<Rightarrow> u32 \<Rightarrow> u32 \<Rightarrow> kheap \<Rightarrow> 'k \<Rightarrow> (u32 \<times> kheap \<times> 'k) option" where
  "kmalloc_aligned map_page sz align st k = kmalloc_internal map_page sz align st k"

definition merge_next :: "u32 \<Rightarrow> kheap \<Rightarrow> kheap" where
  "merge_next block st =
     (if bnext (hmem st block) \<noteq> 0 \<and> bfree (hmem st (bnext (hmem st block))) \<noteq> 0
         \<and> blocks_adjacent st block (bnext (hmem st block))
      then
        (let next = bnext (hmem st block);
             st = upd block (\<lambda>h. h\<lparr>bsize := bsize h + (HDR + bsize (hmem st next))\<rparr>) st;
             st = upd block (\<lambda>h. h\<lparr>bnext := bnext (hmem st next)\<rparr>) st;
             st = (if bnext (hmem st next) \<noteq> 0
                   then upd (bnext (hmem st next)) (\<lambda>h. h\<lparr>bprev := block\<rparr>) st else st)
         in if heap_tail st = next then st\<lparr>heap_tail := block\<rparr> else st)
      else st)"

definition merge_prev :: "u32 \<Rightarrow> kheap \<Rightarrow> kheap" where
  "merge_prev block st =
     (if bprev (hmem st block) \<noteq> 0 \<and> bfree (hmem st (bprev (hmem st block))) \<noteq> 0
         \<and> blocks_adjacent st (bprev (hmem st block)) block
      then
        (let prev = bprev (hmem st block);
             st = upd prev (\<lambda>h. h\<lparr>bsize := bsize h + (HDR + bsize (hmem st block))\<rparr>) st;
             st = upd prev (\<lambda>h. h\<lparr>bnext := bnext (hmem st block)\<rparr>) st;
             st = (if bnext (hmem st block) \<noteq> 0
                   then upd (bnext (hmem st block)) (\<lambda>h. h\<lparr>bprev := prev\<rparr>) st else st)
         in if heap_tail st = block then st\<lparr>heap_tail := prev\<rparr> else st)
      else st)"

definition kfree :: "u32 \<Rightarrow> kheap \<Rightarrow> kheap" where
  "kfree ptr st =
     (if ptr = 0 then st
      else
        (let block = ptr - HDR;
             st = upd block (\<lambda>h. h\<lparr>bfree := 1\<rparr>) st;
             st = merge_next block st
         in merge_prev block st))"

section \<open>Blocks in address order\<close>

text \<open>
  A block of the abstract list: the address of its header, the size of its payload, whether it is
  free.  \<open>seg m p bs n\<close>: the headers in memory link the blocks \<open>bs\<close> in this order, \<open>p\<close> before the
  first and \<open>n\<close> behind the last.  \<open>spaced lo bs hi\<close>: the blocks lie one behind the other between
  \<open>lo\<close> and \<open>hi\<close>.
\<close>

type_synonym blk = "u32 \<times> u32 \<times> bool"

fun hd_addr :: "blk list \<Rightarrow> u32 \<Rightarrow> u32" where
  "hd_addr [] n = n"
| "hd_addr ((a, s, f) # bs) n = a"

fun last_addr :: "blk list \<Rightarrow> u32 \<Rightarrow> u32" where
  "last_addr [] p = p"
| "last_addr ((a, s, f) # bs) p = last_addr bs a"

fun seg :: "(u32 \<Rightarrow> block_header) \<Rightarrow> u32 \<Rightarrow> blk list \<Rightarrow> u32 \<Rightarrow> bool" where
  "seg m p [] n \<longleftrightarrow> True"
| "seg m p ((a, s, f) # bs) n \<longleftrightarrow>
     m a = \<lparr>bsize = s, bnext = hd_addr bs n, bprev = p, bfree = (if f then 1 else 0)\<rparr> \<and> seg m a bs n"

fun spaced :: "nat \<Rightarrow> blk list \<Rightarrow> nat \<Rightarrow> bool" where
  "spaced lo [] hi \<longleftrightarrow> lo \<le> hi"
| "spaced lo ((a, s, f) # bs) hi \<longleftrightarrow> lo \<le> unat a \<and> spaced (unat a + 16 + unat s) bs hi"

definition addrs :: "blk list \<Rightarrow> u32 set" where
  "addrs bs = fst ` set bs"

lemma addrs_simps [simp]:
  "addrs [] = {}" "addrs ((a, s, f) # bs) = insert a (addrs bs)" "addrs (xs @ ys) = addrs xs \<union> addrs ys"
  "fst ` set bs = addrs bs"
  by (auto simp: addrs_def)

lemma hd_addr_append [simp]: "hd_addr (xs @ ys) n = hd_addr xs (hd_addr ys n)"
  by (cases xs) auto

lemma last_addr_append [simp]: "last_addr (xs @ ys) p = last_addr ys (last_addr xs p)"
  by (induction xs arbitrary: p) auto

lemma seg_append [simp]:
  "seg m p (xs @ ys) n \<longleftrightarrow> seg m p xs (hd_addr ys n) \<and> seg m (last_addr xs p) ys n"
  by (induction xs arbitrary: p) auto

lemma seg_cong: "(\<And>a. a \<in> addrs bs \<Longrightarrow> m' a = m a) \<Longrightarrow> seg m' p bs n = seg m p bs n"
  by (induction bs arbitrary: p) auto

lemma spaced_le: "spaced lo bs hi \<Longrightarrow> lo \<le> hi"
  by (induction bs arbitrary: lo) fastforce+

lemma spaced_append:
  "spaced lo (xs @ ys) hi \<longleftrightarrow> (\<exists>mid. spaced lo xs mid \<and> spaced mid ys hi)"
proof (induction xs arbitrary: lo)
  case Nil
  show ?case
  proof
    assume "spaced lo ([] @ ys) hi"
    then show "\<exists>mid. spaced lo [] mid \<and> spaced mid ys hi" by auto
  next
    assume "\<exists>mid. spaced lo [] mid \<and> spaced mid ys hi"
    then show "spaced lo ([] @ ys) hi" by (cases ys) auto
  qed
qed auto

lemma spaced_bounds:
  "spaced lo bs hi \<Longrightarrow> (a, s, f) \<in> set bs \<Longrightarrow> lo \<le> unat a \<and> unat a + 16 + unat s \<le> hi"
proof (induction bs arbitrary: lo)
  case (Cons b bs)
  then show ?case by (cases b) (fastforce dest: spaced_le)
qed simp

lemma spaced_disjoint_addr:
  assumes "spaced lo (xs @ (a, s, f) # ys) hi"
  shows "(b, t, g) \<in> set xs \<Longrightarrow> unat b + 16 + unat t \<le> unat a"
    "(b, t, g) \<in> set ys \<Longrightarrow> unat a + 16 + unat s \<le> unat b"
  using assms by (auto simp: spaced_append dest: spaced_bounds)

lemma spaced_mono: "spaced lo bs hi \<Longrightarrow> lo' \<le> lo \<Longrightarrow> hi \<le> hi' \<Longrightarrow> spaced lo' bs hi'"
  by (induction bs arbitrary: lo lo') auto

lemma spaced_distinct: "spaced lo bs hi \<Longrightarrow> distinct (map fst bs)"
proof (induction bs arbitrary: lo)
  case (Cons b bs)
  obtain a s f where b: "b = (a, s, f)" by (cases b)
  have "unat a < unat c" if "(c, t, g) \<in> set bs" for c t g
    using spaced_bounds [of "unat a + 16 + unat s" bs hi c t g] Cons.prems that by (simp add: b)
  then have "a \<notin> addrs bs" by (fastforce simp: addrs_def simp del: addrs_simps)
  with Cons show ?case by (auto simp: b)
qed simp

lemma spaced_nonzero: "spaced lo bs hi \<Longrightarrow> 0 < lo \<Longrightarrow> a \<in> addrs bs \<Longrightarrow> a \<noteq> 0"
  using spaced_bounds [of lo bs hi] by (fastforce simp: addrs_def simp del: addrs_simps)

lemma last_addr_eq: "bs \<noteq> [] \<Longrightarrow> last_addr bs p = fst (last bs)"
  by (induction bs arbitrary: p) auto

lemma hd_addr_cases: "hd_addr ys n = n \<and> ys = [] \<or> hd_addr ys n \<in> addrs ys"
  by (cases ys) auto

text \<open>Giving the first block of a segment another predecessor.\<close>

definition set_prev :: "u32 \<Rightarrow> u32 \<Rightarrow> (u32 \<Rightarrow> block_header) \<Rightarrow> u32 \<Rightarrow> block_header" where
  "set_prev x p m = (if x = 0 then m else m(x := (m x)\<lparr>bprev := p\<rparr>))"

lemma seg_set_prev:
  assumes "seg m p ys n" "distinct (map fst ys)" "0 \<notin> addrs ys"
  shows "seg (set_prev (hd_addr ys 0) q m) q ys n"
proof (cases ys)
  case (Cons y ys')
  obtain a s f where "y = (a, s, f)" by (cases y)
  moreover have "seg (m(a := h)) a ys' n = seg m a ys' n" for h
    using assms(2) Cons calculation by (intro seg_cong) auto
  ultimately show ?thesis using assms(1,3) Cons by (auto simp: set_prev_def)
qed simp

lemma seg_set_prev_other:
  "hd_addr ys 0 \<notin> addrs bs \<Longrightarrow> seg (set_prev (hd_addr ys 0) q m) p bs n = seg m p bs n"
  by (rule seg_cong) (auto simp: set_prev_def)

text \<open>Replacing blocks of the list by others that start at the same address.\<close>

lemma seg_splice:
  assumes old: "seg m 0 (xs @ B @ ys) 0"
    and same: "hd_addr B 0 = hd_addr C 0" "B \<noteq> []" "C \<noteq> []"
    and new: "seg m' (last_addr xs 0) C (hd_addr ys 0)"
    and frame: "\<And>b. b \<in> addrs xs \<union> addrs ys \<Longrightarrow> m' b = m b"
    and dist: "distinct (map fst (xs @ C @ ys))" "0 \<notin> addrs (xs @ C @ ys)"
  shows "seg (set_prev (hd_addr ys 0) (last_addr C 0) m') 0 (xs @ C @ ys) 0"
proof -
  have ne: "hd_addr B k = hd_addr B 0" "hd_addr C k = hd_addr C 0" "last_addr C k = last_addr C 0" for k
    using same by (cases B; cases C; auto)+
  have notin: "hd_addr ys 0 \<notin> addrs xs \<union> addrs C"
    using hd_addr_cases [of ys 0] dist by auto
  have "seg m' 0 xs (hd_addr C 0)"
    using old same(1) ne(1) [of "hd_addr ys 0"] seg_cong [of xs m' m] frame by auto
  moreover have "seg m' (last_addr (xs @ B) 0) ys 0"
    using old seg_cong [of ys m' m] frame by auto
  ultimately show ?thesis
    using new notin dist ne(2) [of "hd_addr ys 0"] ne(3) [of "last_addr xs 0"]
      seg_set_prev [of m' "last_addr (xs @ B) 0" ys 0 "last_addr C 0"]
    by (simp add: seg_set_prev_other)
qed

section \<open>The invariant of the heap\<close>

fun blk4 :: "blk \<Rightarrow> bool" where
  "blk4 (a, s, f) \<longleftrightarrow> 4 dvd unat a \<and> 4 dvd unat s"

definition kinv :: "kheap \<Rightarrow> blk list \<Rightarrow> bool" where
  "kinv st bs \<longleftrightarrow> heap_head st = hd_addr bs 0 \<and> heap_tail st = last_addr bs 0 \<and> seg (hmem st) 0 bs 0
    \<and> spaced (unat (heap_base st)) bs (unat (heap_curr st)) \<and> 0 < unat (heap_base st)
    \<and> unat (heap_curr st) \<le> unat (heap_end st) \<and> 4 dvd unat (heap_curr st)
    \<and> list_all blk4 bs"

definition used :: "blk list \<Rightarrow> (u32 \<times> u32) list" where
  "used bs = map (\<lambda>(a, s, f). (a, s)) (filter (\<lambda>(a, s, f). \<not> f) bs)"

lemma used_simps [simp]:
  "used [] = []" "used ((a, s, f) # bs) = (if f then used bs else (a, s) # used bs)"
  "used (xs @ ys) = used xs @ used ys"
  by (simp_all add: used_def)

lemma kinv_header:
  "kinv st (xs @ (a, s, f) # ys) \<Longrightarrow>
    hmem st a = \<lparr>bsize = s, bnext = hd_addr ys 0, bprev = last_addr xs 0, bfree = (if f then 1 else 0)\<rparr>"
  by (simp add: kinv_def)

lemma kinv_dist: "kinv st bs \<Longrightarrow> distinct (map fst bs) \<and> 0 \<notin> addrs bs"
  unfolding kinv_def using spaced_distinct spaced_nonzero by blast

text \<open>A step that only replaces blocks in the middle of the list keeps the invariant.\<close>

lemma kinv_splice:
  assumes inv: "kinv st (xs @ B @ ys)"
    and same: "hd_addr B 0 = hd_addr C 0" "B \<noteq> []" "C \<noteq> []"
    and new: "seg m' (last_addr xs 0) C (hd_addr ys 0)"
    and frame: "\<And>b. b \<in> addrs xs \<union> addrs ys \<Longrightarrow> m' b = hmem st b"
    and sp: "spaced (unat (heap_base st)) (xs @ C @ ys) (unat (heap_curr st))"
    and al: "list_all blk4 C"
  shows "kinv (st\<lparr>hmem := set_prev (hd_addr ys 0) (last_addr C 0) m',
      heap_tail := (if ys = [] then last_addr C 0 else heap_tail st)\<rparr>) (xs @ C @ ys)"
proof -
  have dist: "distinct (map fst (xs @ C @ ys))" "0 \<notin> addrs (xs @ C @ ys)"
    using spaced_distinct [OF sp] spaced_nonzero [OF sp] inv by (auto simp: kinv_def)
  have "seg (set_prev (hd_addr ys 0) (last_addr C 0) m') 0 (xs @ C @ ys) 0"
    using inv same new frame dist by (intro seg_splice [of "hmem st" xs B]) (auto simp: kinv_def)
  moreover have "hd_addr (xs @ C @ ys) 0 = hd_addr (xs @ B @ ys) 0"
    using same by (cases B; cases C) auto
  moreover have "last_addr (xs @ C @ ys) 0 = (if ys = [] then last_addr C 0 else last_addr (xs @ B @ ys) 0)"
    using same by (cases ys; cases C) auto
  ultimately show ?thesis using inv sp al by (auto simp: kinv_def)
qed

lemma kinv_bounds:
  assumes "kinv st (xs @ (a, s, f) # ys)"
  shows "unat a + 16 + unat s \<le> unat (heap_curr st)" "unat a + 16 + unat s < 2 ^ 32"
    "4 dvd unat a" "4 dvd unat s" "a \<noteq> 0" "hd_addr ys 0 = 0 \<longleftrightarrow> ys = []" "hd_addr ys 0 \<noteq> a"
    "heap_tail st = a \<longleftrightarrow> ys = []"
proof -
  from assms show b: "unat a + 16 + unat s \<le> unat (heap_curr st)"
    unfolding kinv_def by (auto dest: spaced_bounds [of _ _ _ a s f])
  then show "unat a + 16 + unat s < 2 ^ 32" using unat_lt_exp [of "heap_curr st"] by simp
  from assms show "4 dvd unat a" "4 dvd unat s" by (simp_all add: kinv_def)
  have d: "distinct (map fst (xs @ (a, s, f) # ys))" "0 \<notin> addrs (xs @ (a, s, f) # ys)"
    using kinv_dist [OF assms] by blast+
  then show "a \<noteq> 0" by simp
  show "hd_addr ys 0 = 0 \<longleftrightarrow> ys = []" "hd_addr ys 0 \<noteq> a"
    using d hd_addr_cases [of ys 0] by auto
  have "ys \<noteq> [] \<Longrightarrow> last_addr ys a \<in> addrs ys" by (simp add: last_addr_eq addrs_def del: addrs_simps(4))
  with d show "heap_tail st = a \<longleftrightarrow> ys = []" using assms by (cases "ys = []") (auto simp: kinv_def)
qed

lemma upd_simps [simp]:
  "hmem (upd a f st) = (hmem st)(a := f (hmem st a))" "heap_tail (upd a f st) = heap_tail st"
  "heap_head (upd a f st) = heap_head st" "heap_base (upd a f st) = heap_base st"
  "heap_curr (upd a f st) = heap_curr st" "heap_end (upd a f st) = heap_end st"
  "heap_commit_end (upd a f st) = heap_commit_end st"
  by (simp_all add: upd_def)

text \<open>What the sequences of header writes amount to, the neighbours being different addresses.\<close>

lemma split_block_eq:
  assumes "hmem st a = \<lparr>bsize = s, bnext = nx, bprev = p, bfree = q\<rparr>" "\<not> s \<le> sz" "\<not> s - sz < 24"
    "a + 16 + sz = w" "w \<noteq> a" "nx \<noteq> a" "nx \<noteq> w"
  shows "split_block a sz st = st\<lparr>
    hmem := set_prev nx w ((hmem st)(a := \<lparr>bsize = sz, bnext = w, bprev = p, bfree = q\<rparr>,
      w := \<lparr>bsize = s - sz - 16, bnext = nx, bprev = a, bfree = 1\<rparr>)),
    heap_tail := (if heap_tail st = a then w else heap_tail st)\<rparr>"
  using assms by (intro kheap.equality; cases "nx = 0")
    (simp_all add: split_block_def set_prev_def Let_def fun_eq_iff)

lemma split_block_id:
  assumes "bsize (hmem st a) = s" "s \<le> sz \<or> s - sz < 24"
  shows "split_block a sz st = st"
proof -
  have "HDR + 8 = 24" by simp
  with assms show ?thesis by (elim disjE) (simp_all only: split_block_def Let_def if_True if_cancel)
qed

lemma split_leading_eq:
  assumes "hmem st a = \<lparr>bsize = s, bnext = nx, bprev = p, bfree = q\<rparr>" "w \<noteq> a" "nx \<noteq> a" "nx \<noteq> w"
  shows "split_leading a w st = st\<lparr>
    hmem := set_prev nx w ((hmem st)(a := \<lparr>bsize = w - a - 16, bnext = w, bprev = p, bfree = 1\<rparr>,
      w := \<lparr>bsize = a + 16 + s - (w + 16), bnext = nx, bprev = a, bfree = 1\<rparr>)),
    heap_tail := (if heap_tail st = a then w else heap_tail st)\<rparr>"
  using assms by (intro kheap.equality; cases "nx = 0")
    (simp_all add: split_leading_def set_prev_def block_end_def Let_def fun_eq_iff)

lemma merge_next_eq:
  assumes "hmem st a = \<lparr>bsize = s, bnext = b, bprev = p, bfree = q\<rparr>" "b \<noteq> 0"
    "hmem st b = \<lparr>bsize = t, bnext = nx, bprev = p', bfree = 1\<rparr>"
    "a + 16 + s = b" "b \<noteq> a" "nx \<noteq> a" "nx \<noteq> b"
  shows "merge_next a st = st\<lparr>
    hmem := set_prev nx a ((hmem st)(a := \<lparr>bsize = s + (16 + t), bnext = nx, bprev = p, bfree = q\<rparr>)),
    heap_tail := (if heap_tail st = b then a else heap_tail st)\<rparr>"
  using assms by (intro kheap.equality; cases "nx = 0")
    (simp_all add: merge_next_def blocks_adjacent_def block_end_def set_prev_def Let_def fun_eq_iff)

lemma merge_prev_eq:
  assumes "hmem st a = \<lparr>bsize = s, bnext = b, bprev = p, bfree = 1\<rparr>" "a \<noteq> 0"
    "hmem st b = \<lparr>bsize = t, bnext = nx, bprev = a, bfree = q\<rparr>"
    "a + 16 + s = b" "b \<noteq> a" "nx \<noteq> a" "nx \<noteq> b"
  shows "merge_prev b st = st\<lparr>
    hmem := set_prev nx a ((hmem st)(a := \<lparr>bsize = s + (16 + t), bnext = nx, bprev = p, bfree = 1\<rparr>)),
    heap_tail := (if heap_tail st = b then a else heap_tail st)\<rparr>"
  using assms by (intro kheap.equality; cases "nx = 0")
    (simp_all add: merge_prev_def blocks_adjacent_def block_end_def set_prev_def Let_def fun_eq_iff)

lemma link_tail_eq:
  assumes "a \<noteq> heap_tail st"
  shows "link_tail a s q st = st\<lparr>
    hmem := (if heap_tail st = 0 then hmem st
             else (hmem st)(heap_tail st := (hmem st (heap_tail st))\<lparr>bnext := a\<rparr>))
          (a := \<lparr>bsize = s, bnext = 0, bprev = heap_tail st, bfree = q\<rparr>),
    heap_head := (if heap_tail st = 0 then a else heap_head st), heap_tail := a\<rparr>"
  using assms by (intro kheap.equality; cases "heap_tail st = 0")
    (simp_all add: link_tail_def Let_def fun_eq_iff)

text \<open>Cutting a block in two: the headers written by \<open>split_block\<close> and by \<open>split_leading\<close>.\<close>

abbreviation mkh :: "u32 \<Rightarrow> u32 \<Rightarrow> u32 \<Rightarrow> bool \<Rightarrow> block_header" where
  "mkh s n p f \<equiv> \<lparr>bsize = s, bnext = n, bprev = p, bfree = (if f then 1 else 0)\<rparr>"

definition cut_state :: "kheap \<Rightarrow> blk list \<Rightarrow> u32 \<Rightarrow> u32 \<Rightarrow> bool \<Rightarrow> u32 \<Rightarrow> u32 \<Rightarrow> bool \<Rightarrow> blk list \<Rightarrow> kheap" where
  "cut_state st xs a s1 f1 w s2 f2 ys = st\<lparr>hmem := set_prev (hd_addr ys 0) w
      ((hmem st)(a := mkh s1 w (last_addr xs 0) f1, w := mkh s2 (hd_addr ys 0) a f2)),
    heap_tail := (if ys = [] then w else heap_tail st)\<rparr>"

lemma cut_spaced:
  assumes inv: "kinv st (xs @ (a, s, f) # ys)"
    and w: "unat w = unat a + 16 + unat s1" "unat a + 16 + unat s = unat w + 16 + unat s2"
  shows "spaced (unat (heap_base st)) (xs @ [(a, s1, f1), (w, s2, f2)] @ ys) (unat (heap_curr st))"
    "distinct (map fst (xs @ [(a, s1, f1), (w, s2, f2)] @ ys))"
    "0 \<notin> addrs (xs @ [(a, s1, f1), (w, s2, f2)] @ ys)" "hd_addr ys 0 \<noteq> w"
proof -
  from inv obtain mid where mid: "spaced (unat (heap_base st)) xs mid" "mid \<le> unat a"
    "spaced (unat a + 16 + unat s) ys (unat (heap_curr st))" "0 < unat (heap_base st)"
    by (auto simp: kinv_def spaced_append)
  then show sp: "spaced (unat (heap_base st)) (xs @ [(a, s1, f1), (w, s2, f2)] @ ys) (unat (heap_curr st))"
    using w by (auto simp: spaced_append)
  show d: "distinct (map fst (xs @ [(a, s1, f1), (w, s2, f2)] @ ys))"
    "0 \<notin> addrs (xs @ [(a, s1, f1), (w, s2, f2)] @ ys)"
    using spaced_distinct [OF sp] spaced_nonzero [OF sp mid(4)] by blast+
  then show "hd_addr ys 0 \<noteq> w" using hd_addr_cases [of ys 0] by auto
qed

lemma kinv_cut:
  assumes inv: "kinv st (xs @ (a, s, f) # ys)"
    and w: "unat w = unat a + 16 + unat s1" "unat a + 16 + unat s = unat w + 16 + unat s2"
    and al: "4 dvd unat s1" "4 dvd unat s2"
  shows "kinv (cut_state st xs a s1 f1 w s2 f2 ys) (xs @ [(a, s1, f1), (w, s2, f2)] @ ys)"
proof -
  let ?C = "[(a, s1, f1), (w, s2, f2)]"
  define m where "m = (hmem st)(a := mkh s1 w (last_addr xs 0) f1, w := mkh s2 (hd_addr ys 0) a f2)"
  note d = cut_spaced(2,3) [OF inv w, of f1 f2]
  have inv': "kinv st (xs @ [(a, s, f)] @ ys)" using inv by simp
  have seg: "seg m (last_addr xs 0) ?C (hd_addr ys 0)" using d by (auto simp: m_def)
  have frame: "m b = hmem st b" if "b \<in> addrs xs \<union> addrs ys" for b using d that by (auto simp: m_def)
  have al': "list_all blk4 ?C" using al w(1) kinv_bounds(3) [OF inv] by simp
  have "kinv (st\<lparr>hmem := set_prev (hd_addr ys 0) (last_addr ?C 0) m,
      heap_tail := (if ys = [] then last_addr ?C 0 else heap_tail st)\<rparr>) (xs @ ?C @ ys)"
    by (rule kinv_splice [OF inv' _ _ _ seg frame cut_spaced(1) [OF inv w] al']) simp_all
  then show ?thesis by (simp only: cut_state_def m_def last_addr.simps)
qed

lemma split_block_inv:
  assumes inv: "kinv st (xs @ (a, s, f) # ys)" and sz: "4 dvd unat sz" "sz \<le> s"
  shows "\<exists>t C. kinv (split_block a sz st) (xs @ (a, t, f) # C @ ys) \<and> used C = [] \<and> sz \<le> t"
proof (cases "s \<le> sz \<or> s - sz < 24")
  case True
  then have "split_block a sz st = st" using kinv_header [OF inv] by (intro split_block_id) simp_all
  with inv sz(2) show ?thesis by (intro exI [of _ s] exI [of _ "[]"]) simp
next
  case False
  define w where "w = a + 16 + sz"
  have b: "unat a + 16 + unat s < 2 ^ 32" using kinv_bounds(2) [OF inv] .
  have un: "unat sz \<le> unat s" "unat (s - sz) = unat s - unat sz" "24 \<le> unat s - unat sz"
    using sz(2) False unat_sub [OF sz(2)] by (auto simp: word_le_nat_alt word_less_nat_alt)
  have w: "unat w = unat a + 16 + unat sz"
    using b un unfolding w_def by (simp add: unat_add_no_wrap)
  have s2: "unat (s - sz - 16) = unat s - unat sz - 16"
    using un unat_sub [of 16 "s - sz"] by (simp add: word_le_nat_alt)
  then have w2: "unat a + 16 + unat s = unat w + 16 + unat (s - sz - 16)" using un w by simp
  have al: "4 dvd unat (s - sz - 16)" using s2 sz(1) kinv_bounds(4) [OF inv] by (simp add: dvd_diff_nat)
  note d = cut_spaced(2,3) [OF inv w w2, of f True] cut_spaced(4) [OF inv w w2]
  have nf: "\<not> s \<le> sz" "\<not> s - sz < 24" using False by blast+
  have ne: "w \<noteq> a" using d by auto
  have "split_block a sz st = cut_state st xs a sz f w (s - sz - 16) True ys"
    unfolding split_block_eq [OF kinv_header [OF inv] nf w_def [symmetric] ne kinv_bounds(7) [OF inv] d(3)]
    by (simp only: cut_state_def kinv_bounds(8) [OF inv] if_True)
  with kinv_cut [OF inv w w2 sz(1) al, of f True] show ?thesis
    by (intro exI [of _ sz] exI [of _ "[(w, s - sz - 16, True)]"]) simp
qed

text \<open>Changing the status of a block.\<close>

lemma kinv_set_free:
  assumes inv: "kinv st (xs @ (a, s, f) # ys)"
  shows "kinv (upd a (\<lambda>h. h\<lparr>bfree := (if g then 1 else 0)\<rparr>) st) (xs @ (a, s, g) # ys)"
proof -
  have d: "distinct (map fst (xs @ (a, s, f) # ys))" using kinv_dist [OF inv] by blast
  then have "seg ((hmem st)(a := h)) p xs n = seg (hmem st) p xs n"
    "seg ((hmem st)(a := h)) p ys n = seg (hmem st) p ys n" for h p n
    by (auto intro!: seg_cong)
  with inv show ?thesis by (auto simp: kinv_def spaced_append)
qed

text \<open>Joining two adjacent blocks: the headers written by \<open>merge_next\<close> and by \<open>merge_prev\<close>.\<close>

definition join_state :: "kheap \<Rightarrow> blk list \<Rightarrow> u32 \<Rightarrow> u32 \<Rightarrow> bool \<Rightarrow> blk list \<Rightarrow> kheap" where
  "join_state st xs a s f ys = st\<lparr>hmem := set_prev (hd_addr ys 0) a
      ((hmem st)(a := mkh s (hd_addr ys 0) (last_addr xs 0) f)),
    heap_tail := (if ys = [] then a else heap_tail st)\<rparr>"

lemma kinv_join:
  assumes inv: "kinv st (xs @ (a, s, f) # (b, t, g) # ys)" and adj: "a + 16 + s = b"
  shows "kinv (join_state st xs a (s + (16 + t)) f ys) (xs @ (a, s + (16 + t), f) # ys)"
    "unat (s + (16 + t)) = unat s + 16 + unat t"
proof -
  let ?B = "[(a, s, f), (b, t, g)]" and ?C = "[(a, s + (16 + t), f)]"
  have bnd: "unat a + 16 + unat s < 2 ^ 32" using kinv_bounds(2) [OF inv] .
  then have b: "unat b = unat a + 16 + unat s"
    unfolding adj [symmetric] by (simp add: unat_add_no_wrap)
  have bnd2: "unat b + 16 + unat t < 2 ^ 32"
    using kinv_bounds(2) [of st "xs @ [(a, s, f)]" b t g ys] inv by simp
  with b show st: "unat (s + (16 + t)) = unat s + 16 + unat t"
    by (simp add: unat_add_no_wrap)
  have inv': "kinv st (xs @ ?B @ ys)" using inv by simp
  from inv obtain mid where mid: "spaced (unat (heap_base st)) xs mid" "mid \<le> unat a"
    "spaced (unat b + 16 + unat t) ys (unat (heap_curr st))"
    by (auto simp: kinv_def spaced_append)
  have sp: "spaced (unat (heap_base st)) (xs @ ?C @ ys) (unat (heap_curr st))"
    using mid b st by (auto simp: spaced_append add.assoc)
  define m where "m = (hmem st)(a := mkh (s + (16 + t)) (hd_addr ys 0) (last_addr xs 0) f)"
  have d: "distinct (map fst (xs @ ?B @ ys))" using kinv_dist [OF inv'] by blast
  have seg: "seg m (last_addr xs 0) ?C (hd_addr ys 0)" by (simp add: m_def)
  have frame: "m x = hmem st x" if "x \<in> addrs xs \<union> addrs ys" for x using d that by (auto simp: m_def)
  have "4 dvd unat a" "4 dvd unat s" "4 dvd unat t" using inv by (simp_all add: kinv_def)
  then have al: "list_all blk4 ?C" using st by simp
  have "kinv (st\<lparr>hmem := set_prev (hd_addr ys 0) (last_addr ?C 0) m,
      heap_tail := (if ys = [] then last_addr ?C 0 else heap_tail st)\<rparr>) (xs @ ?C @ ys)"
    by (rule kinv_splice [OF inv' _ _ _ seg frame sp al]) simp_all
  then show "kinv (join_state st xs a (s + (16 + t)) f ys) (xs @ (a, s + (16 + t), f) # ys)"
    by (simp only: join_state_def m_def last_addr.simps append.simps)
qed

lemma kinv_neighbours:
  assumes inv: "kinv st (xs @ (a, s, f) # (b, t, g) # ys)"
  shows "hmem st a = mkh s b (last_addr xs 0) f" "hmem st b = mkh t (hd_addr ys 0) a g"
    "a \<noteq> 0" "b \<noteq> 0" "b \<noteq> a" "hd_addr ys 0 \<noteq> a" "hd_addr ys 0 \<noteq> b" "heap_tail st = b \<longleftrightarrow> ys = []"
proof -
  have inv2: "kinv st ((xs @ [(a, s, f)]) @ (b, t, g) # ys)" using inv by simp
  show "hmem st a = mkh s b (last_addr xs 0) f" "hmem st b = mkh t (hd_addr ys 0) a g"
    using kinv_header [OF inv] kinv_header [OF inv2] by simp_all
  show "a \<noteq> 0" "b \<noteq> 0" "heap_tail st = b \<longleftrightarrow> ys = []" "hd_addr ys 0 \<noteq> b"
    using kinv_bounds [OF inv] kinv_bounds [OF inv2] by blast+
  have d: "distinct (map fst (xs @ (a, s, f) # (b, t, g) # ys))" using kinv_dist [OF inv] by blast
  then show "b \<noteq> a" by auto
  show "hd_addr ys 0 \<noteq> a" using d hd_addr_cases [of ys 0] \<open>a \<noteq> 0\<close> by auto
qed

lemma merge_next_inv:
  assumes inv: "kinv st (xs @ (a, s, True) # ys)"
  shows "\<exists>t zs. kinv (merge_next a st) (xs @ (a, t, True) # zs) \<and> used zs = used ys"
proof (cases "\<exists>b t zs. ys = (b, t, True) # zs \<and> a + 16 + s = b")
  case True
  then obtain b t zs where ys: "ys = (b, t, True) # zs" "a + 16 + s = b" by blast
  with inv have inv': "kinv st (xs @ (a, s, True) # (b, t, True) # zs)" by simp
  note n = kinv_neighbours [OF inv']
  have hb: "hmem st b = \<lparr>bsize = t, bnext = hd_addr zs 0, bprev = a, bfree = 1\<rparr>" using n(2) by simp
  have "merge_next a st = join_state st xs a (s + (16 + t)) True zs"
    unfolding merge_next_eq [OF n(1) n(4) hb ys(2) n(5-7)]
    by (simp only: join_state_def n(8))
  with kinv_join(1) [OF inv' ys(2)] show ?thesis by (auto simp: ys(1))
next
  case False
  have "merge_next a st = st"
  proof (cases ys)
    case Nil
    with kinv_header [OF inv] show ?thesis by (simp add: merge_next_def)
  next
    case (Cons y zs)
    obtain b t g where y: "y = (b, t, g)" by (cases y)
    with inv Cons have inv': "kinv st (xs @ (a, s, True) # (b, t, g) # zs)" by simp
    note n = kinv_neighbours [OF inv']
    from False Cons y have "\<not> (g \<and> a + 16 + s = b)" by blast
    then show ?thesis using n(1,2)
      by (cases g) (simp_all add: merge_next_def blocks_adjacent_def block_end_def)
  qed
  with inv show ?thesis by auto
qed

lemma merge_prev_inv:
  assumes inv: "kinv st (xs @ (a, s, True) # ys)"
  shows "\<exists>bs. kinv (merge_prev a st) bs \<and> used bs = used (xs @ ys)"
proof (cases "\<exists>ws b t. xs = ws @ [(b, t, True)] \<and> b + 16 + t = a")
  case True
  then obtain ws b t where xs: "xs = ws @ [(b, t, True)]" "b + 16 + t = a" by blast
  with inv have inv': "kinv st (ws @ (b, t, True) # (a, s, True) # ys)" by simp
  note n = kinv_neighbours [OF inv']
  have hb: "hmem st b = \<lparr>bsize = t, bnext = a, bprev = last_addr ws 0, bfree = 1\<rparr>" using n(1) by simp
  have "merge_prev a st = join_state st ws b (t + (16 + s)) True ys"
    unfolding merge_prev_eq [OF hb n(3) n(2) xs(2) n(5-7)]
    by (simp only: join_state_def n(8) if_True)
  with kinv_join(1) [OF inv' xs(2)] show ?thesis by (auto simp: xs(1))
next
  case False
  have "merge_prev a st = st"
  proof (cases xs rule: rev_cases)
    case Nil
    with kinv_header [OF inv] show ?thesis by (simp add: merge_prev_def)
  next
    case (snoc ws x)
    obtain b t g where x: "x = (b, t, g)" by (cases x)
    with inv snoc have inv': "kinv st (ws @ (b, t, g) # (a, s, True) # ys)" by simp
    note n = kinv_neighbours [OF inv']
    from False snoc x have "\<not> (g \<and> b + 16 + t = a)" by blast
    then show ?thesis using n(1,2)
      by (cases g) (simp_all add: merge_prev_def blocks_adjacent_def block_end_def)
  qed
  with inv show ?thesis by auto
qed

lemma kfree_inv:
  assumes inv: "kinv st (xs @ (a, s, False) # ys)"
  shows "\<exists>bs. kinv (kfree (a + 16) st) bs \<and> used bs = used (xs @ ys)"
proof -
  have "unat (a + 16) = unat a + 16"
    using kinv_bounds(2) [OF inv] by (simp add: unat_add_no_wrap)
  then have nz: "a + 16 \<noteq> 0" by auto
  let ?st = "upd a (\<lambda>h. h\<lparr>bfree := (if True then 1 else 0)\<rparr>) st"
  have "kinv ?st (xs @ (a, s, True) # ys)" by (rule kinv_set_free [OF inv])
  from merge_next_inv [OF this] obtain t zs where m: "kinv (merge_next a ?st) (xs @ (a, t, True) # zs)"
    "used zs = used ys" by blast
  from merge_prev_inv [OF m(1)] m(2) nz show ?thesis by (simp add: kfree_def)
qed

section \<open>Alignment\<close>

text \<open>The alignments \<open>normalize_align\<close> returns: none, or a power of two that is at least 4.\<close>

definition good_align :: "u32 \<Rightarrow> bool" where
  "good_align a \<longleftrightarrow> a = 0 \<or> (\<exists>k. 2 \<le> k \<and> k < 32 \<and> unat a = 2 ^ k)"

lemma ALIGN_UP_bounds:
  assumes "unat a = 2 ^ k" "k < 32" "unat x + 2 ^ k \<le> 2 ^ 32"
  shows "unat x \<le> unat (ALIGN_UP x a)" "unat (ALIGN_UP x a) < unat x + 2 ^ k" "2 ^ k dvd unat (ALIGN_UP x a)"
proof -
  have a: "a = 2 ^ k" using assms(1,2) by (simp add: word_eq_unat_iff unat_power_lower)
  then have m: "a - 1 = mask k" by (simp add: mask_eq_exp_minus_1)
  have "unat (a - 1) = 2 ^ k - 1" using assms(1) unat_sub [of 1 a] by (simp add: word_le_nat_alt)
  then have y: "unat (x + (a - 1)) = unat x + (2 ^ k - 1)"
    using assms(3) by (subst unat_add_no_wrap) auto
  let ?y = "unat x + (2 ^ k - 1)"
  have r: "unat (ALIGN_UP x a) = ?y - ?y mod 2 ^ k"
    unfolding ALIGN_UP_def using y m by (simp only: unat_and_not_mask)
  have lt: "?y mod 2 ^ k < 2 ^ k" by (rule mod_less_divisor) simp
  show "2 ^ k dvd unat (ALIGN_UP x a)" unfolding r by (rule dvd_minus_mod)
  from r lt show "unat x \<le> unat (ALIGN_UP x a)" "unat (ALIGN_UP x a) < unat x + 2 ^ k"
    by linarith+
qed

lemma ALIGN4_bounds:
  assumes "unat x + 3 < 2 ^ 32"
  shows "unat x \<le> unat (ALIGN4 x)" "unat (ALIGN4 x) \<le> unat x + 3" "4 dvd unat (ALIGN4 x)"
proof -
  have e: "ALIGN4 x = ALIGN_UP x 4" by (simp add: ALIGN4_def ALIGN_UP_def)
  have four: "unat (4 :: u32) = 2 ^ 2" by simp
  have "unat x + 2 ^ 2 \<le> 2 ^ 32" using assms by simp
  note b = ALIGN_UP_bounds [OF four _ this]
  show "unat x \<le> unat (ALIGN4 x)" "unat (ALIGN4 x) \<le> unat x + 3" "4 dvd unat (ALIGN4 x)"
    using b unfolding e by simp_all
qed

lemma pow2_from_least:
  assumes "unat align \<le> 2 ^ 31" "i \<le> 31"
  shows "\<exists>k \<ge> i. k \<le> 31 \<and> pow2_from (2 ^ i) align = Some (2 ^ k) \<and> unat align \<le> 2 ^ k \<and> (k = i \<or> 2 ^ k < 2 * unat align)"
  using assms(2)
proof (induction "31 - i" arbitrary: i)
  case 0
  then have "unat (2 ^ i :: u32) = 2 ^ 31" by simp
  then have "\<not> 2 ^ i < align" using assms(1) by (simp add: word_less_nat_alt)
  with 0 assms(1) show ?case by (subst pow2_from.simps) (auto intro!: exI [of _ i])
next
  case (Suc x)
  then have i: "i < 31" by simp
  then have u: "unat (2 ^ i :: u32) = 2 ^ i" by (simp add: unat_power_lower)
  show ?case
  proof (cases "2 ^ i < align")
    case True
    then have "2 ^ i < unat align" by (simp add: word_less_nat_alt u)
    moreover have "push_bit 1 (2 ^ i :: u32) = 2 ^ Suc i" by (simp add: push_bit_eq_mult)
    moreover have "x = 31 - Suc i" using Suc.hyps(2) by simp
    then obtain k where "Suc i \<le> k" "k \<le> 31" "pow2_from (2 ^ Suc i) align = Some (2 ^ k)" "unat align \<le> 2 ^ k"
      "k = Suc i \<or> 2 ^ k < 2 * unat align"
      using Suc.hyps(1) [of "Suc i"] i by auto
    ultimately show ?thesis using True
      by (subst pow2_from.simps) (auto simp: mult.commute intro!: exI [of _ k])
  next
    case False
    then have "unat align \<le> 2 ^ i" by (simp add: word_less_nat_alt u)
    with False i show ?thesis by (subst pow2_from.simps) (auto intro!: exI [of _ i])
  qed
qed

lemma normalize_align_good:
  assumes "unat align \<le> 2 ^ 31"
  shows "\<exists>a. normalize_align align = Some a \<and> good_align a \<and> unat a \<le> 2 * unat align
    \<and> (2 \<le> unat align \<longrightarrow> unat align \<le> unat a)"
proof (cases "align < 2")
  case True
  then show ?thesis by (auto simp: normalize_align_def good_align_def word_less_nat_alt)
next
  case False
  then have two: "2 \<le> unat align" by (simp add: word_less_nat_alt)
  let ?r = "if align AND (align - 1) \<noteq> 0 then pow2_from 1 align else Some align"
  have "\<exists>k. 1 \<le> k \<and> k \<le> 31 \<and> ?r = Some (2 ^ k) \<and> unat align \<le> 2 ^ k \<and> 2 ^ k \<le> 2 * unat align"
  proof (cases "align AND (align - 1) \<noteq> 0")
    case True
    obtain k where k: "k \<le> 31" "pow2_from (2 ^ 0) align = Some (2 ^ k)" "unat align \<le> 2 ^ k" "k = 0 \<or> 2 ^ k < 2 * unat align"
      using pow2_from_least [OF assms, of 0] by auto
    moreover have "k \<noteq> 0" using k(3) two by (intro notI) simp
    ultimately show ?thesis using True by (intro exI [of _ k]) auto
  next
    case False
    have "unat (align - 1) = unat align - 1" using two unat_sub [of 1 align] by (simp add: word_le_nat_alt)
    then have "unat align AND (unat align - 1) = 0"
      using False by (metis unsigned_0 unsigned_and_eq)
    then obtain k where k: "unat align = 2 ^ k" using pow2_of_and_pred [of "unat align"] two by auto
    have "(2::nat) ^ k \<le> 2 ^ 31" using assms unfolding k .
    then have "k \<le> 31" by (rule power_le_imp_le_exp [rotated]) simp
    moreover from this have "align = 2 ^ k" using k by (simp add: word_eq_unat_iff unat_power_lower)
    moreover have "k \<noteq> 0" using k two by (intro notI) simp
    ultimately show ?thesis using False k by (intro exI [of _ k]) simp
  qed
  then obtain k where k: "1 \<le> k" "k \<le> 31" "?r = Some (2 ^ k)" "unat align \<le> 2 ^ k" "2 ^ k \<le> 2 * unat align" by blast
  then have u: "unat (2 ^ k :: u32) = 2 ^ k" by (simp add: unat_power_lower)
  show ?thesis
  proof (cases "k = 1")
    case True
    then have "normalize_align align = Some 4" using False k(3) by (simp add: normalize_align_def)
    then show ?thesis using two k(4) True by (auto simp: good_align_def intro!: exI [of _ "2::nat"])
  next
    case k2: False
    then have "(2::nat) ^ 2 \<le> 2 ^ k" using k(1) by (intro power_increasing) auto
    then have "\<not> (2 ^ k :: u32) < 4" by (simp add: word_less_nat_alt u)
    then have "normalize_align align = Some (2 ^ k)" using False k(3) by (simp add: normalize_align_def)
    then show ?thesis using k k2 u by (auto simp: good_align_def intro!: exI [of _ k])
  qed
qed

text \<open>The payload address a block offers, with or without an alignment.\<close>

definition aligned_payload :: "u32 \<Rightarrow> u32 \<Rightarrow> u32" where
  "aligned_payload start align = (if align \<noteq> 0 then align_up (start + 16) align else start + 16)"

lemma aligned_payload_bounds:
  assumes "good_align align" "4 dvd unat start" "unat start + 16 + unat align < 2 ^ 32"
  shows "unat start + 16 \<le> unat (aligned_payload start align)"
    "unat (aligned_payload start align) \<le> unat start + 16 + unat align"
    "4 dvd unat (aligned_payload start align)" "align \<noteq> 0 \<longrightarrow> unat align dvd unat (aligned_payload start align)"
proof -
  have p: "unat (start + 16) = unat start + 16" using assms(3) by (simp add: unat_add_no_wrap)
  have "unat start + 16 \<le> unat (aligned_payload start align)
    \<and> unat (aligned_payload start align) \<le> unat start + 16 + unat align
    \<and> 4 dvd unat (aligned_payload start align)
    \<and> (align \<noteq> 0 \<longrightarrow> unat align dvd unat (aligned_payload start align))"
  proof (cases "align = 0")
    case True
    with p assms(2) show ?thesis by (simp add: aligned_payload_def)
  next
    case False
    then obtain k where k: "2 \<le> k" "k < 32" "unat align = 2 ^ k" using assms(1) by (auto simp: good_align_def)
    have "unat (start + 16) + 2 ^ k \<le> 2 ^ 32" using assms(3) k(3) p by simp
    note b = ALIGN_UP_bounds [OF k(3,2) this]
    have "(4::nat) dvd 2 ^ k" using k(1) le_imp_power_dvd [of 2 k 2] by simp
    then have "4 dvd unat (ALIGN_UP (start + 16) align)" using b(3) dvd_trans by blast
    with b False p k(3) show ?thesis by (simp add: aligned_payload_def align_up_def)
  qed
  then show "unat start + 16 \<le> unat (aligned_payload start align)"
    "unat (aligned_payload start align) \<le> unat start + 16 + unat align"
    "4 dvd unat (aligned_payload start align)" "align \<noteq> 0 \<longrightarrow> unat align dvd unat (aligned_payload start align)"
    by blast+
qed

section \<open>Allocation\<close>

text \<open>The request does not wrap around the end of the address space.\<close>

definition fits_32 :: "kheap \<Rightarrow> u32 \<Rightarrow> u32 \<Rightarrow> bool" where
  "fits_32 st sz align \<longleftrightarrow> unat (heap_end st) + 16 + unat align + unat sz < 2 ^ 32"

lemma block_can_fit_SomeD:
  assumes inv: "kinv st (xs @ (a, s, f) # ys)" and req: "fits_32 st sz align" "good_align align"
    and fit: "block_can_fit st a sz align = Some h"
  shows "h = a \<or> unat a + 24 \<le> unat h" "unat h + 16 + unat sz \<le> unat a + 16 + unat s"
    "4 dvd unat h" "align \<noteq> 0 \<longrightarrow> unat align dvd unat h + 16" "unat a \<le> unat h"
proof -
  define ap where "ap = aligned_payload a align"
  have b: "unat a + 16 + unat s \<le> unat (heap_end st)" "4 dvd unat a"
    using kinv_bounds [OF inv] inv by (auto simp: kinv_def)
  then have "unat a + 16 + unat align < 2 ^ 32" using req(1) by (simp add: fits_32_def)
  note ap = aligned_payload_bounds [OF req(2) b(2) this, folded ap_def]
  have e: "unat (block_end st a) = unat a + 16 + unat s"
    using kinv_header [OF inv] kinv_bounds(2) [OF inv] by (simp add: block_end_def unat_add_no_wrap)
  have sum: "unat (ap + sz) = unat ap + unat sz"
    using ap(2) b(1) req(1) by (intro unat_add_no_wrap) (simp add: fits_32_def)
  have hd: "unat (ap - 16) = unat ap - 16" using ap(1) unat_sub [of 16 ap] by (simp add: word_le_nat_alt)
  have c: "\<not> block_end st a < ap + sz" "\<not> (ap - 16 - a \<noteq> 0 \<and> ap - 16 - a < 24)" "h = ap - 16"
    using fit by (simp_all add: block_can_fit_def Let_def ap_def aligned_payload_def split: if_splits)
  have h: "unat h = unat ap - 16" "unat h + 16 = unat ap" using c(3) hd ap(1) by simp_all
  show "unat h + 16 + unat sz \<le> unat a + 16 + unat s"
    using c(1) e sum h(2) by (simp add: word_less_nat_alt)
  show al: "unat a \<le> unat h" using h(1) ap(1) by simp
  have "unat (h - a) = unat h - unat a" using al unat_sub [of a h] by (simp add: word_le_nat_alt)
  then show "h = a \<or> unat a + 24 \<le> unat h"
    using c(2,3) al by (auto simp: word_less_nat_alt word_eq_unat_iff)
  show "4 dvd unat h" using h(1) ap(1,3) by (simp add: dvd_diff_nat)
  show "align \<noteq> 0 \<longrightarrow> unat align dvd unat h + 16" using h(2) ap(4) by simp
qed

lemma find_block_from_cases:
  assumes "kinv st (xs @ ys)"
  shows "find_block_from st sz align (hd_addr ys 0) = Some (0, 0)
    \<or> (\<exists>us a s vs h. ys = us @ (a, s, True) # vs \<and> block_can_fit st a sz align = Some h
        \<and> find_block_from st sz align (hd_addr ys 0) = Some (a, h))"
  using assms
proof (induction ys arbitrary: xs)
  case Nil
  then show ?case by (simp add: find_block_from.simps)
next
  case (Cons y ys)
  obtain a s f where y: "y = (a, s, f)" by (cases y)
  have inv: "kinv st (xs @ (a, s, f) # ys)" using Cons.prems y by simp
  note rec = Cons.IH [of "xs @ [y]"]
  have step: "find_block_from st sz align a =
    (if \<not> f then find_block_from st sz align (hd_addr ys 0)
     else case block_can_fit st a sz align of Some h \<Rightarrow> Some (a, h) | None \<Rightarrow> find_block_from st sz align (hd_addr ys 0))"
    using kinv_header [OF inv] kinv_bounds(5) [OF inv]
    by (subst find_block_from.simps) (simp split: option.splits)
  show ?case
  proof (cases "f \<and> block_can_fit st a sz align \<noteq> None")
    case True
    then show ?thesis using step y by (auto intro!: exI [of _ "[]"])
  next
    case False
    then have "find_block_from st sz align a = find_block_from st sz align (hd_addr ys 0)" using step by auto
    moreover have "kinv st ((xs @ [y]) @ ys)" using Cons.prems by simp
    ultimately show ?thesis using rec unfolding y by (metis append_Cons hd_addr.simps(2))
  qed
qed

lemma kinv_commit: "kinv (st\<lparr>heap_commit_end := c\<rparr>) bs = kinv st bs"
  by (simp add: kinv_def)

lemma commit_loop_returns:
  assumes "unat new_end \<le> 2 ^ 32 - 4096"
  shows "\<exists>ok k'. commit_loop map_page addr new_end k = Some (ok, k')"
proof (induction "unat new_end - unat addr" arbitrary: addr k rule: less_induct)
  case less
  show ?case
  proof (cases "addr < new_end")
    case True
    then have lt: "unat addr < unat new_end" by (simp add: word_less_nat_alt)
    then have u: "unat (addr + 0x1000) = unat addr + 4096" using assms by (subst unat_add_no_wrap) auto
    obtain r k1 where m: "map_page addr k = (r, k1)" by (cases "map_page addr k")
    have "\<exists>ok k'. commit_loop map_page (addr + 0x1000) new_end k1 = Some (ok, k')"
      using less.hyps [of "addr + 0x1000" k1] lt u by simp
    with m True show ?thesis by (subst commit_loop.simps) auto
  next
    case False
    then show ?thesis by (subst commit_loop.simps) auto
  qed
qed

lemma unat_PAGE_ALIGN_UP_le: "unat (PAGE_ALIGN_UP e) \<le> 2 ^ 32 - 4096"
proof -
  have m: "(0x1000 - 1 :: u32) = mask 12" by (simp add: mask_eq_exp_minus_1)
  define y where "y = unat (e + mask 12)"
  have "unat (PAGE_ALIGN_UP e) = y - y mod 2 ^ 12"
    unfolding PAGE_ALIGN_UP_def ALIGN_UP_def y_def m by (rule unat_and_not_mask)
  moreover have "y < 2 ^ 32" unfolding y_def using unat_lt_exp [of "e + mask 12"] by simp
  then have "y div 2 ^ 12 < 2 ^ 20" by (simp add: less_mult_imp_div_less)
  moreover have "y - y mod 2 ^ 12 = 2 ^ 12 * (y div 2 ^ 12)" by (rule minus_mod_eq_mult_div)
  ultimately show ?thesis by simp
qed

lemma heap_commit_to_returns:
  "\<exists>ok c k'. heap_commit_to map_page e st k = Some (ok, st\<lparr>heap_commit_end := c\<rparr>, k')"
proof -
  from commit_loop_returns [OF unat_PAGE_ALIGN_UP_le, of map_page "heap_commit_end st" e k] obtain ok k' where
    "commit_loop map_page (heap_commit_end st) (PAGE_ALIGN_UP e) k = Some (ok, k')" by blast
  moreover have "st = st\<lparr>heap_commit_end := heap_commit_end st\<rparr>" by simp
  ultimately show ?thesis by (cases ok) (auto simp: heap_commit_to_def Let_def intro: exI [of _ "heap_commit_end st"])
qed

text \<open>With a page mapper that never fails the commit succeeds.\<close>

lemma commit_loop_maps:
  assumes "unat new_end \<le> 2 ^ 32 - 4096" "\<forall>a k. fst (map_page a k) = 0"
  shows "\<exists>k'. commit_loop map_page addr new_end k = Some (True, k')"
proof (induction "unat new_end - unat addr" arbitrary: addr k rule: less_induct)
  case less
  show ?case
  proof (cases "addr < new_end")
    case True
    then have lt: "unat addr < unat new_end" by (simp add: word_less_nat_alt)
    then have u: "unat (addr + 0x1000) = unat addr + 4096" using assms by (subst unat_add_no_wrap) auto
    obtain k1 where m: "map_page addr k = (0, k1)" using assms(2) by (metis prod.collapse)
    have "\<exists>k'. commit_loop map_page (addr + 0x1000) new_end k1 = Some (True, k')"
      using less.hyps [of "addr + 0x1000" k1] lt u by simp
    with m True show ?thesis by (subst commit_loop.simps) auto
  next
    case False
    then show ?thesis by (subst commit_loop.simps) auto
  qed
qed

lemma heap_commit_to_maps:
  assumes "\<forall>a k. fst (map_page a k) = 0"
  shows "\<exists>c k'. heap_commit_to map_page e st k = Some (True, st\<lparr>heap_commit_end := c\<rparr>, k')"
proof -
  obtain k' where "commit_loop map_page (heap_commit_end st) (PAGE_ALIGN_UP e) k = Some (True, k')"
    using commit_loop_maps [OF unat_PAGE_ALIGN_UP_le assms] by blast
  moreover have "st = st\<lparr>heap_commit_end := heap_commit_end st\<rparr>" by simp
  ultimately show ?thesis by (auto simp: heap_commit_to_def Let_def intro: exI [of _ "heap_commit_end st"])
qed

text \<open>Taking a block from the free list.\<close>

lemma split_leading_inv:
  assumes inv: "kinv st (xs @ (a, s, True) # ys)"
    and h: "unat a + 24 \<le> unat h" "unat h + 16 \<le> unat a + 16 + unat s" "4 dvd unat h"
  shows "kinv (split_leading a h st) (xs @ [(a, h - a - 16, True), (h, a + 16 + s - (h + 16), True)] @ ys)"
    "unat (a + 16 + s - (h + 16)) = unat a + unat s - unat h"
proof -
  have bnd: "unat a + 16 + unat s < 2 ^ 32" using kinv_bounds(2) [OF inv] .
  have e: "unat (a + 16 + s) = unat a + 16 + unat s" using bnd by (simp add: unat_add_no_wrap)
  have h16: "unat (h + 16) = unat h + 16" using h(2) bnd by (subst unat_add_no_wrap) auto
  have le: "h + 16 \<le> a + 16 + s" using e h16 h(2) unfolding word_le_nat_alt by linarith
  show s2: "unat (a + 16 + s - (h + 16)) = unat a + unat s - unat h"
    unfolding unat_sub [OF le] e h16 by simp
  have ha: "unat (h - a) = unat h - unat a" using h(1) by (intro unat_sub) (simp add: word_le_nat_alt)
  then have "unat (h - a - 16) = unat h - unat a - 16"
    using h(1) unat_sub [of 16 "h - a"] by (simp add: word_le_nat_alt)
  then have w: "unat h = unat a + 16 + unat (h - a - 16)" "4 dvd unat (h - a - 16)"
    using h kinv_bounds(3) [OF inv] by (simp_all add: dvd_diff_nat)
  have w2: "unat a + 16 + unat s = unat h + 16 + unat (a + 16 + s - (h + 16))" using s2 h(2) by simp
  have "4 dvd unat (a + 16 + s - (h + 16))"
    unfolding s2 using h(3) kinv_bounds(3,4) [OF inv] by (simp add: dvd_diff_nat)
  note cut = kinv_cut [OF inv w(1) w2 w(2) this, of True True]
  have d: "h \<noteq> a" "hd_addr ys 0 \<noteq> h" using h(1) cut_spaced(4) [OF inv w(1) w2] by auto
  have "split_leading a h st = cut_state st xs a (h - a - 16) True h (a + 16 + s - (h + 16)) True ys"
    unfolding split_leading_eq [OF kinv_header [OF inv] d(1) kinv_bounds(7) [OF inv] d(2)]
    by (simp only: cut_state_def kinv_bounds(8) [OF inv] if_True)
  with cut show "kinv (split_leading a h st) (xs @ [(a, h - a - 16, True), (h, a + 16 + s - (h + 16), True)] @ ys)"
    by simp
qed

lemma split_take_inv:
  assumes inv: "kinv st (xs @ (a, s, True) # ys)" and sz: "4 dvd unat sz" "sz \<le> s"
  shows "\<exists>t C. kinv (upd a (\<lambda>h. h\<lparr>bfree := 0\<rparr>) (split_block a sz st)) (xs @ (a, t, False) # C @ ys)
    \<and> used C = [] \<and> sz \<le> t"
proof -
  obtain t C where "kinv (split_block a sz st) (xs @ (a, t, True) # C @ ys)" "used C = []" "sz \<le> t"
    using split_block_inv [OF inv sz] by blast
  then show ?thesis using kinv_set_free [of "split_block a sz st" xs a t True "C @ ys" False] by auto
qed

lemma allocate_from_block_inv:
  assumes inv: "kinv st (xs @ (a, s, True) # ys)" and sz: "4 dvd unat sz"
    and fit: "h = a \<or> unat a + 24 \<le> unat h" "unat h + 16 + unat sz \<le> unat a + 16 + unat s" "4 dvd unat h"
  shows "\<exists>st' us vs t. allocate_from_block a h sz st = (h + 16, st') \<and> kinv st' (us @ (h, t, False) # vs)
    \<and> used us = used xs \<and> used vs = used ys \<and> sz \<le> t"
proof (cases "h = a")
  case True
  then have "sz \<le> s" using fit(2) by (simp add: word_le_nat_alt)
  with split_take_inv [OF inv sz] True show ?thesis
    by (fastforce simp: allocate_from_block_def Let_def)
next
  case False
  then have h: "unat a + 24 \<le> unat h" "unat h + 16 \<le> unat a + 16 + unat s" using fit by auto
  note lead = split_leading_inv [OF inv h fit(3)]
  let ?xs = "xs @ [(a, h - a - 16, True)]" and ?s = "a + 16 + s - (h + 16)"
  have inv': "kinv (split_leading a h st) (?xs @ (h, ?s, True) # ys)" using lead(1) by simp
  have "sz \<le> ?s" using lead(2) fit(2) by (simp add: word_le_nat_alt)
  from split_take_inv [OF inv' sz this] obtain t C where
    "kinv (upd h (\<lambda>x. x\<lparr>bfree := 0\<rparr>) (split_block h sz (split_leading a h st))) (?xs @ (h, t, False) # C @ ys)"
    "used C = []" "sz \<le> t" by blast
  with False show ?thesis
    by (intro exI [of _ "upd h (\<lambda>x. x\<lparr>bfree := 0\<rparr>) (split_block h sz (split_leading a h st))"]
        exI [of _ ?xs] exI [of _ "C @ ys"] exI [of _ t])
      (simp add: allocate_from_block_def Let_def)
qed

text \<open>Appending a block behind the heap and moving the end of the heap.\<close>

lemma link_tail_inv:
  assumes inv: "kinv st bs"
    and a: "unat (heap_curr st) \<le> unat a" "unat a + 16 + unat s \<le> unat c" "unat c \<le> unat (heap_end st)"
      "4 dvd unat a" "4 dvd unat s" "4 dvd unat c"
  shows "kinv ((link_tail a s (if f then 1 else 0) st)\<lparr>heap_curr := c\<rparr>) (bs @ [(a, s, f)])"
proof -
  have sp: "spaced (unat (heap_base st)) (bs @ [(a, s, f)]) (unat c)"
    using inv a(1,2) by (auto simp: kinv_def spaced_append intro: spaced_mono)
  have d: "distinct (map fst (bs @ [(a, s, f)]))" "0 \<notin> addrs (bs @ [(a, s, f)])"
    using spaced_distinct [OF sp] spaced_nonzero [OF sp] inv by (auto simp: kinv_def)
  show ?thesis
  proof (cases bs rule: rev_cases)
    case Nil
    with inv d a sp show ?thesis by (subst link_tail_eq) (auto simp: kinv_def)
  next
    case (snoc ws b)
    obtain t u g where b: "b = (t, u, g)" by (cases b)
    with inv snoc have inv': "kinv st (ws @ [(t, u, g)])" by simp
    then have tail: "heap_tail st = t" by (simp add: kinv_def)
    let ?m = "(hmem st)(t := (hmem st t)\<lparr>bnext := a\<rparr>, a := mkh s 0 t f)"
    have "seg ?m 0 ws t = seg (hmem st) 0 ws t" using d by (intro seg_cong) (auto simp: snoc b)
    then have "seg ?m 0 (bs @ [(a, s, f)]) 0"
      using inv' kinv_header [OF inv'] d by (simp add: kinv_def snoc b)
    moreover have "link_tail a s (if f then 1 else 0) st = st\<lparr>hmem := ?m, heap_head := heap_head st, heap_tail := a\<rparr>"
      using d tail by (subst link_tail_eq) (auto simp: snoc b)
    ultimately show ?thesis using inv d a sp by (simp add: kinv_def snoc b)
  qed
qed

lemma grow_tail_inv:
  assumes inv: "kinv st (ws @ [(t, u, True)])" and adj: "t + 16 + u = heap_curr st"
    and g: "unat (heap_curr st) + unat g \<le> unat c" "unat c \<le> unat (heap_end st)" "4 dvd unat g" "4 dvd unat c"
  shows "kinv ((upd t (\<lambda>h. h\<lparr>bsize := bsize h + g\<rparr>) st)\<lparr>heap_curr := c\<rparr>) (ws @ [(t, u + g, True)])"
proof -
  have bnd: "unat t + 16 + unat u < 2 ^ 32" using kinv_bounds(2) [OF inv] .
  then have curr: "unat (heap_curr st) = unat t + 16 + unat u"
    unfolding adj [symmetric] by (simp add: unat_add_no_wrap)
  have ug: "unat (u + g) = unat u + unat g"
    using g(1) curr unat_lt_exp [of c] by (intro unat_add_no_wrap) simp
  have d: "distinct (map fst (ws @ [(t, u, True)]))" using kinv_dist [OF inv] by blast
  then have "seg ((hmem st)(t := h)) 0 ws t = seg (hmem st) 0 ws t" for h by (intro seg_cong) auto
  moreover obtain mid where "spaced (unat (heap_base st)) ws mid" "mid \<le> unat t"
    using inv by (auto simp: kinv_def spaced_append)
  ultimately show ?thesis
    using inv g ug curr kinv_header [OF inv] by (auto simp: kinv_def spaced_append)
qed

lemma link_tail_curr: "link_tail a s q (st\<lparr>heap_curr := c\<rparr>) = (link_tail a s q st)\<lparr>heap_curr := c\<rparr>"
  by (simp add: link_tail_def Let_def upd_def)

text \<open>The space between the old end of the heap and an aligned header: a free block, part of the
  last free block, or lost.\<close>

definition fill_gap :: "u32 \<Rightarrow> u32 \<Rightarrow> kheap \<Rightarrow> kheap" where
  "fill_gap start h st =
     (if start < h then
        (let gap = h - start in
         if MIN_BLOCK_SIZE \<le> gap then link_tail start (gap - HDR) 1 st
         else if 0 < gap \<and> heap_tail st \<noteq> 0 \<and> bfree (hmem st (heap_tail st)) \<noteq> 0
                 \<and> blocks_adjacent st (heap_tail st) start
         then upd (heap_tail st) (\<lambda>h. h\<lparr>bsize := bsize h + gap\<rparr>) st
         else st)
      else st)"

lemma fill_gap_inv:
  assumes inv: "kinv st bs" and start: "start = heap_curr st"
    and h: "unat start \<le> unat h" "unat h \<le> unat (heap_end st)" "4 dvd unat h"
  shows "\<exists>bs'. kinv ((fill_gap start h st)\<lparr>heap_curr := h\<rparr>) bs' \<and> used bs' = used bs"
proof -
  have gap: "unat (h - start) = unat h - unat start" using h(1) by (intro unat_sub) (simp add: word_le_nat_alt)
  have al: "4 dvd unat start" using inv start by (simp add: kinv_def)
  have plain: "kinv (st\<lparr>heap_curr := h\<rparr>) bs"
    using inv h start by (auto simp: kinv_def intro: spaced_mono)
  consider "\<not> start < h" | "start < h" "MIN_BLOCK_SIZE \<le> h - start"
    | "start < h" "\<not> MIN_BLOCK_SIZE \<le> h - start" "heap_tail st \<noteq> 0" "bfree (hmem st (heap_tail st)) \<noteq> 0"
      "blocks_adjacent st (heap_tail st) start"
    | "start < h" "\<not> MIN_BLOCK_SIZE \<le> h - start"
      "\<not> (heap_tail st \<noteq> 0 \<and> bfree (hmem st (heap_tail st)) \<noteq> 0 \<and> blocks_adjacent st (heap_tail st) start)"
    by blast
  then show ?thesis
  proof cases
    case 1
    with plain show ?thesis by (auto simp: fill_gap_def)
  next
    case 2
    then have "24 \<le> unat h - unat start" using gap by (simp add: word_le_nat_alt)
    moreover have "unat (h - start - 16) = unat h - unat start - 16"
      using gap calculation unat_sub [of 16 "h - start"] by (simp add: word_le_nat_alt)
    ultimately have "kinv ((link_tail start (h - start - 16) (if True then 1 else 0) st)\<lparr>heap_curr := h\<rparr>)
        (bs @ [(start, h - start - 16, True)])"
      using al h start by (intro link_tail_inv [OF inv]) (auto simp: dvd_diff_nat)
    with 2 show ?thesis
      by (intro exI [of _ "bs @ [(start, h - start - 16, True)]"]) (simp add: fill_gap_def Let_def)
  next
    case 3
    from inv 3(3) obtain ws b where "bs = ws @ [b]"
      by (cases bs rule: rev_cases) (auto simp: kinv_def)
    moreover obtain t u g where b: "b = (t, u, g)" by (cases b)
    ultimately have bs: "bs = ws @ [(t, u, g)]" by simp
    have inv': "kinv st (ws @ [(t, u, g)])" using inv bs by simp
    then have tail: "heap_tail st = t" by (simp add: kinv_def)
    have g: "g" using 3(4) kinv_header [OF inv'] by (simp add: tail split: if_splits)
    have adj: "t + 16 + u = heap_curr st"
      using 3(5) kinv_header [OF inv'] by (simp add: tail start blocks_adjacent_def block_end_def)
    have "kinv ((upd t (\<lambda>x. x\<lparr>bsize := bsize x + (h - start)\<rparr>) st)\<lparr>heap_curr := h\<rparr>) (ws @ [(t, u + (h - start), True)])"
      using inv' g gap h al start adj by (intro grow_tail_inv) (auto simp: dvd_diff_nat)
    moreover have "0 < h - start" using 3(1) gap by (simp add: word_less_nat_alt)
    ultimately show ?thesis using 3 g bs tail
      by (intro exI [of _ "ws @ [(t, u + (h - start), True)]"]) (simp add: fill_gap_def Let_def)
  next
    case 4
    then have "fill_gap start h st = st" by (auto simp: fill_gap_def Let_def)
    with plain show ?thesis by auto
  qed
qed

lemma allocate_new_block_inv:
  assumes inv: "kinv st bs" and req: "fits_32 st sz align" "good_align align" "4 dvd unat sz"
  shows "\<exists>p st' k'. allocate_new_block map_page sz align st k = Some (p, st', k')
    \<and> (\<exists>bs'. kinv st' bs' \<and> (if p = 0 then used bs' = used bs
         else used bs' = used bs @ [(p - 16, sz)] \<and> (align \<noteq> 0 \<longrightarrow> unat align dvd unat p)))"
proof -
  define ap where "ap = aligned_payload (heap_curr st) align"
  have c: "unat (heap_curr st) \<le> unat (heap_end st)" "4 dvd unat (heap_curr st)" using inv by (simp_all add: kinv_def)
  then have "unat (heap_curr st) + 16 + unat align < 2 ^ 32" using req(1) by (simp add: fits_32_def)
  note ap = aligned_payload_bounds [OF req(2) c(2) this, folded ap_def]
  define h where "h = ap - 16"
  have h: "unat h = unat ap - 16" "h + 16 = ap" "unat ap = unat h + 16"
    unfolding h_def using ap(1) unat_sub [of 16 ap] by (simp_all add: word_le_nat_alt)
  have e: "unat (h + 16 + sz) = unat h + 16 + unat sz"
  proof -
    have "unat (ap + sz) = unat ap + unat sz"
      using ap(2) c(1) req(1) unfolding fits_32_def by (intro unat_add_no_wrap) simp
    then show ?thesis unfolding h(2) h(3) [symmetric] .
  qed
  obtain ok ce k' where commit: "heap_commit_to map_page (h + 16 + sz) st k = Some (ok, st\<lparr>heap_commit_end := ce\<rparr>, k')"
    using heap_commit_to_returns [of map_page "h + 16 + sz" st k] by blast
  let ?st = "st\<lparr>heap_commit_end := ce\<rparr>"
  have body: "allocate_new_block map_page sz align st k =
    (if heap_end st < h + 16 + sz then Some (0, st, k)
     else Some (if \<not> ok then (0, ?st, k')
       else (h + 16, (link_tail h sz 0 (fill_gap (heap_curr st) h ?st))\<lparr>heap_curr := h + 16 + sz\<rparr>, k')))"
    using commit unfolding h_def ap_def aligned_payload_def allocate_new_block_def fill_gap_def
    by (simp add: Let_def)
  show ?thesis
  proof (cases "heap_end st < h + 16 + sz \<or> \<not> ok")
    case True
    have "kinv ?st bs" using inv by (simp add: kinv_commit)
    with True body inv show ?thesis by (cases "heap_end st < h + 16 + sz") auto
  next
    case False
    then have le: "unat h + 16 + unat sz \<le> unat (heap_end st)" using e by (simp add: word_less_nat_alt)
    have "kinv ?st bs" using inv by (simp add: kinv_commit)
    moreover have h4: "4 dvd unat h" using h(1) ap(1,3) by (simp add: dvd_diff_nat)
    moreover have "unat (heap_curr st) \<le> unat h" using ap(1) h(3) by simp
    ultimately obtain bs1 where bs1: "kinv ((fill_gap (heap_curr st) h ?st)\<lparr>heap_curr := h\<rparr>) bs1" "used bs1 = used bs"
      using fill_gap_inv [of ?st bs "heap_curr st" h] le by auto
    have hend: "heap_end ((fill_gap (heap_curr st) h ?st)\<lparr>heap_curr := h\<rparr>) = heap_end st"
      by (simp add: fill_gap_def Let_def link_tail_def)
    have "kinv ((link_tail h sz (if False then 1 else 0) ((fill_gap (heap_curr st) h ?st)\<lparr>heap_curr := h\<rparr>))
        \<lparr>heap_curr := h + 16 + sz\<rparr>) (bs1 @ [(h, sz, False)])"
      using h4 req(3) e le hend by (intro link_tail_inv [OF bs1(1)]) auto
    then have "kinv ((link_tail h sz 0 (fill_gap (heap_curr st) h ?st))\<lparr>heap_curr := h + 16 + sz\<rparr>) (bs1 @ [(h, sz, False)])"
      by (simp add: link_tail_curr)
    moreover have "h + 16 \<noteq> 0"
    proof
      assume "h + 16 = 0"
      with h(2,3) show False by simp
    qed
    moreover have "align \<noteq> 0 \<longrightarrow> unat align dvd unat (h + 16)" unfolding h(2) by (rule ap(4))
    ultimately show ?thesis using body False bs1(2)
      by (intro exI [of _ "h + 16"] exI [of _ k'] exI
          [of _ "(link_tail h sz 0 (fill_gap (heap_curr st) h ?st))\<lparr>heap_curr := h + 16 + sz\<rparr>"]
          conjI exI [of _ "bs1 @ [(h, sz, False)]"]) auto
  qed
qed

text \<open>A request as the callers make it, before the rounding of size and alignment.\<close>

definition request_ok :: "kheap \<Rightarrow> u32 \<Rightarrow> u32 \<Rightarrow> bool" where
  "request_ok st sz align \<longleftrightarrow> sz \<noteq> 0 \<and> unat (heap_end st) + 2 * unat align + unat sz + 32 \<le> 2 ^ 32"

lemma kmalloc_internal_inv:
  assumes inv: "kinv st bs" and req: "request_ok st sz align"
  shows "\<exists>p st' k' bs' a. kmalloc_internal map_page sz align st k = Some (p, st', k') \<and> kinv st' bs'
    \<and> normalize_align align = Some a
    \<and> (if p = 0 then used bs' = used bs
       else \<exists>us vs t. used bs = us @ vs \<and> used bs' = us @ (p - 16, t) # vs \<and> unat sz \<le> unat t
         \<and> (a \<noteq> 0 \<longrightarrow> unat a dvd unat p))"
proof -
  have b: "unat (heap_end st) + 2 * unat align + unat sz + 32 \<le> 2 ^ 32" "sz \<noteq> 0"
    using req by (simp_all add: request_ok_def)
  then have s4: "unat sz \<le> unat (ALIGN4 sz)" "unat (ALIGN4 sz) \<le> unat sz + 3" "4 dvd unat (ALIGN4 sz)"
    using ALIGN4_bounds [of sz] by simp_all
  have "unat align \<le> 2 ^ 31" using b(1) by simp
  then obtain a where a: "normalize_align align = Some a" "good_align a" "unat a \<le> 2 * unat align"
    using normalize_align_good by blast
  have fits: "fits_32 st (ALIGN4 sz) a" using a(3) s4(2) b(1) by (simp add: fits_32_def)
  have head: "heap_head st = hd_addr bs 0" using inv by (simp add: kinv_def)
  have "find_block_from st (ALIGN4 sz) a (hd_addr bs 0) = Some (0, 0)
    \<or> (\<exists>us c s vs h. bs = us @ (c, s, True) # vs \<and> block_can_fit st c (ALIGN4 sz) a = Some h
        \<and> find_block_from st (ALIGN4 sz) a (hd_addr bs 0) = Some (c, h))"
    using find_block_from_cases [of st "[]" bs "ALIGN4 sz" a] inv by simp
  then show ?thesis
  proof (elim disjE exE conjE)
    assume "find_block_from st (ALIGN4 sz) a (hd_addr bs 0) = Some (0, 0)"
    then have k: "kmalloc_internal map_page sz align st k = allocate_new_block map_page (ALIGN4 sz) a st k"
      using b(2) a(1) head by (simp add: kmalloc_internal_def find_free_block_def)
    obtain p st' k' bs' where r: "allocate_new_block map_page (ALIGN4 sz) a st k = Some (p, st', k')" "kinv st' bs'"
      "if p = 0 then used bs' = used bs
       else used bs' = used bs @ [(p - 16, ALIGN4 sz)] \<and> (a \<noteq> 0 \<longrightarrow> unat a dvd unat p)"
      using allocate_new_block_inv [OF inv fits a(2) s4(3), of map_page k] by blast
    have "if p = 0 then used bs' = used bs
       else \<exists>us vs t. used bs = us @ vs \<and> used bs' = us @ (p - 16, t) # vs \<and> unat sz \<le> unat t
         \<and> (a \<noteq> 0 \<longrightarrow> unat a dvd unat p)"
    proof (cases "p = 0")
      case False
      with r(3) s4(1) have "used bs = used bs @ [] \<and> used bs' = used bs @ (p - 16, ALIGN4 sz) # []
        \<and> unat sz \<le> unat (ALIGN4 sz) \<and> (a \<noteq> 0 \<longrightarrow> unat a dvd unat p)" by simp
      with False show ?thesis by (simp only: if_False) blast
    qed (use r(3) in simp)
    with k r a(1) show ?thesis by (intro exI [of _ p] exI [of _ st'] exI [of _ k'] exI [of _ bs'] exI [of _ a]) simp
  next
    fix us c s vs h
    assume bs: "bs = us @ (c, s, True) # vs" and fit: "block_can_fit st c (ALIGN4 sz) a = Some h"
      and find: "find_block_from st (ALIGN4 sz) a (hd_addr bs 0) = Some (c, h)"
    have inv': "kinv st (us @ (c, s, True) # vs)" using inv bs by simp
    note f = block_can_fit_SomeD [OF inv' fits a(2) fit]
    obtain st' us' vs' t where r: "allocate_from_block c h (ALIGN4 sz) st = (h + 16, st')"
      "kinv st' (us' @ (h, t, False) # vs')" "used us' = used us" "used vs' = used vs" "ALIGN4 sz \<le> t"
      using allocate_from_block_inv [OF inv' s4(3) f(1-3)] by blast
    have k: "kmalloc_internal map_page sz align st k = Some (h + 16, st', k)"
      using b(2) a(1) head find r(1) kinv_bounds(5) [OF inv']
      by (simp add: kmalloc_internal_def find_free_block_def)
    have h16: "unat (h + 16) = unat h + 16"
      using kinv_bounds(2) [OF r(2)] by (simp add: unat_add_no_wrap)
    then have nz: "h + 16 \<noteq> 0" by auto
    have "unat sz \<le> unat t" using r(5) s4(1) by (simp add: word_le_nat_alt)
    then have "\<exists>xs ys t. used bs = xs @ ys \<and> used (us' @ (h, t', False) # vs') = xs @ (h + 16 - 16, t) # ys \<and> unat sz \<le> unat t
         \<and> (a \<noteq> 0 \<longrightarrow> unat a dvd unat (h + 16))" if "t' = t" for t'
      using r(3,4) f(4) h16 that unfolding bs
      by (intro exI [of _ "used us"] exI [of _ "used vs"] exI [of _ t]) simp
    with k r(2) a(1) nz show ?thesis
      by (intro exI [of _ "h + 16"] exI [of _ st'] exI [of _ k] exI [of _ "us' @ (h, t, False) # vs'"] exI [of _ a]) simp
  qed
qed

section \<open>Runs of the allocator\<close>

text \<open>
  The states the heap goes through: \<open>L\<close> holds the live allocations, each with its address and the
  size that was asked for.  Callers free only what is live.
\<close>

inductive heap_reach :: "(u32 \<Rightarrow> 'k \<Rightarrow> int \<times> 'k) \<Rightarrow> kheap \<Rightarrow> 'k \<Rightarrow> (u32 \<times> nat) set \<Rightarrow> bool"
  for map_page where
  init: "kmalloc_init map_page hs he st0 k0 = Some (st, k) \<Longrightarrow> 0 < heap_base st \<Longrightarrow> heap_base st \<le> heap_end st
    \<Longrightarrow> heap_reach map_page st k {}"
| alloc: "heap_reach map_page st k L \<Longrightarrow> request_ok st sz align
    \<Longrightarrow> kmalloc_internal map_page sz align st k = Some (p, st', k') \<Longrightarrow> p \<noteq> 0
    \<Longrightarrow> heap_reach map_page st' k' (insert (p, unat sz) L)"
| fail: "heap_reach map_page st k L \<Longrightarrow> request_ok st sz align
    \<Longrightarrow> kmalloc_internal map_page sz align st k = Some (0, st', k')
    \<Longrightarrow> heap_reach map_page st' k' L"
| free: "heap_reach map_page st k L \<Longrightarrow> (p, n) \<in> L \<Longrightarrow> heap_reach map_page (kfree p st) k (L - {(p, n)})"

text \<open>The live allocations are exactly the used blocks, each at least as large as asked for.\<close>

definition live_inv :: "(u32 \<times> u32) list \<Rightarrow> (u32 \<times> nat) set \<Rightarrow> bool" where
  "live_inv us L \<longleftrightarrow> inj_on fst L \<and> distinct (map fst us) \<and> (\<lambda>(p, n). p - 16) ` L = fst ` set us
    \<and> (\<forall>(p, n) \<in> L. \<exists>t. (p - 16, t) \<in> set us \<and> n \<le> unat t)"

lemma used_set: "(a, s) \<in> set (used bs) \<longleftrightarrow> (a, s, False) \<in> set bs"
  by (force simp: used_def)

lemma used_distinct: "kinv st bs \<Longrightarrow> distinct (map fst (used bs))"
proof -
  assume "kinv st bs"
  then have "distinct (map fst bs)" using kinv_dist by blast
  moreover have "map fst (used bs) = map fst (filter (\<lambda>(a, s, f). \<not> f) bs)"
    by (simp add: used_def case_prod_beta comp_def)
  ultimately show ?thesis by (simp add: distinct_map_filter)
qed

lemma kmalloc_init_inv:
  assumes "kmalloc_init map_page hs he st0 k0 = Some (st, k)" "0 < heap_base st" "heap_base st \<le> heap_end st"
  shows "kinv st []"
proof -
  have "4 dvd unat (PAGE_ALIGN_UP hs)"
  proof -
    have m: "(0x1000 - 1 :: u32) = mask 12" by (simp add: mask_eq_exp_minus_1)
    have "unat (PAGE_ALIGN_UP hs) = unat (hs + mask 12) - unat (hs + mask 12) mod 2 ^ 12"
      unfolding PAGE_ALIGN_UP_def ALIGN_UP_def m by (rule unat_and_not_mask)
    moreover have "(2::nat) ^ 12 dvd unat (hs + mask 12) - unat (hs + mask 12) mod 2 ^ 12" by (rule dvd_minus_mod)
    moreover have "(4::nat) dvd 2 ^ 12" by simp
    ultimately show ?thesis using dvd_trans by metis
  qed
  moreover have "\<exists>S. kmalloc_init map_page hs he st0 k0
        = do { (_, st, k) \<leftarrow> heap_commit_to map_page (heap_base S + 1) S k0; Some (st, k) }
      \<and> heap_base S = (if hs \<noteq> 0 then PAGE_ALIGN_UP hs else 0xC1000000)
      \<and> heap_curr S = heap_base S \<and> heap_head S = 0 \<and> heap_tail S = 0"
    unfolding kmalloc_init_def Let_def by (rule exI, rule conjI, rule refl) simp
  then obtain S where S: "kmalloc_init map_page hs he st0 k0
        = do { (_, st, k) \<leftarrow> heap_commit_to map_page (heap_base S + 1) S k0; Some (st, k) }"
      "heap_base S = (if hs \<noteq> 0 then PAGE_ALIGN_UP hs else 0xC1000000)"
      "heap_curr S = heap_base S" "heap_head S = 0" "heap_tail S = 0" by blast
  moreover obtain ok c k' where "heap_commit_to map_page (heap_base S + 1) S k0 = Some (ok, S\<lparr>heap_commit_end := c\<rparr>, k')"
    using heap_commit_to_returns [of map_page "heap_base S + 1" S k0] by blast
  ultimately have "st = S\<lparr>heap_commit_end := c\<rparr>" "4 dvd unat (heap_base S)"
    using assms(1) by simp_all
  with assms(2,3) S(3-5) show ?thesis
    by (simp add: kinv_def word_less_nat_alt word_le_nat_alt)
qed

lemma live_inv_insert:
  assumes "live_inv (us @ vs) L" "distinct (map fst (us @ (p - 16, t) # vs))" "n \<le> unat t"
  shows "live_inv (us @ (p - 16, t) # vs) (insert (p, n) L)"
proof -
  have "p - 16 \<notin> fst ` set (us @ vs)" using assms(2) by auto
  then have "p - 16 \<notin> (\<lambda>(p, n). p - 16) ` L" using assms(1) by (simp only: live_inv_def) blast
  then have "p \<notin> fst ` L" by force
  with assms show ?thesis by (auto simp: live_inv_def)
qed

lemma live_inv_remove:
  assumes "live_inv (us @ (p - 16, t) # vs) L" "(p, n) \<in> L"
  shows "live_inv (us @ vs) (L - {(p, n)})"
proof -
  have inj: "inj_on fst L" and d: "distinct (map fst (us @ (p - 16, t) # vs))"
    and im: "(\<lambda>(p, n). p - 16) ` L = fst ` set (us @ (p - 16, t) # vs)"
    and sz: "\<forall>(q, m) \<in> L. \<exists>t'. (q - 16, t') \<in> set (us @ (p - 16, t) # vs) \<and> m \<le> unat t'"
    using assms(1) by (simp_all add: live_inv_def)
  have other: "q - 16 \<noteq> p - 16" if "(q, m) \<in> L - {(p, n)}" for q m
    using that assms(2) inj_onD [OF inj, of "(q, m)" "(p, n)"] by auto
  have uniq: "m = n" if "(p, m) \<in> L" for m
    using that assms(2) inj_onD [OF inj, of "(p, m)" "(p, n)"] by auto
  have "(\<lambda>(p, n). p - 16) ` (L - {(p, n)}) = (\<lambda>(p, n). p - 16) ` L - {p - 16}"
    using uniq by (auto simp: image_iff)
  also have "\<dots> = insert (p - 16) (fst ` set (us @ vs)) - {p - 16}" unfolding im by simp
  also have "\<dots> = fst ` set (us @ vs)"
    using d by (intro Diff_insert_absorb) (simp add: image_Un)
  finally have "(\<lambda>(p, n). p - 16) ` (L - {(p, n)}) = fst ` set (us @ vs)" .
  moreover have "\<forall>(q, m) \<in> L - {(p, n)}. \<exists>t'. (q - 16, t') \<in> set (us @ vs) \<and> m \<le> unat t'"
    using sz other by fastforce
  moreover have "inj_on fst (L - {(p, n)})" using inj by (rule inj_on_diff)
  ultimately show ?thesis using d by (simp add: live_inv_def)
qed

lemma heap_reach_inv: "heap_reach map_page st k L \<Longrightarrow> \<exists>bs. kinv st bs \<and> live_inv (used bs) L"
proof (induction rule: heap_reach.induct)
  case (init hs he st0 k0 st k)
  then show ?case using kmalloc_init_inv by (intro exI [of _ "[]"]) (auto simp: live_inv_def)
next
  case (alloc st k L sz align p st' k')
  then obtain bs where bs: "kinv st bs" "live_inv (used bs) L" by blast
  from kmalloc_internal_inv [OF bs(1) alloc.hyps(2), of map_page k] alloc.hyps(3,4) obtain bs' us vs t where
    r: "kinv st' bs'" "used bs = us @ vs" "used bs' = us @ (p - 16, t) # vs" "unat sz \<le> unat t" by auto
  have "live_inv (us @ (p - 16, t) # vs) (insert (p, unat sz) L)"
    using bs(2) r(2,4) used_distinct [OF r(1)] by (intro live_inv_insert) (simp_all add: r(3))
  with r show ?case by auto
next
  case (fail st k L sz align st' k')
  then obtain bs where bs: "kinv st bs" "live_inv (used bs) L" by blast
  from kmalloc_internal_inv [OF bs(1) fail.hyps(2), of map_page k] fail.hyps(3) obtain bs' where
    "kinv st' bs'" "used bs' = used bs" by auto
  with bs(2) show ?case by auto
next
  case (free st k L p n)
  then obtain bs where bs: "kinv st bs" "live_inv (used bs) L" by blast
  then obtain t where "(p - 16, t, False) \<in> set bs" using free.hyps(2) by (auto simp: live_inv_def used_set)
  then obtain xs ys where split: "bs = xs @ (p - 16, t, False) # ys" by (auto dest: split_list)
  with bs(1) kfree_inv [of st xs "p - 16" t ys] obtain bs' where "kinv (kfree p st) bs'" "used bs' = used (xs @ ys)" by auto
  moreover have "live_inv (used (xs @ ys)) (L - {(p, n)})"
    using bs(2) free.hyps(2) split by (auto intro: live_inv_remove)
  ultimately show ?case by auto
qed

text \<open>A request that is rounded to size 0.\<close>

lemma ALIGN4_wraps: "0xFFFFFFFC < sz \<Longrightarrow> ALIGN4 sz = 0"
proof -
  assume "0xFFFFFFFC < sz"
  then have "0xFFFFFFFC < unat sz" "unat sz < 0x100000000" using unat_lt_exp [of sz] by (simp_all add: word_less_nat_alt)
  then have "unat sz = 0xFFFFFFFD \<or> unat sz = 0xFFFFFFFE \<or> unat sz = 0xFFFFFFFF" by linarith
  then have "sz = 0xFFFFFFFD \<or> sz = 0xFFFFFFFE \<or> sz = 0xFFFFFFFF" by (simp add: word_eq_unat_iff)
  then show ?thesis by (auto simp: ALIGN4_def)
qed

lemma allocate_from_block_empty:
  "bsize (hmem (snd (allocate_from_block block block 0 st)) block) < MIN_BLOCK_SIZE"
  by (auto simp: allocate_from_block_def split_block_def upd_def Let_def not_le)

lemma allocate_new_block_empty:
  assumes "unat (heap_curr st) + 16 \<le> unat (heap_end st)" "\<forall>a k. fst (map_page a k) = 0" "0 < unat (heap_curr st)"
  shows "\<exists>st' k'. allocate_new_block map_page 0 0 st k = Some (heap_curr st + 16, st', k') \<and> bsize (hmem st' (heap_curr st)) = 0"
proof -
  have u: "unat (heap_curr st + 16) = unat (heap_curr st) + 16"
    using assms(1) unat_lt_exp [of "heap_end st"] by (subst unat_add_no_wrap) simp_all
  then have le: "\<not> heap_end st < heap_curr st + 16" using assms(1) by (simp add: word_less_nat_alt)
  obtain c k' where "heap_commit_to map_page (heap_curr st + 16) st k = Some (True, st\<lparr>heap_commit_end := c\<rparr>, k')"
    using heap_commit_to_maps [OF assms(2)] by blast
  then show ?thesis using le by (auto simp: allocate_new_block_def link_tail_def upd_def Let_def)
qed

text \<open>
  C25: what a wrapping request does.  Every size above \<open>0xFFFFFFFC\<close> is rounded up to 0.  In every
  reachable state of the heap that still has room for a block header, with a page mapper that does
  not fail, such a request without alignment is answered with a non-null pointer to a block of less
  than 24 bytes, instead of the null pointer.
\<close>

theorem kmalloc_huge_request:
  assumes "heap_reach map_page st k L" "0xFFFFFFFC < sz" "align < 2"
    and "\<forall>a k. fst (map_page a k) = 0" "unat (heap_curr st) + 16 \<le> unat (heap_end st)"
  shows "\<exists>p st' k'. kmalloc_internal map_page sz align st k = Some (p, st', k') \<and> p \<noteq> 0
    \<and> bsize (hmem st' (p - 16)) < 24"
proof -
  obtain bs where inv: "kinv st bs" using heap_reach_inv [OF assms(1)] by blast
  have nz: "sz \<noteq> 0" using assms(2) by auto
  have al: "normalize_align align = Some 0" using assms(3) by (simp add: normalize_align_def)
  have head: "heap_head st = hd_addr bs 0" and curr: "0 < unat (heap_curr st)"
    using inv spaced_le [of "unat (heap_base st)" bs "unat (heap_curr st)"] by (simp_all add: kinv_def)
  have k: "kmalloc_internal map_page sz align st k = do {
      (block, h) \<leftarrow> find_block_from st 0 0 (hd_addr bs 0);
      if block \<noteq> 0 then Some (case allocate_from_block block h 0 st of (p, st) \<Rightarrow> (p, st, k))
      else allocate_new_block map_page 0 0 st k }"
    unfolding kmalloc_internal_def find_free_block_def ALIGN4_wraps [OF assms(2)] head al using nz by simp
  have "find_block_from st 0 0 (hd_addr bs 0) = Some (0, 0)
    \<or> (\<exists>us a s vs h. bs = us @ (a, s, True) # vs \<and> block_can_fit st a 0 0 = Some h
        \<and> find_block_from st 0 0 (hd_addr bs 0) = Some (a, h))"
    using find_block_from_cases [of st "[]" bs 0 0] inv by simp
  then show ?thesis
  proof (elim disjE exE conjE)
    assume "find_block_from st 0 0 (hd_addr bs 0) = Some (0, 0)"
    then have "kmalloc_internal map_page sz align st k = allocate_new_block map_page 0 0 st k" using k by simp
    moreover have "heap_curr st + 16 \<noteq> 0"
    proof -
      have "unat (heap_curr st + 16) = unat (heap_curr st) + 16"
        using assms(5) unat_lt_exp [of "heap_end st"] by (subst unat_add_no_wrap) simp_all
      then show ?thesis by (auto simp: word_eq_unat_iff)
    qed
    ultimately show ?thesis using allocate_new_block_empty [OF assms(5,4) curr] by fastforce
  next
    fix us a s vs h
    assume b: "bs = us @ (a, s, True) # vs" "block_can_fit st a 0 0 = Some h" "find_block_from st 0 0 (hd_addr bs 0) = Some (a, h)"
    have "h = a" using b(2) by (auto simp: block_can_fit_def Let_def split: if_splits)
    moreover have "a \<noteq> 0" "a + 16 \<noteq> 0"
    proof -
      have i: "kinv st (us @ (a, s, True) # vs)" using inv b(1) by simp
      show "a \<noteq> 0" by (rule kinv_bounds(5) [OF i])
      have "unat (a + 16) = unat a + 16" using kinv_bounds(2) [OF i] by (subst unat_add_no_wrap) simp_all
      then show "a + 16 \<noteq> 0" by (auto simp: word_eq_unat_iff)
    qed
    ultimately have "kmalloc_internal map_page sz align st k = Some (a + 16, snd (allocate_from_block a a 0 st), k)"
      using k b(3) by (simp add: allocate_from_block_def Let_def)
    then show ?thesis using allocate_from_block_empty [of a st] \<open>a + 16 \<noteq> 0\<close> by simp
  qed
qed

theorem kmalloc_huge_request_witness:
  "\<exists>p st'. kmalloc_internal (\<lambda>a k. (0, k)) 0xFFFFFFFE 0
      \<lparr>heap_base = 0xC1000000, heap_curr = 0xC1000000, heap_commit_end = 0xC1001000, heap_end = 0xC5000000,
       heap_head = 0, heap_tail = 0, hmem = (\<lambda>_. \<lparr>bsize = 0, bnext = 0, bprev = 0, bfree = 0\<rparr>)\<rparr> () = Some (p, st', ())
    \<and> p \<noteq> 0 \<and> bsize (hmem st' (p - 16)) < 24"
proof -
  let ?m = "\<lambda>_ :: u32. \<lparr>bsize = 0, bnext = 0, bprev = 0, bfree = 0\<rparr>"
  let ?s0 = "\<lparr>heap_base = 0, heap_curr = 0, heap_commit_end = 0, heap_end = 0, heap_head = 0, heap_tail = 0, hmem = ?m\<rparr>"
  let ?s1 = "\<lparr>heap_base = 0xC1000000, heap_curr = 0xC1000000, heap_commit_end = 0xC1001000, heap_end = 0xC5000000,
    heap_head = 0, heap_tail = 0, hmem = ?m\<rparr>"
  let ?mp = "\<lambda>(a :: u32) (k :: unit). (0 :: int, k)"
  have "kmalloc_init ?mp 0 0 ?s0 () = Some (?s1, ())"
    by (simp add: kmalloc_init_def heap_commit_to_def PAGE_ALIGN_UP_def ALIGN_UP_def commit_loop.simps Let_def)
  then have r: "heap_reach ?mp ?s1 () {}" by (rule heap_reach.init) simp_all
  have "(0xFFFFFFFC :: u32) < 0xFFFFFFFE" "(0 :: u32) < 2" "\<forall>a k. fst (?mp a k) = 0"
    "unat (heap_curr ?s1) + 16 \<le> unat (heap_end ?s1)" by simp_all
  from kmalloc_huge_request [OF r this] show ?thesis by auto
qed

lemma spaced_pair:
  assumes "spaced lo bs hi" "(a, s, f) \<in> set bs" "(b, t, g) \<in> set bs" "a \<noteq> b"
  shows "unat a + 16 + unat s \<le> unat b \<or> unat b + 16 + unat t \<le> unat a"
proof -
  obtain xs ys where bs: "bs = xs @ (a, s, f) # ys" using assms(2) by (auto dest: split_list)
  then have "(b, t, g) \<in> set xs \<or> (b, t, g) \<in> set ys" using assms(3,4) by auto
  with spaced_disjoint_addr [of lo xs a s f ys hi b t g] assms(1) bs show ?thesis by auto
qed

text \<open>
  C11: \<open>kmalloc_internal\<close> always returns.  In a reachable state, for a request that does not wrap, the
  loops end and the result is either the null pointer, with the live allocations unchanged, or a
  pointer that is a multiple of the alignment, which is at least the one asked for.
\<close>

theorem kmalloc_returns:
  assumes "heap_reach map_page st k L" "request_ok st sz align"
  shows "\<exists>p st' k' a. kmalloc_internal map_page sz align st k = Some (p, st', k')
    \<and> normalize_align align = Some a \<and> (2 \<le> unat align \<longrightarrow> unat align \<le> unat a)
    \<and> heap_reach map_page st' k' (if p = 0 then L else insert (p, unat sz) L) \<and> (a \<noteq> 0 \<longrightarrow> unat a dvd unat p)"
proof -
  obtain bs where "kinv st bs" using heap_reach_inv [OF assms(1)] by blast
  from kmalloc_internal_inv [OF this assms(2), of map_page k] obtain p st' k' bs' a where
    r: "kmalloc_internal map_page sz align st k = Some (p, st', k')" "normalize_align align = Some a"
    and d: "p \<noteq> 0 \<Longrightarrow> a \<noteq> 0 \<longrightarrow> unat a dvd unat p" by (auto split: if_splits)
  have "unat align \<le> 2 ^ 31" using assms(2) by (simp add: request_ok_def)
  from normalize_align_good [OF this] r(2) have "2 \<le> unat align \<longrightarrow> unat align \<le> unat a" by auto
  moreover have "heap_reach map_page st' k' (if p = 0 then L else insert (p, unat sz) L)"
    using heap_reach.alloc [OF assms r(1)] heap_reach.fail [OF assms] r(1) by auto
  ultimately show ?thesis using r d by (cases "p = 0") auto
qed

text \<open>
  C10: memory the heap hands out is never handed out twice.  In every state reached from
  \<open>kmalloc_init\<close> by allocations, failed allocations and frees of live pointers, each live allocation
  lies inside the heap, and any two of them are disjoint, with room for the header of the second
  block between them.  The requests must not be so large that the end of the heap plus the request
  wraps around the address space.
\<close>

theorem heap_live_disjoint:
  assumes "heap_reach map_page st k L"
  shows "unat (heap_curr st) \<le> unat (heap_end st)
    \<and> (\<forall>p n. (p, n) \<in> L \<longrightarrow> unat (heap_base st) + 16 \<le> unat p \<and> unat p + n \<le> unat (heap_curr st))
    \<and> (\<forall>p n q m. (p, n) \<in> L \<and> (q, m) \<in> L \<and> (p, n) \<noteq> (q, m) \<longrightarrow>
        unat p + n + 16 \<le> unat q \<or> unat q + m + 16 \<le> unat p)"
proof -
  obtain bs where bs: "kinv st bs" "live_inv (used bs) L" using heap_reach_inv [OF assms] by blast
  have live: "\<exists>t. (x - 16, t, False) \<in> set bs \<and> i \<le> unat t" if "(x, i) \<in> L" for x i
    using bs(2) that by (fastforce simp: live_inv_def used_set)
  have sp: "spaced (unat (heap_base st)) bs (unat (heap_curr st))" "unat (heap_curr st) \<le> unat (heap_end st)"
    using bs(1) by (simp_all add: kinv_def)
  have shift: "unat x = unat (x - 16) + 16" if "(x - 16, i, False) \<in> set bs" for x i
  proof -
    have "unat (x - 16) + 16 < 2 ^ 32"
      using spaced_bounds [OF sp(1) that] unat_lt_exp [of "heap_curr st"] by simp
    then show ?thesis using unat_add_no_wrap [of "x - 16" 16] by simp
  qed
  have inside: "unat (heap_base st) + 16 \<le> unat p \<and> unat p + n \<le> unat (heap_curr st)" if pn: "(p, n) \<in> L" for p n
  proof -
    obtain s where s: "(p - 16, s, False) \<in> set bs" "n \<le> unat s" using live [OF pn] by blast
    then show ?thesis using spaced_bounds [OF sp(1) s(1)] shift [OF s(1)] by linarith
  qed
  have apart: "unat p + n + 16 \<le> unat q \<or> unat q + m + 16 \<le> unat p"
    if pq: "(p, n) \<in> L" "(q, m) \<in> L" "(p, n) \<noteq> (q, m)" for p n q m
  proof -
    obtain s t where s: "(p - 16, s, False) \<in> set bs" "n \<le> unat s"
      and t: "(q - 16, t, False) \<in> set bs" "m \<le> unat t"
      using live [OF pq(1)] live [OF pq(2)] by blast
    have "inj_on fst L" using bs(2) by (simp add: live_inv_def)
    then have "p \<noteq> q" using pq inj_onD [of fst L "(p, n)" "(q, m)"] by auto
    then have "p - 16 \<noteq> q - 16" by simp
    from spaced_pair [OF sp(1) s(1) t(1) this] shift [OF s(1)] shift [OF t(1)] s(2) t(2)
    show ?thesis by linarith
  qed
  show ?thesis
    by (intro conjI allI impI sp(2)) (use inside apart in simp_all)
qed

theorem heap_live_disjoint_witness:
  "\<exists>st. heap_reach (\<lambda>a k. (0, k)) st () {(0xC1000010, 10), (0xC100002C, 6)}
    \<and> unat (0xC1000010 :: u32) + 10 + 16 \<le> unat (0xC100002C :: u32) \<and> 0xC100002C \<le> heap_curr st"
proof -
  let ?m = "\<lambda>_ :: u32. \<lparr>bsize = 0, bnext = 0, bprev = 0, bfree = 0\<rparr>"
  let ?s0 = "\<lparr>heap_base = 0, heap_curr = 0, heap_commit_end = 0, heap_end = 0, heap_head = 0, heap_tail = 0, hmem = ?m\<rparr>"
  let ?s1 = "\<lparr>heap_base = 0xC1000000, heap_curr = 0xC1000000, heap_commit_end = 0xC1001000, heap_end = 0xC5000000,
    heap_head = 0, heap_tail = 0, hmem = ?m\<rparr>"
  let ?s2 = "?s1\<lparr>heap_curr := 0xC100001C, heap_head := 0xC1000000, heap_tail := 0xC1000000,
    hmem := ?m(0xC1000000 := \<lparr>bsize = 12, bnext = 0, bprev = 0, bfree = 0\<rparr>)\<rparr>"
  let ?s3 = "?s2\<lparr>heap_curr := 0xC1000034, heap_tail := 0xC100001C,
    hmem := ?m(0xC1000000 := \<lparr>bsize = 12, bnext = 0xC100001C, bprev = 0, bfree = 0\<rparr>,
      0xC100001C := \<lparr>bsize = 8, bnext = 0, bprev = 0xC1000000, bfree = 0\<rparr>)\<rparr>"
  let ?mp = "\<lambda>(a :: u32) (k :: unit). (0 :: int, k)"
  have "kmalloc_init ?mp 0 0 ?s0 () = Some (?s1, ())"
    by (simp add: kmalloc_init_def heap_commit_to_def PAGE_ALIGN_UP_def ALIGN_UP_def commit_loop.simps Let_def)
  then have r1: "heap_reach ?mp ?s1 () {}" by (rule heap_reach.init) simp_all
  note defs = kmalloc_internal_def normalize_align_def ALIGN4_def find_free_block_def find_block_from.simps
    allocate_new_block_def heap_commit_to_def PAGE_ALIGN_UP_def ALIGN_UP_def commit_loop.simps link_tail_def upd_def Let_def
  have "kmalloc_internal ?mp 10 0 ?s1 () = Some (0xC1000010, ?s2, ())" by (simp add: defs)
  from heap_reach.alloc [OF r1 _ this] have r2: "heap_reach ?mp ?s2 () {(0xC1000010, 10)}"
    by (simp add: request_ok_def)
  have "kmalloc_internal ?mp 6 0 ?s2 () = Some (0xC100002C, ?s3, ())" by (simp add: defs fun_upd_twist)
  from heap_reach.alloc [OF r2 _ this] have "heap_reach ?mp ?s3 () {(0xC100002C, 6), (0xC1000010, 10)}"
    by (simp add: request_ok_def)
  then have r3: "heap_reach ?mp ?s3 () {(0xC1000010, 10), (0xC100002C, 6)}" by (simp add: insert_commute)
  note d = heap_live_disjoint [OF r3, THEN conjunct2]
  have "unat (0xC100002C :: u32) + 6 \<le> unat (heap_curr ?s3)"
    using d [THEN conjunct1, rule_format, of "0xC100002C" 6] by simp
  moreover have "unat (0xC1000010 :: u32) + 10 + 16 \<le> unat (0xC100002C :: u32) \<or> unat (0xC100002C :: u32) + 6 + 16 \<le> unat (0xC1000010 :: u32)"
    by (rule d [THEN conjunct2, rule_format, of "0xC1000010" 10 "0xC100002C" 6]) simp
  ultimately show ?thesis using r3 by (intro exI [of _ ?s3]) simp
qed

theorem kmalloc_returns_witness:
  "\<exists>p st' (a :: u32). kmalloc_internal (\<lambda>a k. (0, k)) 100 4096
      \<lparr>heap_base = 0xC1000000, heap_curr = 0xC1000000, heap_commit_end = 0xC1001000, heap_end = 0xC5000000,
       heap_head = 0, heap_tail = 0, hmem = (\<lambda>_. \<lparr>bsize = 0, bnext = 0, bprev = 0, bfree = 0\<rparr>)\<rparr> () = Some (p, st', ())
    \<and> 4096 \<le> unat a \<and> unat a dvd unat p"
proof -
  let ?m = "\<lambda>_ :: u32. \<lparr>bsize = 0, bnext = 0, bprev = 0, bfree = 0\<rparr>"
  let ?s0 = "\<lparr>heap_base = 0, heap_curr = 0, heap_commit_end = 0, heap_end = 0, heap_head = 0, heap_tail = 0, hmem = ?m\<rparr>"
  let ?s1 = "\<lparr>heap_base = 0xC1000000, heap_curr = 0xC1000000, heap_commit_end = 0xC1001000, heap_end = 0xC5000000,
    heap_head = 0, heap_tail = 0, hmem = ?m\<rparr>"
  let ?mp = "\<lambda>(a :: u32) (k :: unit). (0 :: int, k)"
  have "kmalloc_init ?mp 0 0 ?s0 () = Some (?s1, ())"
    by (simp add: kmalloc_init_def heap_commit_to_def PAGE_ALIGN_UP_def ALIGN_UP_def commit_loop.simps Let_def)
  then have r: "heap_reach ?mp ?s1 () {}" by (rule heap_reach.init) simp_all
  have ok: "request_ok ?s1 100 4096" by (simp add: request_ok_def)
  from kmalloc_returns [OF r ok] obtain p st' k' and a :: u32 where k:
    "kmalloc_internal ?mp 100 4096 ?s1 () = Some (p, st', k')"
    "2 \<le> unat (4096 :: u32) \<longrightarrow> unat (4096 :: u32) \<le> unat a" "a \<noteq> 0 \<longrightarrow> unat a dvd unat p"
    by blast
  from k(2) have a: "4096 \<le> unat a" by simp
  then have "a \<noteq> 0" by auto
  with k a show ?thesis by auto
qed

end
