(* ===== verification/Pmm.thy ===== *)
theory Pmm
  imports Orion_Prelude
begin

text \<open>
  The physical memory manager \<^verbatim>\<open>mm/pmm.c\<close>: a bitmap with one bit per 4 KiB page, 1 for used.

  \<open>pmm_bitmap\<close> is the static array of \<open>MAX_PAGES/8\<close> bytes, a function on its indexes; an access
  outside it is \<^const>\<open>None\<close>.  The Multiboot information the boot loader leaves in memory is the
  list of its tags, the memory map decoded into its entries; the kernel's linker symbols and the
  address of the Multiboot block are arguments of \<open>pmm_init\<close>.  The console output is left out.
\<close>

section \<open>Model\<close>

definition MAX_PAGES :: nat where "MAX_PAGES = 1024 * 1024"

abbreviation PAGE_SIZE :: nat where "PAGE_SIZE \<equiv> 4096"

record pmm =
  pmm_bitmap :: "nat \<Rightarrow> u8"
  total_memory :: u64
  free_memory :: u64
  max_physical_page :: u64

record mmap_entry =
  me_addr :: u64
  me_len :: u64
  me_type :: u32

datatype mb_tag = MbMmap "mmap_entry list" | MbModule u32 u32 | MbOther

definition bm_access :: "nat \<Rightarrow> 'a \<Rightarrow> 'a option" where
  "bm_access i v = (if i div 8 < MAX_PAGES div 8 then Some v else None)"

definition BIT_SET :: "(nat \<Rightarrow> u8) \<Rightarrow> nat \<Rightarrow> (nat \<Rightarrow> u8) option" where
  "BIT_SET a i = bm_access i (a(i div 8 := a (i div 8) OR push_bit (i mod 8) 1))"

definition BIT_CLEAR :: "(nat \<Rightarrow> u8) \<Rightarrow> nat \<Rightarrow> (nat \<Rightarrow> u8) option" where
  "BIT_CLEAR a i = bm_access i (a(i div 8 := a (i div 8) AND NOT (push_bit (i mod 8) 1)))"

definition BIT_TEST :: "(nat \<Rightarrow> u8) \<Rightarrow> nat \<Rightarrow> bool option" where
  "BIT_TEST a i = bm_access i (a (i div 8) AND push_bit (i mod 8) 1 \<noteq> 0)"

definition mark_used :: "nat \<Rightarrow> pmm \<Rightarrow> pmm option" where
  "mark_used p st = (if p < unat (max_physical_page st)
     then map_option (\<lambda>b. st\<lparr>pmm_bitmap := b\<rparr>) (BIT_SET (pmm_bitmap st) p) else Some st)"

definition mark_free :: "nat \<Rightarrow> pmm \<Rightarrow> pmm option" where
  "mark_free p st = (if p < unat (max_physical_page st)
     then map_option (\<lambda>b. st\<lparr>pmm_bitmap := b\<rparr>) (BIT_CLEAR (pmm_bitmap st) p) else Some st)"

text \<open>The loop of \<open>find_free_page\<close> from page \<open>i\<close>; \<^verbatim>\<open>-1\<close> is the value \<open>None\<close> inside.\<close>

function find_free_from :: "pmm \<Rightarrow> nat \<Rightarrow> nat option option" where
  "find_free_from st i = (if i < unat (max_physical_page st) then do {
       used \<leftarrow> BIT_TEST (pmm_bitmap st) i;
       if \<not> used then Some (Some i) else find_free_from st (i + 1) }
     else Some None)"
  by auto
termination by (relation "measure (\<lambda>(st, i). unat (max_physical_page st) - i)") auto

definition find_free_page :: "pmm \<Rightarrow> nat option option" where
  "find_free_page st = find_free_from st 0"

definition reserve_page :: "nat \<Rightarrow> pmm \<Rightarrow> pmm option" where
  "reserve_page i st = (if i < unat (max_physical_page st) then do {
       used \<leftarrow> BIT_TEST (pmm_bitmap st) i;
       mark_used i (if used then st else st\<lparr>free_memory := free_memory st - of_nat PAGE_SIZE\<rparr>) }
     else Some st)"

fun fold_pages :: "(nat \<Rightarrow> pmm \<Rightarrow> pmm option) \<Rightarrow> nat list \<Rightarrow> pmm \<Rightarrow> pmm option" where
  "fold_pages f [] st = Some st"
| "fold_pages f (p # ps) st = do { st \<leftarrow> f p st; fold_pages f ps st }"

text \<open>\<open>end + PAGE_SIZE - 1\<close> is computed in 32 bits.\<close>

definition pmm_reserve_region :: "u32 \<Rightarrow> u32 \<Rightarrow> pmm \<Rightarrow> pmm option" where
  "pmm_reserve_region start end_addr st =
     (let s = start div 4096; e = (end_addr + 4096 - 1) div 4096
      in fold_pages reserve_page [unat s..<unat e] st)"

definition add_mmap_entry :: "mmap_entry \<Rightarrow> pmm \<Rightarrow> pmm option" where
  "add_mmap_entry e st = (if me_type e = 1 then
     (let start = me_addr e; end_addr = me_addr e + me_len e;
          s = start div 4096; en = end_addr div 4096;
          st = (if max_physical_page st < en then st\<lparr>max_physical_page := en\<rparr> else st)
      in do {
        st \<leftarrow> fold_pages mark_free [unat s..<min (unat en) MAX_PAGES] st;
        Some (st\<lparr>free_memory := free_memory st + me_len e, total_memory := total_memory st + me_len e\<rparr>) })
     else Some st)"

fun add_mmap_entries :: "mmap_entry list \<Rightarrow> pmm \<Rightarrow> pmm option" where
  "add_mmap_entries [] st = Some st"
| "add_mmap_entries (e # es) st = do { st \<leftarrow> add_mmap_entry e st; add_mmap_entries es st }"

fun scan_mmap :: "mb_tag list \<Rightarrow> pmm \<Rightarrow> pmm option" where
  "scan_mmap [] st = Some st"
| "scan_mmap (t # ts) st = do {
     st \<leftarrow> (case t of MbMmap es \<Rightarrow> add_mmap_entries es st | _ \<Rightarrow> Some st);
     scan_mmap ts st }"

fun scan_modules :: "mb_tag list \<Rightarrow> pmm \<Rightarrow> pmm option" where
  "scan_modules [] st = Some st"
| "scan_modules (t # ts) st = do {
     st \<leftarrow> (case t of MbModule s e \<Rightarrow> pmm_reserve_region s e st | _ \<Rightarrow> Some st);
     scan_modules ts st }"

definition pmm_init :: "u32 \<Rightarrow> u32 \<Rightarrow> u32 \<Rightarrow> u32 \<Rightarrow> mb_tag list \<Rightarrow> pmm option" where
  "pmm_init kernel_start kernel_end mb_info_addr mb_total_size tags = do {
     st \<leftarrow> scan_mmap tags
       \<lparr>pmm_bitmap = (\<lambda>_. 0xFF), total_memory = 0, free_memory = 0, max_physical_page = 0\<rparr>;
     st \<leftarrow> pmm_reserve_region 0 0x100000 st;
     st \<leftarrow> pmm_reserve_region kernel_start kernel_end st;
     st \<leftarrow> pmm_reserve_region mb_info_addr (mb_info_addr + mb_total_size) st;
     scan_modules tags st }"

text \<open>\<open>idx * PAGE_SIZE\<close> is a product of two \<open>int\<close>s.  The null pointer is the address 0.\<close>

definition pmm_alloc_page :: "pmm \<Rightarrow> (u32 \<times> pmm) option" where
  "pmm_alloc_page st = do {
     r \<leftarrow> find_free_page st;
     case r of
       None \<Rightarrow> Some (0, st)
     | Some idx \<Rightarrow> do {
         st \<leftarrow> mark_used idx st;
         a \<leftarrow> c_int (int idx * int PAGE_SIZE);
         Some (word_of_int a, st\<lparr>free_memory := free_memory st - of_nat PAGE_SIZE\<rparr>) } }"

definition pmm_free_page :: "u32 \<Rightarrow> pmm \<Rightarrow> pmm option" where
  "pmm_free_page addr st =
     (let idx = unat (addr div 4096) in
      if unat (max_physical_page st) \<le> idx then Some st
      else do {
        used \<leftarrow> BIT_TEST (pmm_bitmap st) idx;
        if used then do {
          st \<leftarrow> mark_free idx st;
          Some (st\<lparr>free_memory := free_memory st + of_nat PAGE_SIZE\<rparr>) }
        else Some st })"

section \<open>The set of free pages\<close>

definition page_used :: "(nat \<Rightarrow> u8) \<Rightarrow> nat \<Rightarrow> bool" where
  "page_used b p = bit (b (p div 8)) (p mod 8)"

definition free_pages :: "pmm \<Rightarrow> nat set" where
  "free_pages st = {p. p < unat (max_physical_page st) \<and> \<not> page_used (pmm_bitmap st) p}"

definition pmm_wf :: "pmm \<Rightarrow> bool" where
  "pmm_wf st \<longleftrightarrow> unat (max_physical_page st) \<le> MAX_PAGES"

declare find_free_from.simps [simp del]

lemma finite_free_pages [simp]: "finite (free_pages st)"
  by (simp add: free_pages_def)

lemma bm_access_in: "i < MAX_PAGES \<Longrightarrow> bm_access i v = Some v"
  by (simp add: bm_access_def MAX_PAGES_def)

lemma page_index_eq: "p div 8 = q div 8 \<Longrightarrow> p mod 8 = q mod 8 \<Longrightarrow> p = (q::nat)"
  by (metis div_mult_mod_eq)

lemma BIT_TEST_used: "p < MAX_PAGES \<Longrightarrow> BIT_TEST a p = Some (page_used a p)"
  by (simp add: BIT_TEST_def bm_access_in page_used_def bit_iff_and_push_bit_not_eq_0)

lemma BIT_SET_used:
  assumes "p < MAX_PAGES"
  obtains b where "BIT_SET a p = Some b" "\<And>q. page_used b q \<longleftrightarrow> q = p \<or> page_used a q"
proof
  show "BIT_SET a p = Some (a(p div 8 := a (p div 8) OR push_bit (p mod 8) 1))"
    using assms by (simp add: BIT_SET_def bm_access_in)
  show "page_used (a(p div 8 := a (p div 8) OR push_bit (p mod 8) 1)) q \<longleftrightarrow> q = p \<or> page_used a q" for q
    using page_index_eq [of q p] by (auto simp: page_used_def bit_simps)
qed

lemma BIT_CLEAR_used:
  assumes "p < MAX_PAGES"
  obtains b where "BIT_CLEAR a p = Some b" "\<And>q. page_used b q \<longleftrightarrow> q \<noteq> p \<and> page_used a q"
proof
  show "BIT_CLEAR a p = Some (a(p div 8 := a (p div 8) AND NOT (push_bit (p mod 8) 1)))"
    using assms by (simp add: BIT_CLEAR_def bm_access_in)
  show "page_used (a(p div 8 := a (p div 8) AND NOT (push_bit (p mod 8) 1))) q \<longleftrightarrow> q \<noteq> p \<and> page_used a q" for q
    using page_index_eq [of q p] by (auto simp: page_used_def bit_simps)
qed

text \<open>Marking a page, seen on the set of free pages.\<close>

lemma mark_used_free_pages:
  assumes "pmm_wf st"
  obtains b where "mark_used p st = Some (st\<lparr>pmm_bitmap := b\<rparr>)"
    "free_pages (st\<lparr>pmm_bitmap := b\<rparr>) = free_pages st - {p}"
proof (cases "p < unat (max_physical_page st)")
  case True
  with assms have "p < MAX_PAGES" by (simp add: pmm_wf_def)
  then obtain b where b: "BIT_SET (pmm_bitmap st) p = Some b"
    "\<And>q. page_used b q \<longleftrightarrow> q = p \<or> page_used (pmm_bitmap st) q"
    by (rule BIT_SET_used [where a = "pmm_bitmap st"]) blast
  show ?thesis
  proof (rule that)
    show "mark_used p st = Some (st\<lparr>pmm_bitmap := b\<rparr>)" using True b(1) by (simp add: mark_used_def)
  qed (use True b(2) in \<open>auto simp: free_pages_def\<close>)
next
  case False
  then show ?thesis using that [of "pmm_bitmap st"] by (auto simp: mark_used_def free_pages_def)
qed

lemma mark_free_free_pages:
  assumes "pmm_wf st"
  obtains b where "mark_free p st = Some (st\<lparr>pmm_bitmap := b\<rparr>)"
    "free_pages (st\<lparr>pmm_bitmap := b\<rparr>)
      = free_pages st \<union> (if p < unat (max_physical_page st) then {p} else {})"
proof (cases "p < unat (max_physical_page st)")
  case True
  with assms have "p < MAX_PAGES" by (simp add: pmm_wf_def)
  then obtain b where b: "BIT_CLEAR (pmm_bitmap st) p = Some b"
    "\<And>q. page_used b q \<longleftrightarrow> q \<noteq> p \<and> page_used (pmm_bitmap st) q"
    by (rule BIT_CLEAR_used [where a = "pmm_bitmap st"]) blast
  show ?thesis
  proof (rule that)
    show "mark_free p st = Some (st\<lparr>pmm_bitmap := b\<rparr>)" using True b(1) by (simp add: mark_free_def)
  qed (use True b(2) in \<open>auto simp: free_pages_def\<close>)
next
  case False
  then show ?thesis using that [of "pmm_bitmap st"] by (auto simp: mark_free_def free_pages_def)
qed

lemma BIT_TEST_free:
  "pmm_wf st \<Longrightarrow> i < unat (max_physical_page st) \<Longrightarrow> BIT_TEST (pmm_bitmap st) i = Some (i \<notin> free_pages st)"
  by (simp add: BIT_TEST_used pmm_wf_def free_pages_def)

lemma find_free_from_least:
  assumes "pmm_wf st"
  shows "find_free_from st i =
    Some (if \<exists>p \<in> free_pages st. i \<le> p then Some (LEAST p. p \<in> free_pages st \<and> i \<le> p) else None)"
proof (induction "unat (max_physical_page st) - i" arbitrary: i)
  case 0
  then have "\<forall>p \<in> free_pages st. p < i" by (auto simp: free_pages_def)
  with 0 show ?case by (subst find_free_from.simps) (auto simp: not_le)
next
  case (Suc x)
  then have i: "i < unat (max_physical_page st)" by simp
  show ?case
  proof (cases "i \<in> free_pages st")
    case True
    then have "(LEAST p. p \<in> free_pages st \<and> i \<le> p) = i" by (intro Least_equality) auto
    with True i show ?thesis
      by (subst find_free_from.simps) (auto simp: BIT_TEST_free [OF assms i])
  next
    case False
    then have "p \<in> free_pages st \<and> i \<le> p \<longleftrightarrow> p \<in> free_pages st \<and> Suc i \<le> p" for p
      by (metis Suc_leD le_antisym not_less_eq_eq)
    with False i Suc.hyps(1) [of "Suc i"] Suc.hyps(2) show ?thesis
      by (subst find_free_from.simps) (auto simp: BIT_TEST_free [OF assms i])
  qed
qed

lemma find_free_page_Min:
  "pmm_wf st \<Longrightarrow> find_free_page st = Some (if free_pages st = {} then None else Some (Min (free_pages st)))"
  using find_free_from_least [of st 0] Least_Min [of "\<lambda>p. p \<in> free_pages st"]
  by (auto simp: find_free_page_def)

section \<open>Allocating and freeing pages\<close>

text \<open>
  The states in which the allocator runs: page 0 is never free, so that a page is never mistaken
  for the null pointer, and the pages it manages lie below 2 GiB, so that the page address, an
  \<open>int\<close> product, does not overflow.
\<close>

definition pmm_ok :: "pmm \<Rightarrow> bool" where
  "pmm_ok st \<longleftrightarrow> unat (max_physical_page st) \<le> 2 ^ 19 \<and> 0 \<notin> free_pages st"

lemma pmm_ok_wf: "pmm_ok st \<Longrightarrow> pmm_wf st"
  by (simp add: pmm_ok_def pmm_wf_def MAX_PAGES_def)

lemma free_pages_memory [simp]: "free_pages (st\<lparr>free_memory := m\<rparr>) = free_pages st"
  by (simp add: free_pages_def)

lemma free_pages_less: "p \<in> free_pages st \<Longrightarrow> p < unat (max_physical_page st)"
  by (simp add: free_pages_def)

lemma pmm_alloc_page_Min:
  assumes "pmm_ok st" "free_pages st \<noteq> {}"
  obtains b where "pmm_alloc_page st
      = Some (of_nat (Min (free_pages st) * 4096), st\<lparr>pmm_bitmap := b, free_memory := free_memory st - 4096\<rparr>)"
    "free_pages (st\<lparr>pmm_bitmap := b\<rparr>) = free_pages st - {Min (free_pages st)}"
proof -
  let ?p = "Min (free_pages st)"
  have "?p \<in> free_pages st" using assms(2) by simp
  then have "?p < 2 ^ 19" using assms(1) free_pages_less [of ?p st] by (simp add: pmm_ok_def)
  then have "c_int (int ?p * 4096) = Some (int (?p * 4096))" by (simp add: int_range_def)
  moreover obtain b where "mark_used ?p st = Some (st\<lparr>pmm_bitmap := b\<rparr>)"
    "free_pages (st\<lparr>pmm_bitmap := b\<rparr>) = free_pages st - {?p}"
    using mark_used_free_pages [OF pmm_ok_wf [OF assms(1)]] by blast
  ultimately show ?thesis
    using that [of b] assms pmm_ok_wf [OF assms(1)]
    by (simp add: pmm_alloc_page_def find_free_page_Min del: of_nat_mult)
qed

lemma page_of_address: "p < 2 ^ 20 \<Longrightarrow> unat ((of_nat (p * 4096) :: u32) div 4096) = p"
proof -
  assume "p < 2 ^ 20"
  then have "unat (of_nat (p * 4096) :: u32) = p * 4096"
    by (simp add: unsigned_of_nat take_bit_nat_eq_self del: of_nat_mult)
  then show ?thesis by (simp add: unat_div_distrib del: of_nat_mult)
qed

lemma pmm_free_page_insert:
  assumes "pmm_wf st" "unat (addr div 4096) = p" "p < unat (max_physical_page st)"
  obtains b where "pmm_free_page addr st
      = Some (if p \<in> free_pages st then st
              else st\<lparr>pmm_bitmap := b, free_memory := free_memory st + 4096\<rparr>)"
    "free_pages (st\<lparr>pmm_bitmap := b\<rparr>) = insert p (free_pages st)"
proof -
  obtain b where "mark_free p st = Some (st\<lparr>pmm_bitmap := b\<rparr>)"
    "free_pages (st\<lparr>pmm_bitmap := b\<rparr>) = insert p (free_pages st)"
    using mark_free_free_pages [OF assms(1), of p] assms(3) by auto
  with that [of b] assms BIT_TEST_free [OF assms(1,3)] show ?thesis
    by (simp add: pmm_free_page_def)
qed

lemma pmm_free_page_restore:
  assumes "pmm_wf st" "unat (addr div 4096) = p" "p < unat (max_physical_page st)"
  shows "\<exists>st'. pmm_free_page addr st = Some st' \<and> free_pages st' = insert p (free_pages st)
    \<and> max_physical_page st' = max_physical_page st
    \<and> free_memory st' = (if p \<in> free_pages st then free_memory st else free_memory st + 4096)"
proof -
  obtain b where b: "pmm_free_page addr st = Some (if p \<in> free_pages st then st
              else st\<lparr>pmm_bitmap := b, free_memory := free_memory st + 4096\<rparr>)"
    "free_pages (st\<lparr>pmm_bitmap := b\<rparr>) = insert p (free_pages st)"
    using pmm_free_page_insert [OF assms] by blast
  then show ?thesis by (cases "p \<in> free_pages st") (simp_all add: insert_absorb)
qed

text \<open>
  C13: \<open>pmm_alloc_page\<close> is a first-fit allocator.  With no free page it returns the null pointer and
  changes nothing.  Otherwise it returns the address of the lowest free page, which is then used
  while every other page keeps its status, and takes one page off \<open>free_memory\<close>.  Freeing that
  address gives the same free pages and the same \<open>free_memory\<close> back.
\<close>

theorem pmm_alloc_page_first_fit:
  assumes "pmm_ok st"
  shows "if free_pages st = {} then pmm_alloc_page st = Some (0, st)
    else \<exists>st' st''. pmm_alloc_page st = Some (of_nat (Min (free_pages st) * 4096), st')
      \<and> free_pages st' = free_pages st - {Min (free_pages st)} \<and> free_memory st' = free_memory st - 4096
      \<and> pmm_ok st'
      \<and> pmm_free_page (of_nat (Min (free_pages st) * 4096)) st' = Some st''
      \<and> free_pages st'' = free_pages st \<and> free_memory st'' = free_memory st"
proof (cases "free_pages st = {}")
  case True
  with assms show ?thesis by (simp add: pmm_alloc_page_def find_free_page_Min [OF pmm_ok_wf])
next
  case False
  let ?p = "Min (free_pages st)"
  have p: "?p \<in> free_pages st" "?p < unat (max_physical_page st)"
    using False Min_in [OF finite_free_pages False] by (simp_all add: free_pages_less)
  then have addr: "unat ((of_nat (?p * 4096) :: u32) div 4096) = ?p"
    using assms by (intro page_of_address) (simp add: pmm_ok_def)
  obtain b where b: "pmm_alloc_page st
      = Some (of_nat (?p * 4096), st\<lparr>pmm_bitmap := b, free_memory := free_memory st - 4096\<rparr>)"
    "free_pages (st\<lparr>pmm_bitmap := b\<rparr>) = free_pages st - {?p}"
    using pmm_alloc_page_Min [OF assms False] by blast
  let ?st = "st\<lparr>pmm_bitmap := b, free_memory := free_memory st - 4096\<rparr>"
  have ok: "pmm_ok ?st" using assms b(2) by (simp add: pmm_ok_def)
  have fp: "free_pages ?st = free_pages st - {?p}" using b(2) by simp
  have "?p < unat (max_physical_page ?st)" using p(2) by simp
  from pmm_free_page_restore [OF pmm_ok_wf [OF ok] addr this] obtain st' where
    "pmm_free_page (of_nat (?p * 4096)) ?st = Some st'" "free_pages st' = insert ?p (free_pages ?st)"
    "free_memory st' = (if ?p \<in> free_pages ?st then free_memory ?st else free_memory ?st + 4096)" by blast
  moreover from this have "free_pages st' = free_pages st" "free_memory st' = free_memory st"
    using fp p(1) by (simp_all add: insert_absorb)
  moreover have "free_memory ?st = free_memory st - 4096" by simp
  ultimately show ?thesis unfolding if_not_P [OF False] using b(1) fp ok by blast
qed

theorem pmm_alloc_page_first_fit_witness:
  "\<exists>st' st''. let st = \<lparr>pmm_bitmap = (\<lambda>i. 0xFD), total_memory = 0,
        free_memory = 4096, max_physical_page = 2\<rparr> in
      pmm_alloc_page st = Some (0x1000, st') \<and> free_pages st' = {} \<and> free_memory st' = 0
      \<and> pmm_free_page 0x1000 st' = Some st'' \<and> free_pages st'' = {1} \<and> free_memory st'' = 4096"
proof -
  let ?st = "\<lparr>pmm_bitmap = (\<lambda>i. 0xFD), total_memory = 0,
        free_memory = 4096, max_physical_page = 2\<rparr> :: pmm"
  have "free_pages ?st = {1}"
    by (auto simp: free_pages_def page_used_def dest!: less_2_cases)
  then show ?thesis using pmm_alloc_page_first_fit [of ?st] by (auto simp: pmm_ok_def)
qed

section \<open>The contract of a page allocator\<close>

text \<open>
  What the paging code relies on: an allocation takes a page out of the pool, a release puts one
  back, and running out is reported.  \<open>take_n\<close> is a client that takes \<open>n\<close> pages.
\<close>

fun take_n :: "('s \<Rightarrow> (nat option \<times> 's) option) \<Rightarrow> nat \<Rightarrow> 's \<Rightarrow> (nat list \<times> 's) option" where
  "take_n alloc 0 s = Some ([], s)"
| "take_n alloc (Suc n) s = do {
     (r, s) \<leftarrow> alloc s;
     case r of None \<Rightarrow> Some ([], s) | Some p \<Rightarrow> do { (ps, s) \<leftarrow> take_n alloc n s; Some (p # ps, s) } }"

locale page_source =
  fixes wf :: "'s \<Rightarrow> bool" and pool :: "'s \<Rightarrow> nat set"
    and alloc :: "'s \<Rightarrow> (nat option \<times> 's) option" and release :: "nat \<Rightarrow> 's \<Rightarrow> 's option"
  assumes finite_pool: "wf s \<Longrightarrow> finite (pool s)"
    and alloc_none: "wf s \<Longrightarrow> pool s = {} \<Longrightarrow> alloc s = Some (None, s)"
    and alloc_some: "wf s \<Longrightarrow> pool s \<noteq> {} \<Longrightarrow>
      \<exists>p s'. alloc s = Some (Some p, s') \<and> p \<in> pool s \<and> pool s' = pool s - {p} \<and> wf s'
        \<and> (\<exists>s''. release p s' = Some s'' \<and> wf s'' \<and> pool s'' = pool s)"
begin

lemma take_n_pages:
  "wf s \<Longrightarrow> \<exists>ps s'. take_n alloc n s = Some (ps, s') \<and> wf s' \<and> distinct ps \<and> set ps \<subseteq> pool s
    \<and> pool s' = pool s - set ps \<and> length ps = min n (card (pool s))"
proof (induction n arbitrary: s)
  case 0
  then show ?case by auto
next
  case (Suc n)
  show ?case
  proof (cases "pool s = {}")
    case True
    with Suc.prems alloc_none show ?thesis by auto
  next
    case False
    then obtain p s1 where p: "alloc s = Some (Some p, s1)" "p \<in> pool s" "pool s1 = pool s - {p}" "wf s1"
      using alloc_some [OF Suc.prems] by blast
    obtain ps s2 where ps: "take_n alloc n s1 = Some (ps, s2)" "wf s2" "distinct ps" "set ps \<subseteq> pool s1"
      "pool s2 = pool s1 - set ps" "length ps = min n (card (pool s1))"
      using Suc.IH [OF p(4)] by blast
    have "card (pool s) = Suc (card (pool s1))"
      using card.remove [OF finite_pool [OF Suc.prems] p(2)] p(3) by simp
    then have "length (p # ps) = min (Suc n) (card (pool s))" using ps(6) by simp
    moreover have "take_n alloc (Suc n) s = Some (p # ps, s2)" using p(1) ps(1) by simp
    moreover have "distinct (p # ps)" "set (p # ps) \<subseteq> pool s" using p(2,3) ps(3,4) by auto
    moreover have "pool s2 = pool s - set (p # ps)" using p(3) ps(5) by auto
    ultimately have "take_n alloc (Suc n) s = Some (p # ps, s2) \<and> wf s2 \<and> distinct (p # ps)
      \<and> set (p # ps) \<subseteq> pool s \<and> pool s2 = pool s - set (p # ps)
      \<and> length (p # ps) = min (Suc n) (card (pool s))"
      using ps(2) by blast
    then show ?thesis by blast
  qed
qed

end

text \<open>The page allocator by page numbers, as the contract wants it.\<close>

definition pmm_take :: "pmm \<Rightarrow> (nat option \<times> pmm) option" where
  "pmm_take st = map_option (\<lambda>(a, st). (if a = 0 then None else Some (unat (a div 4096)), st)) (pmm_alloc_page st)"

definition pmm_put :: "nat \<Rightarrow> pmm \<Rightarrow> pmm option" where
  "pmm_put p st = pmm_free_page (of_nat (p * 4096)) st"

lemma pmm_take_Min:
  assumes "pmm_ok st" "free_pages st \<noteq> {}"
  obtains b where "pmm_take st = Some (Some (Min (free_pages st)), st\<lparr>pmm_bitmap := b, free_memory := free_memory st - 4096\<rparr>)"
    "free_pages (st\<lparr>pmm_bitmap := b\<rparr>) = free_pages st - {Min (free_pages st)}"
proof -
  define p where "p = Min (free_pages st)"
  have "p \<in> free_pages st" using assms(2) by (simp add: p_def)
  then have "p \<noteq> 0" using assms(1) unfolding pmm_ok_def by metis
  have "p < unat (max_physical_page st)" using \<open>p \<in> free_pages st\<close> by (rule free_pages_less)
  then have "p < 2 ^ 20" using assms(1) unfolding pmm_ok_def by simp
  then have addr: "unat ((of_nat (p * 4096) :: u32) div 4096) = p" by (rule page_of_address)
  have ne: "(of_nat (p * 4096) :: u32) \<noteq> 0"
  proof
    assume "(of_nat (p * 4096) :: u32) = 0"
    with addr \<open>p \<noteq> 0\<close> show False by (simp del: of_nat_mult)
  qed
  obtain b where "pmm_alloc_page st
      = Some (of_nat (p * 4096), st\<lparr>pmm_bitmap := b, free_memory := free_memory st - 4096\<rparr>)"
    "free_pages (st\<lparr>pmm_bitmap := b\<rparr>) = free_pages st - {p}"
    using pmm_alloc_page_Min [OF assms] unfolding p_def by blast
  then show ?thesis using that [of b] ne addr unfolding p_def [symmetric]
    by (simp add: pmm_take_def del: of_nat_mult)
qed

interpretation pages: page_source pmm_ok free_pages pmm_take pmm_put
proof
  fix st
  assume ok: "pmm_ok st"
  show "finite (free_pages st)" by simp
  show "pmm_take st = Some (None, st)" if "free_pages st = {}"
    using ok that by (simp add: pmm_take_def pmm_alloc_page_def find_free_page_Min [OF pmm_ok_wf])
  assume ne: "free_pages st \<noteq> {}"
  let ?p = "Min (free_pages st)"
  have p: "?p \<in> free_pages st" using ne by simp
  then have lt: "?p < unat (max_physical_page st)" by (rule free_pages_less)
  obtain b where b: "pmm_take st = Some (Some ?p, st\<lparr>pmm_bitmap := b, free_memory := free_memory st - 4096\<rparr>)"
    "free_pages (st\<lparr>pmm_bitmap := b\<rparr>) = free_pages st - {?p}"
    using pmm_take_Min [OF ok ne] by blast
  let ?st = "st\<lparr>pmm_bitmap := b, free_memory := free_memory st - 4096\<rparr>"
  have ok': "pmm_ok ?st" using ok b(2) by (simp add: pmm_ok_def)
  have "unat ((of_nat (?p * 4096) :: u32) div 4096) = ?p"
    using ok lt by (intro page_of_address) (simp add: pmm_ok_def)
  then obtain st' where st': "pmm_put ?p ?st = Some st'" "free_pages st' = free_pages st"
    "max_physical_page st' = max_physical_page st"
    using pmm_free_page_restore [OF pmm_ok_wf [OF ok'], of "of_nat (?p * 4096)" ?p] lt b(2) p
    by (auto simp: pmm_put_def insert_absorb)
  then have "pmm_ok st'" using ok by (simp add: pmm_ok_def)
  with b ok' st' p show "\<exists>p s'. pmm_take st = Some (Some p, s') \<and> p \<in> free_pages st
      \<and> free_pages s' = free_pages st - {p} \<and> pmm_ok s'
      \<and> (\<exists>s''. pmm_put p s' = Some s'' \<and> pmm_ok s'' \<and> free_pages s'' = free_pages st)"
    by (intro exI [of _ ?p] exI [of _ ?st]) simp
qed

text \<open>
  C14: pages taken one after the other are pairwise distinct.  Taking \<open>n\<close> pages from the physical
  memory manager returns, as long as there are any, \<open>n\<close> different pages that were free before and
  are used afterwards; when the pool has fewer it returns all of them.
\<close>

theorem pmm_take_n_distinct:
  assumes "pmm_ok st"
  shows "\<exists>ps st'. take_n pmm_take n st = Some (ps, st') \<and> pmm_ok st' \<and> distinct ps \<and> set ps \<subseteq> free_pages st
    \<and> free_pages st' = free_pages st - set ps \<and> length ps = min n (card (free_pages st))"
  using assms by (rule pages.take_n_pages)

theorem pmm_take_n_distinct_witness:
  "\<exists>ps st'. take_n pmm_take 3 \<lparr>pmm_bitmap = (\<lambda>i. 0xF9), total_memory = 0, free_memory = 8192,
      max_physical_page = 3\<rparr> = Some (ps, st') \<and> distinct ps \<and> set ps \<subseteq> {1, 2} \<and> length ps = 2"
proof -
  let ?st = "\<lparr>pmm_bitmap = (\<lambda>i. 0xF9), total_memory = 0, free_memory = 8192, max_physical_page = 3\<rparr> :: pmm"
  have three: "p < 3 \<longleftrightarrow> p = 0 \<or> p = 1 \<or> p = 2" for p :: nat by linarith
  have "free_pages ?st = {1, 2}" unfolding free_pages_def page_used_def by (auto simp: three)
  then show ?thesis using pmm_take_n_distinct [of ?st 3] by (auto simp: pmm_ok_def)
qed

section \<open>Building the map at boot\<close>

definition region_pages :: "u32 \<Rightarrow> u32 \<Rightarrow> nat set" where
  "region_pages s e = {unat s div 4096 ..< (unat e + 4095) div 4096}"

definition usable_pages :: "mmap_entry \<Rightarrow> nat set" where
  "usable_pages e = (if me_type e = 1
     then {unat (me_addr e) div 4096 ..< (unat (me_addr e) + unat (me_len e)) div 4096} else {})"

definition tag_usable :: "mb_tag \<Rightarrow> nat set" where
  "tag_usable t = (case t of MbMmap es \<Rightarrow> (\<Union>e \<in> set es. usable_pages e) | _ \<Rightarrow> {})"

definition tag_module :: "mb_tag \<Rightarrow> nat set" where
  "tag_module t = (case t of MbModule s e \<Rightarrow> region_pages s e | _ \<Rightarrow> {})"

text \<open>What the code needs of the boot information: memory below 4 GiB, no module ending in the last page.\<close>

definition entry_low :: "mmap_entry \<Rightarrow> bool" where
  "entry_low e \<longleftrightarrow> me_type e = 1 \<longrightarrow> unat (me_addr e) + unat (me_len e) \<le> 2 ^ 32"

definition tag_low :: "mb_tag \<Rightarrow> bool" where
  "tag_low t = (case t of MbMmap es \<Rightarrow> list_all entry_low es | MbModule s e \<Rightarrow> e \<le> 0xFFFFF000 | MbOther \<Rightarrow> True)"

lemma reserve_page_free_pages:
  assumes "pmm_wf st"
  shows "\<exists>st'. reserve_page p st = Some st' \<and> pmm_wf st' \<and> free_pages st' = free_pages st - {p}"
proof (cases "p < unat (max_physical_page st)")
  case True
  let ?st = "if p \<notin> free_pages st then st else st\<lparr>free_memory := free_memory st - 4096\<rparr>"
  have "pmm_wf ?st" using assms by (simp add: pmm_wf_def)
  then obtain b where "mark_used p ?st = Some (?st\<lparr>pmm_bitmap := b\<rparr>)"
    "free_pages (?st\<lparr>pmm_bitmap := b\<rparr>) = free_pages ?st - {p}"
    by (rule mark_used_free_pages) blast
  with True assms show ?thesis
    by (auto simp: reserve_page_def BIT_TEST_free pmm_wf_def)
next
  case False
  then have "free_pages st - {p} = free_pages st" by (auto simp: free_pages_def)
  with False assms show ?thesis by (simp add: reserve_page_def)
qed

lemma reserve_pages_free_pages:
  "pmm_wf st \<Longrightarrow> \<exists>st'. fold_pages reserve_page ps st = Some st' \<and> pmm_wf st' \<and> free_pages st' = free_pages st - set ps"
proof (induction ps arbitrary: st)
  case (Cons p ps)
  obtain st' where "reserve_page p st = Some st'" "pmm_wf st'" "free_pages st' = free_pages st - {p}"
    using reserve_page_free_pages [OF Cons.prems] by blast
  moreover from Cons.IH [OF this(2)] obtain st'' where "fold_pages reserve_page ps st' = Some st''"
    "pmm_wf st''" "free_pages st'' = free_pages st' - set ps" by blast
  ultimately show ?case by auto
qed simp

lemma pmm_reserve_region_free_pages:
  assumes "pmm_wf st" "e \<le> 0xFFFFF000"
  shows "\<exists>st'. pmm_reserve_region s e st = Some st' \<and> pmm_wf st'
    \<and> free_pages st' = free_pages st - region_pages s e"
proof -
  have four: "unat (4096 :: u32) = 4096" by simp
  have "e + 4096 - 1 = e + 4095" by simp
  moreover have "unat (e + 4095) = unat e + 4095"
    using assms(2) unat_add_no_wrap [of e 4095] by (simp add: word_le_nat_alt)
  ultimately have "region_pages s e = set [unat (s div 4096)..<unat ((e + 4096 - 1) div 4096)]"
    by (simp only: region_pages_def unat_div_distrib four set_upt)
  then show ?thesis
    using reserve_pages_free_pages [OF assms(1), of "[unat (s div 4096)..<unat ((e + 4096 - 1) div 4096)]"]
    by (simp only: pmm_reserve_region_def Let_def)
qed

lemma mark_free_pages:
  assumes "pmm_wf st" "\<forall>p \<in> set ps. p < unat (max_physical_page st)"
  shows "\<exists>b. fold_pages mark_free ps st = Some (st\<lparr>pmm_bitmap := b\<rparr>)
    \<and> (\<forall>q. page_used b q \<longleftrightarrow> q \<notin> set ps \<and> page_used (pmm_bitmap st) q)"
  using assms
proof (induction ps arbitrary: st)
  case Nil
  then show ?case by (auto intro: exI [of _ "pmm_bitmap st"])
next
  case (Cons p ps)
  then have p: "p < MAX_PAGES" "p < unat (max_physical_page st)" by (auto simp: pmm_wf_def)
  obtain b where b: "BIT_CLEAR (pmm_bitmap st) p = Some b"
    "\<And>q. page_used b q \<longleftrightarrow> q \<noteq> p \<and> page_used (pmm_bitmap st) q"
    using p(1) by (rule BIT_CLEAR_used [where a = "pmm_bitmap st"]) blast
  have m: "mark_free p st = Some (st\<lparr>pmm_bitmap := b\<rparr>)" using b(1) p(2) by (simp add: mark_free_def)
  let ?st = "st\<lparr>pmm_bitmap := b\<rparr>"
  have "pmm_wf ?st" "\<forall>p \<in> set ps. p < unat (max_physical_page ?st)"
    using Cons.prems by (simp_all add: pmm_wf_def)
  from Cons.IH [OF this] obtain b' where "fold_pages mark_free ps ?st = Some (?st\<lparr>pmm_bitmap := b'\<rparr>)"
    "\<forall>q. page_used b' q \<longleftrightarrow> q \<notin> set ps \<and> page_used (pmm_bitmap ?st) q" by blast
  with m b(2) show ?case by (intro exI [of _ b']) auto
qed

text \<open>While the map is read, every page beyond the highest one seen so far is marked used.\<close>

definition boot_inv :: "pmm \<Rightarrow> bool" where
  "boot_inv st \<longleftrightarrow> pmm_wf st \<and> (\<forall>p. unat (max_physical_page st) \<le> p \<longrightarrow> page_used (pmm_bitmap st) p)"

lemma boot_inv_free_pages: "boot_inv st \<Longrightarrow> free_pages st = {p. \<not> page_used (pmm_bitmap st) p}"
  by (auto simp: boot_inv_def free_pages_def not_le [symmetric])

lemma add_mmap_entry_free_pages:
  assumes "boot_inv st" "entry_low e"
  shows "\<exists>st'. add_mmap_entry e st = Some st' \<and> boot_inv st' \<and> free_pages st' = free_pages st \<union> usable_pages e"
proof (cases "me_type e = 1")
  case True
  let ?en = "(me_addr e + me_len e) div 4096"
  define st1 where "st1 = (if max_physical_page st < ?en then st\<lparr>max_physical_page := ?en\<rparr> else st)"
  have "unat (me_addr e + me_len e) = unat (me_addr e) + unat (me_len e)"
    using assms(2) True by (intro unat_add_no_wrap) (simp add: entry_low_def)
  then have en: "unat ?en = (unat (me_addr e) + unat (me_len e)) div 4096" by (simp add: unat_div_distrib)
  then have en_le: "unat ?en \<le> MAX_PAGES"
    using assms(2) True by (simp add: entry_low_def MAX_PAGES_def)
  have max: "unat (max_physical_page st) \<le> unat (max_physical_page st1)" "unat ?en \<le> unat (max_physical_page st1)"
    by (auto simp: st1_def word_less_nat_alt)
  have inv1: "boot_inv st1"
    using assms(1) en_le max by (auto simp: boot_inv_def pmm_wf_def st1_def)
  then have F1: "free_pages st1 = free_pages st"
    using assms(1) by (simp add: boot_inv_free_pages) (simp add: st1_def)
  obtain b where b: "fold_pages mark_free [unat (me_addr e div 4096)..<unat ?en] st1 = Some (st1\<lparr>pmm_bitmap := b\<rparr>)"
    "\<forall>q. page_used b q \<longleftrightarrow> q \<notin> set [unat (me_addr e div 4096)..<unat ?en] \<and> page_used (pmm_bitmap st1) q"
    using mark_free_pages [of st1 "[unat (me_addr e div 4096)..<unat ?en]"] inv1 max(2)
    by (auto simp: boot_inv_def)
  let ?st = "st1\<lparr>pmm_bitmap := b, free_memory := free_memory st1 + me_len e, total_memory := total_memory st1 + me_len e\<rparr>"
  have "add_mmap_entry e st = Some ?st"
    using True b(1) en_le by (simp add: add_mmap_entry_def Let_def st1_def [symmetric] min_def)
  moreover have inv: "boot_inv ?st"
    using inv1 b(2) max(2) by (simp add: boot_inv_def pmm_wf_def)
  moreover have "free_pages ?st = free_pages st \<union> usable_pages e"
    using b(2) True en boot_inv_free_pages [OF inv1] boot_inv_free_pages [OF inv] F1
    by (auto simp: usable_pages_def unat_div_distrib)
  ultimately show ?thesis by blast
next
  case False
  with assms(1) show ?thesis by (simp add: add_mmap_entry_def usable_pages_def)
qed

lemma add_mmap_entries_free_pages:
  "boot_inv st \<Longrightarrow> list_all entry_low es \<Longrightarrow>
    \<exists>st'. add_mmap_entries es st = Some st' \<and> boot_inv st' \<and> free_pages st' = free_pages st \<union> (\<Union>e \<in> set es. usable_pages e)"
proof (induction es arbitrary: st)
  case (Cons e es)
  obtain st1 where st1: "add_mmap_entry e st = Some st1" "boot_inv st1" "free_pages st1 = free_pages st \<union> usable_pages e"
    using add_mmap_entry_free_pages [OF Cons.prems(1), of e] Cons.prems(2) by auto
  from Cons.IH [OF st1(2)] Cons.prems(2) st1 show ?case by (auto simp: Un_assoc)
qed simp

lemma scan_mmap_free_pages:
  "boot_inv st \<Longrightarrow> list_all tag_low ts \<Longrightarrow>
    \<exists>st'. scan_mmap ts st = Some st' \<and> boot_inv st' \<and> free_pages st' = free_pages st \<union> (\<Union>t \<in> set ts. tag_usable t)"
proof (induction ts arbitrary: st)
  case (Cons t ts)
  have "\<exists>st1. (case t of MbMmap es \<Rightarrow> add_mmap_entries es st | _ \<Rightarrow> Some st) = Some st1 \<and> boot_inv st1
      \<and> free_pages st1 = free_pages st \<union> tag_usable t"
    using Cons.prems add_mmap_entries_free_pages [OF Cons.prems(1)]
    by (cases t) (auto simp: tag_usable_def tag_low_def)
  then obtain st1 where st1: "(case t of MbMmap es \<Rightarrow> add_mmap_entries es st | _ \<Rightarrow> Some st) = Some st1" "boot_inv st1"
      "free_pages st1 = free_pages st \<union> tag_usable t" by blast
  from Cons.IH [OF st1(2)] Cons.prems(2) st1 show ?case by (auto simp: Un_assoc)
qed simp

lemma scan_modules_free_pages:
  "pmm_wf st \<Longrightarrow> list_all tag_low ts \<Longrightarrow>
    \<exists>st'. scan_modules ts st = Some st' \<and> pmm_wf st' \<and> free_pages st' = free_pages st - (\<Union>t \<in> set ts. tag_module t)"
proof (induction ts arbitrary: st)
  case (Cons t ts)
  have "\<exists>st1. (case t of MbModule s e \<Rightarrow> pmm_reserve_region s e st | _ \<Rightarrow> Some st) = Some st1 \<and> pmm_wf st1
      \<and> free_pages st1 = free_pages st - tag_module t"
    using Cons.prems pmm_reserve_region_free_pages [OF Cons.prems(1)]
    by (cases t) (auto simp: tag_module_def tag_low_def)
  then obtain st1 where st1: "(case t of MbModule s e \<Rightarrow> pmm_reserve_region s e st | _ \<Rightarrow> Some st) = Some st1" "pmm_wf st1"
      "free_pages st1 = free_pages st - tag_module t" by blast
  from Cons.IH [OF st1(2)] Cons.prems(2) st1 show ?case by (auto simp: Diff_eq)
qed simp

text \<open>
  C12: \<open>pmm_init\<close> makes free exactly the pages that may be handed out: those of the usable entries of
  the memory map, without every page that the BIOS area below 1 MiB, the kernel image, the
  Multiboot block or a boot module touches.  It needs a memory map that ends below 4 GiB and
  reserved regions that do not reach into the last page of the address space.
\<close>

theorem pmm_init_free_pages:
  assumes "list_all tag_low tags" "kernel_end \<le> 0xFFFFF000" "mb_info_addr + mb_total_size \<le> 0xFFFFF000"
  shows "\<exists>st. pmm_init kernel_start kernel_end mb_info_addr mb_total_size tags = Some st \<and> pmm_wf st
    \<and> free_pages st = (\<Union>t \<in> set tags. tag_usable t) - {0 ..< 256} - region_pages kernel_start kernel_end
        - region_pages mb_info_addr (mb_info_addr + mb_total_size) - (\<Union>t \<in> set tags. tag_module t)"
proof -
  let ?st0 = "\<lparr>pmm_bitmap = (\<lambda>_. 0xFF), total_memory = 0, free_memory = 0, max_physical_page = 0\<rparr> :: pmm"
  have "(0xFF :: u8) = - 1" by simp
  then have "bit (0xFF :: u8) k" if "k < 8" for k
    using that by (simp only: bit_minus_1_iff possible_bit_word) simp
  then have "boot_inv ?st0" "free_pages ?st0 = {}"
    by (simp_all add: boot_inv_def pmm_wf_def free_pages_def page_used_def)
  with scan_mmap_free_pages [OF _ assms(1)] obtain st1 where st1: "scan_mmap tags ?st0 = Some st1" "boot_inv st1"
    "free_pages st1 = (\<Union>t \<in> set tags. tag_usable t)" by fastforce
  then have "pmm_wf st1" by (simp add: boot_inv_def)
  with pmm_reserve_region_free_pages [of st1 "0x100000" 0] obtain st2 where
    st2: "pmm_reserve_region 0 0x100000 st1 = Some st2" "pmm_wf st2" "free_pages st2 = free_pages st1 - {0 ..< 256}"
    by (auto simp: region_pages_def)
  obtain st3 where st3: "pmm_reserve_region kernel_start kernel_end st2 = Some st3" "pmm_wf st3"
    "free_pages st3 = free_pages st2 - region_pages kernel_start kernel_end"
    using pmm_reserve_region_free_pages [OF st2(2) assms(2)] by blast
  obtain st4 where st4: "pmm_reserve_region mb_info_addr (mb_info_addr + mb_total_size) st3 = Some st4" "pmm_wf st4"
    "free_pages st4 = free_pages st3 - region_pages mb_info_addr (mb_info_addr + mb_total_size)"
    using pmm_reserve_region_free_pages [OF st3(2) assms(3)] by blast
  obtain st5 where "scan_modules tags st4 = Some st5" "pmm_wf st5"
    "free_pages st5 = free_pages st4 - (\<Union>t \<in> set tags. tag_module t)"
    using scan_modules_free_pages [OF st4(2) assms(1)] by blast
  with st1 st2 st3 st4 show ?thesis by (simp add: pmm_init_def)
qed

theorem pmm_init_free_pages_witness:
  "\<exists>st. pmm_init 0x100000 0x200000 0x9000 0x100
      [MbMmap [\<lparr>me_addr = 0x100000, me_len = 0x300000, me_type = 1\<rparr>], MbModule 0x3FF800 0x400000] = Some st
    \<and> free_pages st = {512 ..< 1023}"
proof -
  have "({256 ..< 1024} - {0 ..< 256} - {256 ..< 512} - {9 ..< 10} - {1023 ..< 1024} :: nat set) = {512 ..< 1023}"
    by auto
  then show ?thesis
    using pmm_init_free_pages [of "[MbMmap [\<lparr>me_addr = 0x100000, me_len = 0x300000, me_type = 1\<rparr>], MbModule 0x3FF800 0x400000]"
        "0x200000" "0x9000" "0x100" "0x100000"]
    by (auto simp: tag_low_def entry_low_def tag_usable_def tag_module_def usable_pages_def region_pages_def)
qed

end
