(* ===== verification/Paging.thy ===== *)
theory Paging
  imports Kheap Pmm
begin

text \<open>
  Virtual memory, \<^verbatim>\<open>mm/paging.c\<close>, over a model of the two-level page walk of the x86.

  \<open>pmem\<close> is physical memory, one 32-bit word per word-aligned byte address.  Every access of the
  code goes through \<open>mmu_translate\<close>: with paging off an address is physical, with paging on it is
  walked through the directory that \<open>cr3\<close> names, and an access to an address that is not mapped is
  a page fault, the value \<^const>\<open>None\<close>.  The translation cache is left out (the code invalidates each entry
  it changes), and so is the console output.  The access rights of the entries are data here: the
  kernel runs in supervisor mode with write protection off, where only the present bit matters.

  The addresses of the two static tables and of the kernel image are arguments of \<open>paging_init\<close>.
  The heap, the physical allocator and this component call one another as in the code:
  \<open>kernel_malloc\<close> is the heap's \<open>kmalloc\<close> run on the mapping functions defined here.
\<close>

section \<open>Model\<close>

abbreviation (input) PAGE_PRESENT :: u32 where "PAGE_PRESENT \<equiv> 1"
abbreviation (input) PAGE_RW :: u32 where "PAGE_RW \<equiv> 2"
abbreviation (input) PAGE_USER :: u32 where "PAGE_USER \<equiv> 4"
abbreviation (input) RECURSIVE_PT_BASE :: u32 where "RECURSIVE_PT_BASE \<equiv> 0xFFC00000"
abbreviation (input) RECURSIVE_PD_BASE :: u32 where "RECURSIVE_PD_BASE \<equiv> 0xFFFFF000"

record vm =
  pmem :: "u32 \<Rightarrow> u32"
  cr0 :: u32
  cr3 :: u32
  msr_pat :: u64
  cpuid_edx :: u32
  g_pat_wc_enabled :: bool
  current_page_directory :: u32
  current_page_directory_phys :: u32
  kernel_page_directory :: u32
  kernel_page_directory_phys :: u32
  pmm_st :: pmm

subsection \<open>The memory management unit\<close>

definition walk :: "(u32 \<Rightarrow> u32) \<Rightarrow> u32 \<Rightarrow> u32 \<Rightarrow> u32 option" where
  "walk m d v =
     (let pde = m ((d AND 0xFFFFF000) + 4 * drop_bit 22 v) in
      if pde AND PAGE_PRESENT = 0 then None
      else
        let pte = m ((pde AND 0xFFFFF000) + 4 * (drop_bit 12 v AND 0x3FF)) in
        if pte AND PAGE_PRESENT = 0 then None
        else Some ((pte AND 0xFFFFF000) OR (v AND 0xFFF)))"

definition paging_is_enabled :: "vm \<Rightarrow> bool" where
  "paging_is_enabled st \<longleftrightarrow> cr0 st AND 0x80000000 \<noteq> 0"

definition mmu_translate :: "vm \<Rightarrow> u32 \<Rightarrow> u32 option" where
  "mmu_translate st v = (if paging_is_enabled st then walk (pmem st) (cr3 st) v else Some v)"

definition load :: "vm \<Rightarrow> u32 \<Rightarrow> u32 option" where
  "load st v = map_option (pmem st) (mmu_translate st v)"

definition store :: "u32 \<Rightarrow> u32 \<Rightarrow> vm \<Rightarrow> vm option" where
  "store v x st = map_option (\<lambda>p. st\<lparr>pmem := (pmem st)(p := x)\<rparr>) (mmu_translate st v)"

text \<open>\<open>memset(p, 0, PAGE_SIZE)\<close> and \<open>memcpy(dst, src, PAGE_SIZE)\<close> on word-aligned pages.\<close>

definition zero_page :: "u32 \<Rightarrow> vm \<Rightarrow> vm option" where
  "zero_page p = for_each (\<lambda>i. store (p + 4 * of_nat i) 0) [0..<1024]"

definition copy_page :: "u32 \<Rightarrow> u32 \<Rightarrow> vm \<Rightarrow> vm option" where
  "copy_page dst src = for_each (\<lambda>i st. do {
     x \<leftarrow> load st (src + 4 * of_nat i);
     store (dst + 4 * of_nat i) x st }) [0..<1024]"

definition load_pd :: "u32 \<Rightarrow> vm \<Rightarrow> vm" where
  "load_pd pd st = st\<lparr>cr3 := pd\<rparr>"

definition enable_pg :: "vm \<Rightarrow> vm" where
  "enable_pg st = st\<lparr>cr0 := cr0 st OR 0x80000000\<rparr>"

definition paging_init_pat :: "vm \<Rightarrow> vm" where
  "paging_init_pat st =
     (if cpuid_edx st AND push_bit 5 1 = 0 then st
      else if cpuid_edx st AND push_bit 16 1 = 0 then st
      else
        let pat = msr_pat st;
            entry_mask = push_bit 32 0xFF;
            new_pat = (pat AND NOT entry_mask) OR push_bit 32 1
        in (if new_pat \<noteq> pat then st\<lparr>msr_pat := new_pat\<rparr> else st)\<lparr>g_pat_wc_enabled := True\<rparr>)"

definition paging_pat_wc_enabled :: "vm \<Rightarrow> bool" where
  "paging_pat_wc_enabled st = g_pat_wc_enabled st"

subsection \<open>Mapping one page\<close>

text \<open>The page table of \<open>virt\<close>: the present one, or a new one; \<^const>\<open>False\<close> when no page is left.\<close>

definition install_table :: "u32 \<Rightarrow> u32 \<Rightarrow> u32 \<Rightarrow> vm \<Rightarrow> (bool \<times> vm) option" where
  "install_table dir dir_idx flags st = do {
     pde \<leftarrow> load st (dir + 4 * dir_idx);
     if pde AND PAGE_PRESENT = 0 then do {
       (new_table_phys, p) \<leftarrow> pmm_alloc_page (pmm_st st);
       let st = st\<lparr>pmm_st := p\<rparr>;
       if new_table_phys = 0 then Some (False, st)
       else do {
         st \<leftarrow> store (dir + 4 * dir_idx) ((new_table_phys AND 0xFFFFF000) OR PAGE_PRESENT OR PAGE_RW) st;
         st \<leftarrow> (if flags AND PAGE_USER \<noteq> 0
               then do { e \<leftarrow> load st (dir + 4 * dir_idx); store (dir + 4 * dir_idx) (e OR PAGE_USER) st }
               else Some st);
         st \<leftarrow> zero_page
               (if paging_is_enabled st then RECURSIVE_PT_BASE + dir_idx * 4096 else new_table_phys) st;
         Some (True, st) } }
     else if flags AND PAGE_USER \<noteq> 0 then do {
       e \<leftarrow> load st (dir + 4 * dir_idx);
       st \<leftarrow> store (dir + 4 * dir_idx) (e OR PAGE_USER) st;
       Some (True, st) }
     else Some (True, st) }"

definition map_page :: "u32 \<Rightarrow> u32 \<Rightarrow> u32 \<Rightarrow> u32 \<Rightarrow> vm \<Rightarrow> vm option" where
  "map_page dir virt phys flags st =
     (let dir_idx = drop_bit 22 virt;
          table_idx = drop_bit 12 virt AND 0x3FF
      in do {
        (ok, st) \<leftarrow> install_table dir dir_idx flags st;
        if \<not> ok then Some st
        else do {
          table \<leftarrow> (if paging_is_enabled st then Some (RECURSIVE_PT_BASE + dir_idx * 4096)
                   else do { e \<leftarrow> load st (dir + 4 * dir_idx); Some (e AND 0xFFFFF000) });
          store (table + 4 * table_idx) ((phys AND 0xFFFFF000) OR flags) st } })"

subsection \<open>Address spaces\<close>

text \<open>
  The loops \<^verbatim>\<open>for (addr = a; addr < e; addr += PAGE_SIZE)\<close>: the body returns a status, and a status
  other than 0 leaves the loop.
\<close>

partial_function (option) page_loop ::
  "(u32 \<Rightarrow> 's \<Rightarrow> (int \<times> 's) option) \<Rightarrow> u32 \<Rightarrow> u32 \<Rightarrow> 's \<Rightarrow> (int \<times> 's) option" where
  "page_loop f a e s =
     (if a < e then do {
        (r, s) \<leftarrow> f a s;
        if r \<noteq> 0 then Some (r, s) else page_loop f (a + 4096) e s }
      else Some (0, s))"

definition map_pages :: "u32 \<Rightarrow> u32 \<Rightarrow> u32 \<Rightarrow> u32 \<Rightarrow> vm \<Rightarrow> vm option" where
  "map_pages dir offset a e st = do {
     (_, st) \<leftarrow> page_loop (\<lambda>addr st. do {
       st \<leftarrow> map_page dir (addr + offset) addr (PAGE_PRESENT OR PAGE_RW) st;
       Some (0, st) }) a e st;
     Some st }"

text \<open>The kernel directory entries that are still missing get an empty table; without memory the loop ends.\<close>

definition kernel_table :: "u32 \<Rightarrow> nat \<Rightarrow> vm \<Rightarrow> (unit option \<times> vm) option" where
  "kernel_table page_directory dir_idx st = do {
     e \<leftarrow> load st (page_directory + 4 * of_nat dir_idx);
     if e AND PAGE_PRESENT \<noteq> 0 then Some (None, st)
     else do {
       (table_phys, p) \<leftarrow> pmm_alloc_page (pmm_st st);
       let st = st\<lparr>pmm_st := p\<rparr>;
       if table_phys = 0 then Some (Some (), st)
       else do {
         st \<leftarrow> store (page_directory + 4 * of_nat dir_idx)
           ((table_phys AND 0xFFFFF000) OR PAGE_PRESENT OR PAGE_RW) st;
         st \<leftarrow> zero_page table_phys st;
         Some (None, st) } } }"

definition paging_init :: "u32 \<Rightarrow> u32 \<Rightarrow> u32 \<Rightarrow> u32 \<Rightarrow> vm \<Rightarrow> vm option" where
  "paging_init page_directory first_page_table kstart kend st = do {
     st \<leftarrow> zero_page page_directory st;
     st \<leftarrow> zero_page first_page_table st;
     let st = paging_init_pat st;
     st \<leftarrow> for_each (\<lambda>i. store (first_page_table + 4 * of_nat i)
             ((of_nat (i * 4096) AND 0xFFFFF000) OR PAGE_PRESENT OR PAGE_RW)) [0..<1024] st;
     st \<leftarrow> store page_directory (first_page_table OR PAGE_PRESENT OR PAGE_RW) st;
     st \<leftarrow> map_pages page_directory 0 0x00400000 0x04000000 st;
     st \<leftarrow> map_pages page_directory (0xC0000000 - kstart) kstart kend st;
     st \<leftarrow> store (page_directory + 4 * 1023) (page_directory OR PAGE_PRESENT OR PAGE_RW) st;
     (_, st) \<leftarrow> for_until (kernel_table page_directory) [768..<1023] st;
     let st = enable_pg (load_pd page_directory st);
     Some (st\<lparr>kernel_page_directory := page_directory, kernel_page_directory_phys := page_directory,
              current_page_directory := page_directory, current_page_directory_phys := page_directory\<rparr>) }"

definition vmm_map_page :: "u32 \<Rightarrow> u32 \<Rightarrow> u32 \<Rightarrow> vm \<Rightarrow> (int \<times> vm) option" where
  "vmm_map_page virt phys flags st = do {
     st \<leftarrow> map_page (current_page_directory st) virt phys flags st;
     Some (0, st) }"

text \<open>The second component is what is stored through \<open>out_phys\<close>.\<close>

definition vmm_map_page_alloc :: "u32 \<Rightarrow> u32 \<Rightarrow> vm \<Rightarrow> (int \<times> u32 option \<times> vm) option" where
  "vmm_map_page_alloc virt flags st = do {
     (phys, p) \<leftarrow> pmm_alloc_page (pmm_st st);
     let st = st\<lparr>pmm_st := p\<rparr>;
     if phys = 0 then Some (- 1, None, st)
     else do {
       (_, st) \<leftarrow> vmm_map_page virt phys flags st;
       Some (0, Some phys, st) } }"

definition vmm_map_range_alloc :: "u32 \<Rightarrow> u32 \<Rightarrow> u32 \<Rightarrow> vm \<Rightarrow> (int \<times> vm) option" where
  "vmm_map_range_alloc virt sz flags st =
     (if sz = 0 then Some (0, st)
      else page_loop (\<lambda>addr st. do {
             (r, _, st) \<leftarrow> vmm_map_page_alloc addr flags st;
             Some (if r \<noteq> 0 then - 1 else 0, st) })
           (virt AND 0xFFFFF000) ((virt + sz + 0xFFF) AND 0xFFFFF000) st)"

text \<open>\<open>out\<close> tells whether \<open>out_phys\<close> is given; the inner \<^const>\<open>None\<close> is the result \<^verbatim>\<open>-1\<close>.\<close>

definition vmm_virt_to_phys :: "bool \<Rightarrow> u32 \<Rightarrow> vm \<Rightarrow> u32 option option" where
  "vmm_virt_to_phys out virt st =
     (if \<not> out then Some None
      else if \<not> paging_is_enabled st then Some (Some virt)
      else
        let dir_idx = drop_bit 22 virt;
            table_idx = drop_bit 12 virt AND 0x3FF
        in do {
          pde \<leftarrow> load st (RECURSIVE_PD_BASE + 4 * dir_idx);
          if pde AND PAGE_PRESENT = 0 then Some None
          else do {
            pte \<leftarrow> load st (RECURSIVE_PT_BASE + dir_idx * 4096 + 4 * table_idx);
            if pte AND PAGE_PRESENT = 0 then Some None
            else Some (Some ((pte AND 0xFFFFF000) OR (virt AND 0xFFF))) } })"

definition vmm_mark_user_range :: "u32 \<Rightarrow> u32 \<Rightarrow> vm \<Rightarrow> (int \<times> vm) option" where
  "vmm_mark_user_range virt sz st =
     (if sz = 0 then Some (0, st)
      else page_loop (\<lambda>addr st. do {
             r \<leftarrow> vmm_virt_to_phys True addr st;
             case r of
               None \<Rightarrow> Some (- 1, st)
             | Some phys \<Rightarrow> vmm_map_page addr phys (PAGE_PRESENT OR PAGE_RW OR PAGE_USER) st })
           (virt AND 0xFFFFF000) ((virt + sz + 0xFFF) AND 0xFFFFF000) st)"

text \<open>What \<open>dump_mapping\<close> prints.\<close>

datatype mapping_line = PagingOff u32 | PdeMissing u32 u32 | PteMissing u32 u32 | Mapping u32 u32 u32

definition dump_mapping :: "u32 \<Rightarrow> vm \<Rightarrow> mapping_line option" where
  "dump_mapping addr st =
     (if \<not> paging_is_enabled st then Some (PagingOff addr)
      else
        let dir_idx = drop_bit 22 addr;
            table_idx = drop_bit 12 addr AND 0x3FF
        in do {
          pde \<leftarrow> load st (RECURSIVE_PD_BASE + 4 * dir_idx);
          if pde AND PAGE_PRESENT = 0 then Some (PdeMissing dir_idx pde)
          else do {
            pte \<leftarrow> load st (RECURSIVE_PT_BASE + dir_idx * 4096 + 4 * table_idx);
            if pte AND PAGE_PRESENT = 0 then Some (PteMissing table_idx pte)
            else Some (Mapping ((pte AND 0xFFFFF000) OR (addr AND 0xFFF)) pde pte) } })"

definition paging_kernel_dir :: "vm \<Rightarrow> u32" where
  "paging_kernel_dir st = kernel_page_directory st"

definition paging_kernel_dir_phys :: "vm \<Rightarrow> u32" where
  "paging_kernel_dir_phys st = kernel_page_directory_phys st"

definition paging_current_dir :: "vm \<Rightarrow> u32" where
  "paging_current_dir st = current_page_directory st"

definition paging_current_dir_phys :: "vm \<Rightarrow> u32" where
  "paging_current_dir_phys st = current_page_directory_phys st"

definition paging_set_current_dir :: "u32 \<Rightarrow> u32 \<Rightarrow> vm \<Rightarrow> vm" where
  "paging_set_current_dir dir phys st =
     (if dir = 0 \<or> phys = 0 then st
      else load_pd phys (st\<lparr>current_page_directory := dir, current_page_directory_phys := phys\<rparr>))"

subsection \<open>The address space of a new process\<close>

text \<open>
  The heap on top of this component.  A fault inside the mapping functions stops the machine: the
  state handed through the heap is then \<^const>\<open>None\<close>.
\<close>

definition heap_map :: "u32 \<Rightarrow> vm option \<Rightarrow> int \<times> vm option" where
  "heap_map addr k =
     (case Option.bind k (vmm_map_page_alloc addr (PAGE_PRESENT OR PAGE_RW)) of
        None \<Rightarrow> (- 1, None)
      | Some (r, _, st) \<Rightarrow> (r, Some st))"

definition heap_phys :: "u32 \<Rightarrow> vm option \<Rightarrow> u32 option" where
  "heap_phys virt k = Option.bind (Option.bind k (vmm_virt_to_phys True virt)) id"

definition kernel_malloc :: "u32 \<Rightarrow> int \<Rightarrow> kheap \<times> vm \<Rightarrow> (u32 \<times> u32 \<times> kheap \<times> vm) option" where
  "kernel_malloc sz align s = do {
     (res, phys, h, k) \<leftarrow> kmalloc heap_map heap_phys sz align (fst s) (Some (snd s));
     st \<leftarrow> k;
     _ \<leftarrow> vmm_virt_to_phys (res \<noteq> 0) res st;
     Some (res, phys, h, st) }"

text \<open>One of the 16 low tables: copied from the kernel's, without the user bit.\<close>

definition copy_low_table ::
  "u32 \<Rightarrow> nat \<Rightarrow> u32 list \<times> kheap \<times> vm \<Rightarrow> (unit option \<times> u32 list \<times> kheap \<times> vm) option" where
  "copy_low_table dir i s = (case s of (low_tables, h, st) \<Rightarrow> do {
     e \<leftarrow> load st (kernel_page_directory st + 4 * of_nat i);
     if e AND PAGE_PRESENT = 0 then Some (None, low_tables, h, st)
     else do {
       (pt, pt_phys, h, st) \<leftarrow> kernel_malloc 4096 4096 (h, st);
       if pt = 0 then Some (Some (), low_tables, h, st)
       else do {
         st \<leftarrow> copy_page pt (RECURSIVE_PT_BASE + of_nat i * 4096) st;
         e \<leftarrow> load st (kernel_page_directory st + 4 * of_nat i);
         st \<leftarrow> store (dir + 4 * of_nat i)
           ((pt_phys AND 0xFFFFF000) OR (e AND 0xFFF AND NOT PAGE_USER)) st;
         Some (None, low_tables[i := pt], h, st) } } })"

definition free_low_tables :: "u32 list \<Rightarrow> kheap \<Rightarrow> kheap" where
  "free_low_tables low_tables h = fold (\<lambda>p h. if p \<noteq> 0 then kfree p h else h) low_tables h"

definition share_kernel_entry :: "u32 \<Rightarrow> nat \<Rightarrow> vm \<Rightarrow> vm option" where
  "share_kernel_entry dir i st = do {
     e \<leftarrow> load st (kernel_page_directory st + 4 * of_nat i);
     store (dir + 4 * of_nat i) e st }"

definition paging_create_user_dir :: "kheap \<times> vm \<Rightarrow> (u32 \<times> u32 \<times> kheap \<times> vm) option" where
  "paging_create_user_dir s = do {
     (dir, phys, h, st) \<leftarrow> kernel_malloc 4096 4096 s;
     if dir = 0 then Some (0, 0, h, st)
     else do {
       st \<leftarrow> zero_page dir st;
       let prev_dir = paging_current_dir st;
       let prev_phys = paging_current_dir_phys st;
       let st = paging_set_current_dir (kernel_page_directory st) (kernel_page_directory_phys st) st;
       (failed, low_tables, h, st) \<leftarrow>
         for_until (copy_low_table dir) [0..<16] (replicate 16 0, h, st);
       let st = paging_set_current_dir prev_dir prev_phys st;
       if failed \<noteq> None then Some (0, 0, kfree dir (free_low_tables low_tables h), st)
       else do {
         st \<leftarrow> for_each (share_kernel_entry dir) [768..<1023] st;
         st \<leftarrow> store (dir + 4 * 1023) ((phys AND 0xFFFFF000) OR PAGE_PRESENT OR PAGE_RW) st;
         Some (dir, phys, h, st) } } }"

section \<open>Page arithmetic\<close>

abbreviation frame :: "u32 \<Rightarrow> u32" where "frame e \<equiv> e AND 0xFFFFF000"
abbreviation dix :: "u32 \<Rightarrow> u32" where "dix v \<equiv> drop_bit 22 v"
abbreviation tix :: "u32 \<Rightarrow> u32" where "tix v \<equiv> drop_bit 12 v AND 0x3FF"
abbreviation present :: "u32 \<Rightarrow> bool" where "present e \<equiv> e AND 1 \<noteq> 0"

lemma frame_mask: "(0xFFFFF000 :: u32) = NOT (mask 12)" "(0xFFF :: u32) = mask 12" "(0x3FF :: u32) = mask 10"
  by (simp_all add: mask_eq_exp_minus_1)

lemma unat_frame: "unat (frame e) = unat e - unat e mod 4096"
  unfolding frame_mask unat_and_not_mask by simp

lemma unat_offset: "unat (v AND 0xFFF :: u32) = unat v mod 4096"
  unfolding frame_mask unat_and_mask by simp

lemma unat_tix: "unat (tix v) = unat v div 4096 mod 1024"
  unfolding frame_mask unat_and_mask unat_drop_bit_eq by (simp add: drop_bit_eq_div)

lemma unat_dix: "unat (dix v) = unat v div 4194304"
  unfolding unat_drop_bit_eq by (simp add: drop_bit_eq_div)

lemma tix_less [simp]: "tix v < 1024"
  by (simp add: word_less_nat_alt unat_tix)

lemma dix_less [simp]: "dix v < 1024"
proof -
  have "unat v < 1024 * 4194304" using unat_lt_exp [of v] by simp
  then have "unat v div 4194304 < 1024" by (rule less_mult_imp_div_less)
  then show ?thesis by (simp add: word_less_nat_alt unat_dix)
qed

lemma frame_frame [simp]: "frame (frame e) = frame e"
  by (simp add: and.assoc)

lemma frame_zero [simp]: "frame 0 = 0"
  by simp

lemma frame_dvd: "4096 dvd unat (frame e)"
  by (simp add: unat_frame dvd_minus_mod)

lemma frame_or: "frame (a OR b) = frame a OR frame b"
  by (rule bit_word_eqI) (auto simp: bit_simps)

lemma frame_small: "fl < 4096 \<Longrightarrow> frame fl = 0"
  by (simp add: word_eq_unat_iff unat_frame word_less_nat_alt)

lemma frame_of_aligned: "4096 dvd unat e \<Longrightarrow> frame e = e"
  by (simp add: word_eq_unat_iff unat_frame dvd_eq_mod_eq_0)

lemma unat_slot: "i < 1024 \<Longrightarrow> unat (frame e + 4 * i) = unat (frame e) + 4 * unat i"
proof -
  assume "i < 1024"
  then have i: "unat i < 1024" by (simp add: word_less_nat_alt)
  then have "unat (4 * i) = 4 * unat i" by (simp add: unat_word_ariths)
  moreover obtain k where k: "unat (frame e) = 4096 * k" using frame_dvd [of e] by (elim dvdE)
  moreover have "unat (frame e) < 4096 * 1048576" using unat_lt_exp [of "frame e"] by simp
  then have "k < 1048576" unfolding k by (rule mult_less_cancel1 [THEN iffD1, THEN conjunct2])
  with k i have "unat (frame e) + 4 * unat i < 2 ^ 32" by simp
  ultimately show ?thesis by (simp add: unat_word_ariths)
qed

lemma slot_eq_iff:
  assumes "i < 1024" "j < 1024"
  shows "frame a + 4 * i = frame b + 4 * j \<longleftrightarrow> frame a = frame b \<and> i = j"
proof
  assume "frame a + 4 * i = frame b + 4 * j"
  then have eq: "unat (frame a) + 4 * unat i = unat (frame b) + 4 * unat j"
    using assms by (metis unat_slot)
  have ij: "unat i < 1024" "unat j < 1024" using assms by (simp_all add: word_less_nat_alt)
  obtain k l where kl: "unat (frame a) = 4096 * k" "unat (frame b) = 4096 * l"
    using frame_dvd [of a] frame_dvd [of b] by (elim dvdE)
  have "(4096 * k + 4 * unat i) div 4096 = (4096 * l + 4 * unat j) div 4096"
    using eq unfolding kl by (rule arg_cong)
  then have "k = l" using ij by simp
  then show "frame a = frame b \<and> i = j" using eq kl by (simp add: word_eq_unat_iff)
qed simp

lemma four_eq_iff [simp]: "i < 1024 \<Longrightarrow> j < 1024 \<Longrightarrow> 4 * i = 4 * j \<longleftrightarrow> i = (j :: u32)"
  using slot_eq_iff [of i j 0 0] by simp

lemma four_last [simp]: "i < 1024 \<Longrightarrow> 4 * i = 4092 \<longleftrightarrow> i = (1023 :: u32)"
  using four_eq_iff [of i 1023] by simp

text \<open>The recursive window: word \<open>j\<close> of the table behind directory entry \<open>i\<close>.\<close>

lemma unat_window:
  assumes "i < 1024" "j < 1024"
  shows "unat (0xFFC00000 + i * 4096 + 4 * j :: u32) = 4096 * (1023 * 1024 + unat i) + 4 * unat j"
proof -
  have ij: "unat i < 1024" "unat j < 1024" using assms by (simp_all add: word_less_nat_alt)
  have "unat (i * 4096) = unat i * 4096" "unat (4 * j) = 4 * unat j"
    using ij by (simp_all add: unat_word_ariths)
  then show ?thesis using ij by (simp add: unat_word_ariths)
qed

lemma window_decode:
  assumes "i < 1024" "j < 1024"
  shows "dix (0xFFC00000 + i * 4096 + 4 * j) = 1023"
    and "tix (0xFFC00000 + i * 4096 + 4 * j) = i"
    and "(0xFFC00000 + i * 4096 + 4 * j) AND 0xFFF = 4 * j"
proof -
  let ?v = "0xFFC00000 + i * 4096 + 4 * j :: u32"
  have ij: "unat i < 1024" "unat j < 1024" using assms by (simp_all add: word_less_nat_alt)
  have d: "unat ?v div 4096 = 1023 * 1024 + unat i" "unat ?v mod 4096 = 4 * unat j"
    unfolding unat_window [OF assms] using ij
    by (simp_all only: div_mult_self4 mod_mult_self4 div_less mod_less)
  have "unat ?v div 4194304 = unat ?v div 4096 div 1024" by (simp add: div_mult2_eq [symmetric])
  then have "unat ?v div 4194304 = 1023" unfolding d using ij by simp
  then show "dix ?v = 1023" unfolding word_eq_unat_iff unat_dix by simp
  show "tix ?v = i" unfolding word_eq_unat_iff unat_tix d using ij by (simp only: mod_mult_self3 mod_less)
  have "unat (4 * j) = 4 * unat j" using ij by (simp add: unat_word_ariths)
  then show "?v AND 0xFFF = 4 * j" unfolding word_eq_unat_iff unat_offset d by simp
qed

lemma frame_or_offset: "x < 4096 \<Longrightarrow> frame a OR x = frame a + x"
proof -
  assume "x < 4096"
  then have "x AND 0xFFF = x" by (simp add: word_eq_unat_iff unat_offset word_less_nat_alt)
  moreover have "frame a AND (x AND 0xFFF) = 0"
    unfolding frame_mask by (rule bit_word_eqI) (auto simp: bit_simps)
  ultimately have "frame a AND x = 0" by simp
  then show ?thesis by (rule disjunctive_add_eq_or [symmetric])
qed

lemma page_eq_iff: "drop_bit 12 v = drop_bit 12 w \<longleftrightarrow> dix v = dix w \<and> tix v = tix w"
proof -
  have d: "unat (drop_bit 12 x) = unat x div 4096" for x :: u32
    unfolding unat_drop_bit_eq by (simp add: drop_bit_eq_div)
  have e: "unat x div 4194304 = unat x div 4096 div 1024" for x :: u32
    by (simp add: div_mult2_eq [symmetric])
  show ?thesis unfolding word_eq_unat_iff unat_dix unat_tix d e
    by (metis div_mult_mod_eq)
qed

lemma frame_slot [simp]: "i < 1024 \<Longrightarrow> frame (frame e + 4 * i) = frame e"
proof -
  assume i: "i < 1024"
  then have "4 * unat i < 4096" by (simp add: word_less_nat_alt)
  moreover obtain k where "unat (frame e) = 4096 * k" using frame_dvd [of e] by (elim dvdE)
  ultimately show ?thesis
    unfolding word_eq_unat_iff unat_frame [of "frame e + 4 * i"] unat_slot [OF i] by simp
qed

lemma slot_decode:
  assumes "i < 1024"
  shows "drop_bit 12 (frame v + 4 * i) = drop_bit 12 v" "(frame v + 4 * i) AND 0xFFF = 4 * i"
proof -
  have i: "4 * unat i < 4096" using assms by (simp add: word_less_nat_alt)
  obtain k where k: "unat (frame v) = 4096 * k" using frame_dvd [of v] by (elim dvdE)
  have d: "unat (drop_bit 12 x) = unat x div 4096" for x :: u32
    unfolding unat_drop_bit_eq by (simp add: drop_bit_eq_div)
  have "unat v div 4096 = k" using k unfolding unat_frame
    by (metis minus_mod_eq_mult_div mult_left_cancel zero_neq_numeral)
  with i k show "drop_bit 12 (frame v + 4 * i) = drop_bit 12 v"
    unfolding word_eq_unat_iff d unat_slot [OF assms] by simp
  have "unat (4 * i) = 4 * unat i" using i by (simp add: unat_word_ariths)
  with i k show "(frame v + 4 * i) AND 0xFFF = 4 * i"
    unfolding word_eq_unat_iff unat_offset unat_slot [OF assms] by simp
qed

section \<open>The page walk\<close>

abbreviation pde :: "(u32 \<Rightarrow> u32) \<Rightarrow> u32 \<Rightarrow> u32 \<Rightarrow> u32" where
  "pde m d i \<equiv> m (frame d + 4 * i)"

abbreviation pte :: "(u32 \<Rightarrow> u32) \<Rightarrow> u32 \<Rightarrow> u32 \<Rightarrow> u32 \<Rightarrow> u32" where
  "pte m d i j \<equiv> m (frame (pde m d i) + 4 * j)"

lemma walk_pte:
  "walk m d v = (if present (pde m d (dix v)) \<and> present (pte m d (dix v) (tix v))
     then Some (frame (pte m d (dix v) (tix v)) OR (v AND 0xFFF)) else None)"
  by (simp add: walk_def Let_def)

lemma walk_slot:
  assumes "i < 1024" "walk m d (frame v) = Some p" "frame p = p"
  shows "walk m d (frame v + 4 * i) = Some (p + 4 * i)"
proof -
  have "drop_bit 12 (frame v + 4 * i) = drop_bit 12 (frame v)"
    using slot_decode(1) [OF assms(1), of v] slot_decode(1) [of 0 v] by simp
  then have d: "dix (frame v + 4 * i) = dix (frame v)" "tix (frame v + 4 * i) = tix (frame v)"
    unfolding page_eq_iff by simp_all
  have "frame v AND 0xFFF = 0" using slot_decode(2) [of 0 v] by simp
  with assms(2) have "p = frame (pte m d (dix (frame v)) (tix (frame v)))"
    by (auto simp: walk_pte split: if_splits)
  moreover have "4 * i < 4096" using assms(1) by (simp add: word_less_nat_alt unat_word_ariths)
  ultimately show ?thesis using assms(2,3) frame_or_offset [of "4 * i" p]
    by (simp add: walk_pte d slot_decode(2) [OF assms(1)] split: if_splits)
qed

text \<open>
  The directory \<open>d\<close> and its tables lie in pairwise different frames, none of which is in the set
  \<open>P\<close> of free pages; only the last entry may lead back to the directory.
\<close>

definition tables_ok :: "(u32 \<Rightarrow> u32) \<Rightarrow> u32 \<Rightarrow> nat set \<Rightarrow> bool" where
  "tables_ok m d P \<longleftrightarrow> unat (frame d) div 4096 \<notin> P \<and>
     (\<forall>i<1024. present (pde m d i) \<longrightarrow>
        unat (frame (pde m d i)) div 4096 \<notin> P
        \<and> (i \<noteq> 1023 \<longrightarrow> frame (pde m d i) \<noteq> frame d)
        \<and> (\<forall>j<1024. present (pde m d j) \<longrightarrow> frame (pde m d i) = frame (pde m d j) \<longrightarrow> i = j))"

definition pres :: "(u32 \<Rightarrow> u32) \<Rightarrow> u32 \<Rightarrow> u32 set" where
  "pres m d = {i. i < 1024 \<and> present (pde m d i)}"

lemma finite_pres [simp]: "finite (pres m d)"
  by (rule finite)

lemma tables_okD:
  assumes "tables_ok m d P" "i < 1024" "present (pde m d i)"
  shows "unat (frame (pde m d i)) div 4096 \<notin> P" "i \<noteq> 1023 \<Longrightarrow> frame (pde m d i) \<noteq> frame d"
    "j < 1024 \<Longrightarrow> present (pde m d j) \<Longrightarrow> frame (pde m d i) = frame (pde m d j) \<longleftrightarrow> i = j"
  using assms unfolding tables_ok_def by blast+

lemma tables_ok_mono: "tables_ok m d P \<Longrightarrow> Q \<subseteq> P \<Longrightarrow> tables_ok m d Q"
  unfolding tables_ok_def by blast

lemma tables_ok_cong:
  assumes "tables_ok m d P" "\<And>i. i < 1024 \<Longrightarrow> present (pde m' d i) = present (pde m d i)"
    "\<And>i. i < 1024 \<Longrightarrow> present (pde m d i) \<Longrightarrow> frame (pde m' d i) = frame (pde m d i)"
  shows "tables_ok m' d P"
  using assms(1) unfolding tables_ok_def by (simp add: assms(2,3))

text \<open>Changing one entry of a table changes the translation of its page only.\<close>

lemma walk_write_pte:
  assumes "tables_ok m d P" "i < 1024" "present (pde m d i)" "i \<noteq> 1023" "j < 1024" "dix w \<noteq> 1023"
  shows "walk (m(frame (pde m d i) + 4 * j := x)) d w =
    (if dix w = i \<and> tix w = j then if present x then Some (frame x OR (w AND 0xFFF)) else None
     else walk m d w)"
proof -
  let ?m = "m(frame (pde m d i) + 4 * j := x)"
  have p: "pde ?m d k = pde m d k" if "k < 1024" for k
    using tables_okD(2) [OF assms(1-3) assms(4)] that assms(5) by (auto simp: slot_eq_iff)
  have "frame (pde m d (dix w)) + 4 * tix w = frame (pde m d i) + 4 * j \<longleftrightarrow> dix w = i \<and> tix w = j"
    if "present (pde m d (dix w))"
    using tables_okD(3) [OF assms(1-3) dix_less that] assms(5) by (auto simp: slot_eq_iff)
  then show ?thesis unfolding walk_pte p [OF dix_less] using assms(3) by auto
qed

lemma tables_ok_write_pte:
  assumes "tables_ok m d P" "i < 1024" "present (pde m d i)" "i \<noteq> 1023" "j < 1024"
  shows "tables_ok (m(frame (pde m d i) + 4 * j := x)) d P"
    and "\<And>k. k < 1024 \<Longrightarrow> pde (m(frame (pde m d i) + 4 * j := x)) d k = pde m d k"
proof -
  show *: "\<And>k. k < 1024 \<Longrightarrow> pde (m(frame (pde m d i) + 4 * j := x)) d k = pde m d k"
    using tables_okD(2) [OF assms(1-3) assms(4)] assms(5) by (auto simp: slot_eq_iff)
  show "tables_ok (m(frame (pde m d i) + 4 * j := x)) d P"
    by (rule tables_ok_cong [OF assms(1)]) (simp_all only: *)
qed

text \<open>Changing the rights in a directory entry changes no translation.\<close>

lemma walk_write_rights:
  assumes "tables_ok m d P" "i < 1024" "present (pde m d i)" "i \<noteq> 1023"
    "present x" "frame x = frame (pde m d i)"
  shows "dix w \<noteq> 1023 \<Longrightarrow> walk (m(frame d + 4 * i := x)) d w = walk m d w"
    and "tables_ok (m(frame d + 4 * i := x)) d P"
proof -
  let ?m = "m(frame d + 4 * i := x)"
  have p: "present (pde ?m d k) = present (pde m d k)" "frame (pde ?m d k) = frame (pde m d k)"
    if "k < 1024" for k
    using assms that by (auto simp: slot_eq_iff)
  show "tables_ok ?m d P" by (rule tables_ok_cong [OF assms(1)]) (simp_all only: p)
  assume w: "dix w \<noteq> 1023"
  have "present (pde m d (dix w)) \<Longrightarrow> frame (pde m d (dix w)) + 4 * tix w \<noteq> frame d + 4 * i"
    using tables_okD(2) [OF assms(1) dix_less _ w] assms(2) by (auto simp: slot_eq_iff)
  then show "walk ?m d w = walk m d w" unfolding walk_pte p [OF dix_less] by auto
qed

text \<open>A page of zeroes.\<close>

definition zeroed :: "u32 \<Rightarrow> (u32 \<Rightarrow> u32) \<Rightarrow> u32 \<Rightarrow> u32" where
  "zeroed f m = (\<lambda>a. if \<exists>j<1024. a = f + 4 * j then 0 else m a)"

lemma zeroed_same: "frame f = f \<Longrightarrow> j < 1024 \<Longrightarrow> zeroed f m (f + 4 * j) = 0"
  by (auto simp: zeroed_def)

lemma zeroed_other: "frame f = f \<Longrightarrow> frame a \<noteq> f \<Longrightarrow> zeroed f m a = m a"
  by (auto simp: zeroed_def) (metis frame_slot)

text \<open>A new, empty table in a free frame.\<close>

lemma walk_new_table:
  assumes "tables_ok m d P" "i < 1024" "i \<noteq> 1023" "\<not> present (pde m d i)"
    "frame f = f" "unat f div 4096 \<in> P" "present x" "frame x = f"
  defines "m' \<equiv> zeroed f (m(frame d + 4 * i := x))"
  shows "dix w \<noteq> 1023 \<Longrightarrow> walk m' d w = walk m d w"
    and "tables_ok m' d (P - {unat f div 4096})"
    and "\<And>k. k < 1024 \<Longrightarrow> pde m' d k = (if k = i then x else pde m d k)"
    and "\<And>j. j < 1024 \<Longrightarrow> pte m' d i j = 0"
proof -
  have fd: "frame d \<noteq> f" using assms(1,6) by (auto simp: tables_ok_def)
  have fk: "frame (pde m d k) \<noteq> f" if "k < 1024" "present (pde m d k)" for k
    using tables_okD(1) [OF assms(1) that] assms(6) by auto
  show p: "pde m' d k = (if k = i then x else pde m d k)" if "k < 1024" for k
    using that fd assms(2) unfolding m'_def by (subst zeroed_other) (auto simp: assms(5) slot_eq_iff)
  show z: "pte m' d i j = 0" if "j < 1024" for j
    using that assms(2,5,8) p [OF assms(2)] by (simp add: m'_def zeroed_same)
  show "tables_ok m' d (P - {unat f div 4096})"
    unfolding tables_ok_def
  proof (intro conjI allI impI)
    show "unat (frame d) div 4096 \<notin> P - {unat f div 4096}" using assms(1) by (simp add: tables_ok_def)
    fix k assume k: "k < 1024" "present (pde m' d k)"
    then show "unat (frame (pde m' d k)) div 4096 \<notin> P - {unat f div 4096}"
      using tables_okD(1) [OF assms(1), of k] assms(8) by (auto simp: p)
    show "frame (pde m' d k) \<noteq> frame d" if "k \<noteq> 1023"
      using tables_okD(2) [OF assms(1), of k] k that fd assms(8) by (auto simp: p)
    fix l assume l: "l < 1024" "present (pde m' d l)" "frame (pde m' d k) = frame (pde m' d l)"
    show "k = l"
    proof (cases "k = i"; cases "l = i")
      assume "k \<noteq> i" "l \<noteq> i"
      with k l show ?thesis using tables_okD(3) [OF assms(1), of k l] by (simp add: p)
    qed (use k l fk [of k] fk [of l] assms(8) in \<open>simp_all add: p\<close>)
  qed
  assume w: "dix w \<noteq> 1023"
  show "walk m' d w = walk m d w"
  proof (cases "dix w = i")
    case True
    then show ?thesis using z [OF tix_less] p [OF assms(2)] assms(4,7) by (simp add: walk_pte)
  next
    case False
    have "m' (frame (pde m d (dix w)) + 4 * tix w) = m (frame (pde m d (dix w)) + 4 * tix w)"
      if "present (pde m d (dix w))"
      unfolding m'_def using fk [OF dix_less that] tables_okD(2) [OF assms(1) dix_less that w] assms(2)
      by (subst zeroed_other) (auto simp: assms(5) slot_eq_iff)
    then show ?thesis using False by (auto simp: walk_pte p)
  qed
qed

section \<open>Accesses to the tables\<close>

text \<open>
  With paging on, the code reaches the directory through its virtual address and the tables through
  the recursive window; with paging off both are physical addresses.
\<close>

definition reach :: "vm \<Rightarrow> u32 \<Rightarrow> u32 \<Rightarrow> bool" where
  "reach st dir d \<longleftrightarrow> frame d = d \<and>
     (if paging_is_enabled st
      then frame (cr3 st) = d \<and> frame dir = dir \<and> dix dir \<noteq> 1023 \<and> walk (pmem st) d dir = Some d
           \<and> present (pde (pmem st) d 1023) \<and> frame (pde (pmem st) d 1023) = d
      else dir = d)"

lemma reachD:
  assumes "reach st dir d"
  shows "frame d = d"
    and "paging_is_enabled st \<Longrightarrow> frame (cr3 st) = d"
    and "paging_is_enabled st \<Longrightarrow> frame dir = dir"
    and "paging_is_enabled st \<Longrightarrow> dix dir \<noteq> 1023"
    and "paging_is_enabled st \<Longrightarrow> walk (pmem st) d dir = Some d"
    and "paging_is_enabled st \<Longrightarrow> present (pde (pmem st) d 1023)"
    and "paging_is_enabled st \<Longrightarrow> frame (pde (pmem st) d 1023) = d"
    and "\<not> paging_is_enabled st \<Longrightarrow> dir = d"
  using assms unfolding reach_def if_bool_eq_conj by blast+

definition table_addr :: "vm \<Rightarrow> u32 \<Rightarrow> u32 \<Rightarrow> u32" where
  "table_addr st d i = (if paging_is_enabled st then 0xFFC00000 + i * 4096 else frame (pde (pmem st) d i))"

lemma walk_cr3: "frame c = d \<Longrightarrow> walk m c = walk m d"
  by (auto simp: walk_def fun_eq_iff)

lemma reach_dir:
  assumes "reach st dir d" "i < 1024"
  shows "mmu_translate st (dir + 4 * i) = Some (d + 4 * i)"
  using assms walk_slot [of i "pmem st" d dir d] walk_cr3 [of "cr3 st" d "pmem st"]
  by (auto simp: reach_def mmu_translate_def split: if_splits)

lemma reach_window:
  assumes "paging_is_enabled st" "frame (cr3 st) = d" "present (pde (pmem st) d 1023)"
    "frame (pde (pmem st) d 1023) = d" "present (pde (pmem st) d i)" "i < 1024" "j < 1024"
  shows "mmu_translate st (0xFFC00000 + i * 4096 + 4 * j) = Some (frame (pde (pmem st) d i) + 4 * j)"
proof -
  have "4 * j < 4096" using assms(7) by (simp add: word_less_nat_alt unat_word_ariths)
  moreover have "frame d = d" using assms(2) frame_frame by metis
  ultimately show ?thesis
    using assms by (simp add: mmu_translate_def walk_cr3 [of "cr3 st" d] walk_pte window_decode frame_or_offset)
qed

lemma reach_table:
  assumes "reach st dir d" "present (pde (pmem st) d i)" "i < 1024" "j < 1024"
  shows "mmu_translate st (table_addr st d i + 4 * j) = Some (frame (pde (pmem st) d i) + 4 * j)"
  using assms reach_window [of st d i j]
  by (auto simp: reach_def table_addr_def mmu_translate_def split: if_splits)

lemma of_nat_less_1024: "i < 1024 \<Longrightarrow> (of_nat i :: u32) < 1024"
  by (simp add: word_less_nat_alt unsigned_of_nat take_bit_nat_eq_self)

lemma ex_of_nat_1024: "(\<exists>i\<in>set [0..<1024]. P (of_nat i :: u32)) \<longleftrightarrow> (\<exists>j<1024. P j)"
proof
  assume "\<exists>j<1024. P j"
  then obtain j where "j < 1024" "P j" by blast
  then show "\<exists>i\<in>set [0..<1024]. P (of_nat i :: u32)"
    by (intro bexI [of _ "unat j"]) (simp_all add: word_less_nat_alt)
qed (use of_nat_less_1024 in fastforce)

lemma zero_page_exec:
  assumes "frame f = f"
    and "\<And>m j. j < 1024 \<Longrightarrow> (\<forall>a. frame a \<noteq> f \<longrightarrow> m a = pmem st a)
      \<Longrightarrow> mmu_translate (st\<lparr>pmem := m\<rparr>) (p + 4 * j) = Some (f + 4 * j)"
  shows "zero_page p st = Some (st\<lparr>pmem := zeroed f (pmem st)\<rparr>)"
proof -
  let ?z = "\<lambda>ix a. if \<exists>i\<in>set ix. a = f + 4 * of_nat i then 0 else pmem st a"
  have "\<exists>s'. for_each (\<lambda>i. store (p + 4 * of_nat i) 0) [0..<1024] st = Some s'
    \<and> s' = st\<lparr>pmem := ?z [0..<1024]\<rparr>"
  proof (rule for_each_invariant [where I = "\<lambda>ix s. s = st\<lparr>pmem := ?z ix\<rparr>"])
    fix pre i rest s
    assume ix: "[0..<1024] = pre @ i # rest" and s: "s = st\<lparr>pmem := ?z pre\<rparr>"
    have "set (pre @ i # rest) = {0..<1024}" unfolding ix [symmetric] by simp
    then have lt: "i < 1024" "\<forall>k\<in>set pre. k < 1024" by auto
    have "\<forall>a. frame a \<noteq> f \<longrightarrow> ?z pre a = pmem st a"
      using lt(2) assms(1) frame_slot [of _ f] by (auto simp: of_nat_less_1024)
    from assms(2) [OF of_nat_less_1024 [OF lt(1)] this] s
    have "store (p + 4 * of_nat i) 0 s = Some (st\<lparr>pmem := (?z pre)(f + 4 * of_nat i := 0)\<rparr>)"
      by (simp add: store_def)
    moreover have "(?z pre)(f + 4 * of_nat i := 0) = ?z (pre @ [i])" by (auto simp: fun_eq_iff)
    ultimately show "\<exists>s'. store (p + 4 * of_nat i) 0 s = Some s' \<and> s' = st\<lparr>pmem := ?z (pre @ [i])\<rparr>"
      by simp
  qed simp
  moreover have "?z [0..<1024] = zeroed f (pmem st)"
    unfolding zeroed_def fun_eq_iff using ex_of_nat_1024 [of "\<lambda>j. a = f + 4 * j" for a] by simp
  ultimately show ?thesis by (simp add: zero_page_def)
qed

section \<open>The invariant of an address space\<close>

definition vm_inv :: "vm \<Rightarrow> u32 \<Rightarrow> u32 \<Rightarrow> bool" where
  "vm_inv st dir d \<longleftrightarrow> reach st dir d \<and> tables_ok (pmem st) d (free_pages (pmm_st st)) \<and> pmm_ok (pmm_st st)"

lemma reach_update:
  assumes "reach st dir d" "paging_is_enabled st \<Longrightarrow> walk m d dir = walk (pmem st) d dir"
    "pde m d 1023 = pde (pmem st) d 1023"
  shows "reach (st\<lparr>pmm_st := p, pmem := m\<rparr>) dir d"
  using assms by (auto simp: reach_def paging_is_enabled_def)

lemma load_dir: "reach st dir d \<Longrightarrow> i < 1024 \<Longrightarrow> load st (dir + 4 * i) = Some (pde (pmem st) d i)"
  by (simp add: load_def reach_dir) (simp add: reach_def)

lemma store_dir:
  "reach st dir d \<Longrightarrow> i < 1024 \<Longrightarrow> store (dir + 4 * i) x st = Some (st\<lparr>pmem := (pmem st)(frame d + 4 * i := x)\<rparr>)"
  by (simp add: store_def reach_dir) (simp add: reach_def)

lemma walk_write_pde_other:
  assumes "tables_ok m d P" "i < 1024" "dix w \<noteq> i" "dix w \<noteq> 1023"
  shows "walk (m(frame d + 4 * i := x)) d w = walk m d w"
proof -
  have "present (pde m d (dix w)) \<Longrightarrow> frame (pde m d (dix w)) + 4 * tix w \<noteq> frame d + 4 * i"
    using tables_okD(2) [OF assms(1) dix_less _ assms(4)] assms(2) by (auto simp: slot_eq_iff)
  then show ?thesis unfolding walk_pte using assms(2,3) by (auto simp: slot_eq_iff)
qed

lemma present_or: "present (a OR b) \<longleftrightarrow> present a \<or> present b"
proof -
  have "present e \<longleftrightarrow> odd e" for e :: u32 by (simp add: and_one_eq odd_iff_mod_2_eq_one)
  moreover have "odd (a OR b) \<longleftrightarrow> odd a \<or> odd b"
    using bit_or_iff [of a b 0] by (simp add: bit_0)
  ultimately show ?thesis by simp
qed

text \<open>A page the physical allocator hands out.\<close>

lemma fresh_frame:
  assumes "pmm_ok p" "free_pages p \<noteq> {}"
  obtains f p' where "pmm_alloc_page p = Some (f, p')" "f \<noteq> 0" "frame f = f"
    "unat f div 4096 \<in> free_pages p" "free_pages p' = free_pages p - {unat f div 4096}" "pmm_ok p'"
proof -
  let ?q = "Min (free_pages p)"
  obtain b where b: "pmm_alloc_page p
      = Some (of_nat (?q * 4096), p\<lparr>pmm_bitmap := b, free_memory := free_memory p - 4096\<rparr>)"
    "free_pages (p\<lparr>pmm_bitmap := b\<rparr>) = free_pages p - {?q}"
    by (rule pmm_alloc_page_Min [OF assms])
  have q: "?q \<in> free_pages p" using assms(2) by simp
  then have lt: "?q < 2 ^ 19" using assms(1) free_pages_less [of ?q p] by (simp add: pmm_ok_def)
  then have u: "unat (of_nat (?q * 4096) :: u32) = ?q * 4096"
    by (simp add: unsigned_of_nat take_bit_nat_eq_self del: of_nat_mult)
  have "?q \<noteq> 0" using q assms(1) by (metis pmm_ok_def)
  then have nz: "of_nat (?q * 4096) \<noteq> (0 :: u32)" unfolding word_eq_unat_iff u by simp
  have fr: "frame (of_nat (?q * 4096)) = of_nat (?q * 4096)" by (rule frame_of_aligned) (simp only: u dvd_triv_right)
  have ok: "pmm_ok (p\<lparr>pmm_bitmap := b, free_memory := free_memory p - 4096\<rparr>)"
    using assms(1) b(2) by (simp add: pmm_ok_def)
  show ?thesis
    by (rule that [OF b(1) nz fr _ _ ok]) (use q b(2) in \<open>simp_all only: u nonzero_mult_div_cancel_right free_pages_memory zero_neq_numeral not_False_eq_True\<close>)
qed

lemma install_table_present:
  assumes "vm_inv st dir d" "i < 1024" "i \<noteq> 1023" "present (pde (pmem st) d i)"
  obtains m where "install_table dir i flags st = Some (True, st\<lparr>pmem := m\<rparr>)"
    "vm_inv (st\<lparr>pmem := m\<rparr>) dir d" "present (pde m d i)"
    "\<And>w. dix w \<noteq> 1023 \<Longrightarrow> walk m d w = walk (pmem st) d w" "pres m d = pres (pmem st) d"
    "pde m d 1023 = pde (pmem st) d 1023"
proof -
  let ?e = "pde (pmem st) d i"
  have inv: "reach st dir d" "tables_ok (pmem st) d (free_pages (pmm_st st))" "pmm_ok (pmm_st st)"
    using assms(1) by (simp_all add: vm_inv_def)
  show ?thesis
  proof (cases "flags AND 4 = 0")
    case True
    then show ?thesis using that [of "pmem st"] assms inv(1) by (simp add: install_table_def load_dir)
  next
    case False
    let ?m = "(pmem st)(frame d + 4 * i := ?e OR 4)"
    have pr: "present (?e OR 4)" "frame (?e OR 4) = frame ?e"
      using assms(4) unfolding present_or frame_or by simp_all
    note w = walk_write_rights [OF inv(2) assms(2,4,3) pr]
    have "pde ?m d 1023 = pde (pmem st) d 1023" using assms(2,3) by (simp add: slot_eq_iff)
    then have "reach (st\<lparr>pmm_st := pmm_st st, pmem := ?m\<rparr>) dir d"
      by (intro reach_update [OF inv(1)] w(1) reachD(4) [OF inv(1)])
    then have "vm_inv (st\<lparr>pmem := ?m\<rparr>) dir d" using inv w(2) by (simp add: vm_inv_def)
    moreover have "install_table dir i flags st = Some (True, st\<lparr>pmem := ?m\<rparr>)"
      using False assms(2,4) inv(1) by (simp add: install_table_def load_dir store_dir)
    moreover have "pres ?m d = pres (pmem st) d" using pr(1) assms(2,4) by (auto simp: pres_def)
    moreover have "pde ?m d 1023 = pde (pmem st) d 1023" using assms(2,3) by simp
    ultimately show ?thesis using that [of ?m] pr(1) w(1) by simp
  qed
qed

text \<open>The new entry is written before the table behind it is cleared; the window shows that table.\<close>

lemma zero_new_table:
  assumes "reach st dir d" "i < 1024" "i \<noteq> 1023" "present (pde (pmem st) d i)"
    "frame (pde (pmem st) d i) = f" "frame d \<noteq> f"
  shows "zero_page (if paging_is_enabled st then 0xFFC00000 + i * 4096 else f) st
    = Some (st\<lparr>pmem := zeroed f (pmem st)\<rparr>)"
proof (rule zero_page_exec)
  show ff: "frame f = f" using assms(5) frame_frame by metis
  fix m and j :: u32 assume j: "j < 1024" and m: "\<forall>a. frame a \<noteq> f \<longrightarrow> m a = pmem st a"
  have same: "pde m d k = pde (pmem st) d k" if "k < 1024" for k using m that assms(6) by simp
  show "mmu_translate (st\<lparr>pmem := m\<rparr>) ((if paging_is_enabled st then 0xFFC00000 + i * 4096 else f) + 4 * j)
    = Some (f + 4 * j)"
  proof (cases "paging_is_enabled st")
    case True
    note r = reachD [OF assms(1)]
    have "mmu_translate (st\<lparr>pmem := m\<rparr>) (0xFFC00000 + i * 4096 + 4 * j)
      = Some (frame (pde m d i) + 4 * j)"
      using reach_window [of "st\<lparr>pmem := m\<rparr>" d i j] True j assms(2,4) r(2,6,7) [OF True] same [of 1023] same [OF assms(2)]
      by (simp add: paging_is_enabled_def)
    with True show ?thesis using assms(5) same [OF assms(2)] by simp
  next
    case False
    then show ?thesis by (simp add: mmu_translate_def paging_is_enabled_def)
  qed
qed

lemma install_table_exec:
  fixes flags :: u32
  assumes "reach st dir d" "i < 1024" "i \<noteq> 1023" "\<not> present (pde (pmem st) d i)"
    "tables_ok (pmem st) d (free_pages (pmm_st st))"
    "pmm_alloc_page (pmm_st st) = Some (f, p')" "f \<noteq> 0" "frame f = f" "frame d \<noteq> f"
  defines "x \<equiv> (if flags AND 4 \<noteq> 0 then (f OR 1 OR 2) OR 4 else f OR 1 OR 2)"
  shows "install_table dir i flags st
    = Some (True, st\<lparr>pmm_st := p', pmem := zeroed f ((pmem st)(frame d + 4 * i := x))\<rparr>)"
proof -
  define st1 where "st1 = st\<lparr>pmm_st := p', pmem := (pmem st)(frame d + 4 * i := x)\<rparr>"
  have x: "present x" "frame x = f" unfolding x_def using assms(8) by (simp_all add: present_or frame_or)
  have dirx: "dix dir \<noteq> i" if "paging_is_enabled st"
    using reachD(5) [OF assms(1) that] assms(4) by (auto simp: walk_pte split: if_splits)
  have r1: "reach (st\<lparr>pmm_st := p', pmem := (pmem st)(frame d + 4 * i := y)\<rparr>) dir d" for y
    using assms(2,3) dirx reachD(4) [OF assms(1)]
    by (intro reach_update [OF assms(1)] walk_write_pde_other [OF assms(5)]) simp_all
  have r: "reach (st\<lparr>pmm_st := p'\<rparr>) dir d"
    using reach_update [OF assms(1), of "pmem st" p'] by simp
  have e1: "pde (pmem st1) d i = x" "paging_is_enabled st1 = paging_is_enabled st"
    by (simp_all add: st1_def paging_is_enabled_def)
  have "zero_page (if paging_is_enabled st1 then 0xFFC00000 + i * 4096 else f) st1
      = Some (st1\<lparr>pmem := zeroed f (pmem st1)\<rparr>)"
    by (rule zero_new_table [OF r1 [of x, folded st1_def] assms(2,3)])
      (use x assms(9) in \<open>simp_all add: e1\<close>)
  then have z: "zero_page (if paging_is_enabled st1 then 0xFFC00000 + i * 4096 else f) st1
      = Some (st\<lparr>pmm_st := p', pmem := zeroed f ((pmem st)(frame d + 4 * i := x))\<rparr>)"
    by (simp add: st1_def)
  show ?thesis
  proof (cases "flags AND 4 = 0")
    case True
    then have "install_table dir i flags st = do {
        st \<leftarrow> zero_page (if paging_is_enabled st1 then 0xFFC00000 + i * 4096 else f) st1;
        Some (True, st) }"
      using assms(2,4,6,7,8) r by (simp add: install_table_def load_dir [OF assms(1)] store_dir st1_def x_def)
    with z show ?thesis by simp
  next
    case False
    then have "install_table dir i flags st = do {
        st \<leftarrow> zero_page (if paging_is_enabled st1 then 0xFFC00000 + i * 4096 else f) st1;
        Some (True, st) }"
      using assms(2,4,6,7,8) r r1
      by (simp add: install_table_def load_dir [OF assms(1)] load_dir [OF r1] store_dir [OF r]
          store_dir [OF r1] st1_def x_def)
    with z show ?thesis by simp
  qed
qed

lemma install_table_ok:
  assumes "vm_inv st dir d" "i < 1024" "i \<noteq> 1023"
    "present (pde (pmem st) d i) \<or> free_pages (pmm_st st) \<noteq> {}"
  obtains m p where "install_table dir i flags st = Some (True, st\<lparr>pmm_st := p, pmem := m\<rparr>)"
    "vm_inv (st\<lparr>pmm_st := p, pmem := m\<rparr>) dir d" "present (pde m d i)"
    "\<And>w. dix w \<noteq> 1023 \<Longrightarrow> walk m d w = walk (pmem st) d w"
    "free_pages p \<subseteq> free_pages (pmm_st st)" "card (free_pages (pmm_st st)) \<le> card (free_pages p) + 1"
    "card (free_pages (pmm_st st)) + card (pres (pmem st) d) \<le> card (free_pages p) + card (pres m d)"
    "pres (pmem st) d \<subseteq> pres m d" "pde m d 1023 = pde (pmem st) d 1023"
proof (cases "present (pde (pmem st) d i)")
  case True
  obtain m where m: "install_table dir i flags st = Some (True, st\<lparr>pmem := m\<rparr>)"
    "vm_inv (st\<lparr>pmem := m\<rparr>) dir d" "present (pde m d i)"
    "\<And>w. dix w \<noteq> 1023 \<Longrightarrow> walk m d w = walk (pmem st) d w" "pres m d = pres (pmem st) d"
    "pde m d 1023 = pde (pmem st) d 1023"
    using install_table_present [OF assms(1-3) True] by metis
  then show ?thesis using that [where m = m and p = "pmm_st st"] by simp
next
  case False
  have inv: "reach st dir d" "tables_ok (pmem st) d (free_pages (pmm_st st))" "pmm_ok (pmm_st st)"
    using assms(1) by (simp_all add: vm_inv_def)
  from False assms(4) have "free_pages (pmm_st st) \<noteq> {}" by simp
  from fresh_frame [OF inv(3) this]
  obtain f p' where f: "pmm_alloc_page (pmm_st st) = Some (f, p')" "f \<noteq> 0" "frame f = f"
    "unat f div 4096 \<in> free_pages (pmm_st st)"
    "free_pages p' = free_pages (pmm_st st) - {unat f div 4096}" "pmm_ok p'" by metis
  have fd: "frame d \<noteq> f" using inv(2) f(4) by (auto simp: tables_ok_def)
  define x where "x = (if flags AND 4 \<noteq> 0 then (f OR 1 OR 2) OR 4 else f OR 1 OR 2)"
  have x: "present x" "frame x = f" unfolding x_def using f(3) by (simp_all add: present_or frame_or)
  define m where "m = zeroed f ((pmem st)(frame d + 4 * i := x))"
  note w = walk_new_table [OF inv(2) assms(2,3) False f(3,4) x, folded m_def]
  have "reach (st\<lparr>pmm_st := p', pmem := m\<rparr>) dir d"
    using assms(3) w(3) [of 1023] by (intro reach_update [OF inv(1)] w(1) reachD(4) [OF inv(1)]) simp_all
  then have v: "vm_inv (st\<lparr>pmm_st := p', pmem := m\<rparr>) dir d"
    using w(2) f(5,6) by (simp add: vm_inv_def)
  have i: "install_table dir i flags st = Some (True, st\<lparr>pmm_st := p', pmem := m\<rparr>)"
    using install_table_exec [OF inv(1) assms(2,3) False inv(2) f(1-3) fd, of flags] by (simp add: m_def x_def)
  have "pres m d = insert i (pres (pmem st) d)" "i \<notin> pres (pmem st) d"
    using w(3) x(1) assms(2) False by (auto simp: pres_def split: if_splits)
  moreover have "card (free_pages (pmm_st st)) = card (free_pages p') + 1"
    using f(4,5) card.remove [OF finite_free_pages f(4)] by simp
  moreover have "pde m d 1023 = pde (pmem st) d 1023" using w(3) [of 1023] assms(3) by simp
  ultimately show ?thesis
    by (intro that [OF i v]) (use w(1,3) x(1) assms(2) f(5) in auto)
qed

text \<open>Without a free page the entry stays missing and nothing changes.\<close>

lemma install_table_full:
  assumes "vm_inv st dir d" "i < 1024" "\<not> present (pde (pmem st) d i)" "free_pages (pmm_st st) = {}"
  shows "install_table dir i flags st = Some (False, st)"
proof -
  have inv: "reach st dir d" "pmm_ok (pmm_st st)" using assms(1) by (simp_all add: vm_inv_def)
  have "pmm_alloc_page (pmm_st st) = Some (0, pmm_st st)"
    using assms(4) by (simp add: pmm_alloc_page_def find_free_page_Min [OF pmm_ok_wf [OF inv(2)]])
  then show ?thesis using assms(2,3) by (simp add: install_table_def load_dir [OF inv(1)])
qed

section \<open>Mapping a page\<close>

lemma present_frame_or: "present (frame a OR b) \<longleftrightarrow> present b"
  unfolding present_or by (simp add: and.assoc)

lemma map_page_ok:
  assumes inv: "vm_inv st dir d" and v: "dix virt \<noteq> 1023" and fl: "flags < 4096"
    and nd: "paging_is_enabled st \<Longrightarrow> drop_bit 12 virt \<noteq> drop_bit 12 dir"
    and mem: "present (pde (pmem st) d (dix virt)) \<or> free_pages (pmm_st st) \<noteq> {}"
  obtains m p where "map_page dir virt phys flags st = Some (st\<lparr>pmm_st := p, pmem := m\<rparr>)"
    "vm_inv (st\<lparr>pmm_st := p, pmem := m\<rparr>) dir d"
    "\<And>w. dix w \<noteq> 1023 \<Longrightarrow> walk m d w = (if drop_bit 12 w = drop_bit 12 virt
       then if present flags then Some (frame phys OR (w AND 0xFFF)) else None else walk (pmem st) d w)"
    "free_pages p \<subseteq> free_pages (pmm_st st)" "card (free_pages (pmm_st st)) \<le> card (free_pages p) + 1"
    "card (free_pages (pmm_st st)) + card (pres (pmem st) d) \<le> card (free_pages p) + card (pres m d)"
proof -
  obtain m p where i: "install_table dir (dix virt) flags st = Some (True, st\<lparr>pmm_st := p, pmem := m\<rparr>)"
    "vm_inv (st\<lparr>pmm_st := p, pmem := m\<rparr>) dir d" "present (pde m d (dix virt))"
    "\<And>w. dix w \<noteq> 1023 \<Longrightarrow> walk m d w = walk (pmem st) d w"
    "free_pages p \<subseteq> free_pages (pmm_st st)" "card (free_pages (pmm_st st)) \<le> card (free_pages p) + 1"
    "card (free_pages (pmm_st st)) + card (pres (pmem st) d) \<le> card (free_pages p) + card (pres m d)"
    using install_table_ok [OF inv dix_less v mem, where flags = flags] by metis
  define st1 where "st1 = st\<lparr>pmm_st := p, pmem := m\<rparr>"
  define x where "x = frame phys OR flags"
  define m' where "m' = m(frame (pde m d (dix virt)) + 4 * tix virt := x)"
  have r: "reach st1 dir d" "tables_ok m d (free_pages p)" "pmm_ok p"
    using i(2) by (simp_all add: vm_inv_def st1_def)
  have x: "present x \<longleftrightarrow> present flags" "frame x = frame phys"
    unfolding x_def present_frame_or frame_or using frame_small [OF fl] by simp_all
  note t = tables_ok_write_pte [OF r(2) dix_less i(3) v tix_less [of virt], where x = x, folded m'_def]
  have w: "walk m' d w = (if drop_bit 12 w = drop_bit 12 virt
       then if present flags then Some (frame phys OR (w AND 0xFFF)) else None else walk (pmem st) d w)"
    if "dix w \<noteq> 1023" for w
    unfolding m'_def walk_write_pte [OF r(2) dix_less i(3) v tix_less that] page_eq_iff x i(4) [OF that] ..
  have "walk m' d dir = walk m d dir" if "paging_is_enabled st"
    using w [of dir] i(4) [of dir] nd [OF that] reachD(4) [OF r(1)] that
    by (simp add: st1_def paging_is_enabled_def)
  then have "reach (st1\<lparr>pmm_st := p, pmem := m'\<rparr>) dir d"
    using t(2) [of 1023] by (intro reach_update [OF r(1)]) (simp_all add: st1_def paging_is_enabled_def)
  then have v': "vm_inv (st\<lparr>pmm_st := p, pmem := m'\<rparr>) dir d"
    using t(1) r(3) by (simp add: vm_inv_def st1_def)
  have "(if paging_is_enabled st1 then Some (0xFFC00000 + dix virt * 4096)
         else do { e \<leftarrow> load st1 (dir + 4 * dix virt); Some (frame e) }) = Some (table_addr st1 d (dix virt))"
    using load_dir [OF r(1) dix_less, of virt] by (simp add: table_addr_def)
  moreover have "store (table_addr st1 d (dix virt) + 4 * tix virt) x st1 = Some (st\<lparr>pmm_st := p, pmem := m'\<rparr>)"
    using reach_table [OF r(1) _ dix_less tix_less, of virt] i(3) by (simp add: store_def m'_def st1_def)
  ultimately have "map_page dir virt phys flags st = Some (st\<lparr>pmm_st := p, pmem := m'\<rparr>)"
    using i(1) by (simp add: map_page_def Let_def st1_def [symmetric] x_def)
  moreover have "pres m' d = pres m d" using t(2) by (auto simp: pres_def)
  ultimately show ?thesis using that [OF _ v' w i(5,6)] i(7) by simp
qed

lemma map_page_full:
  assumes "vm_inv st dir d" "\<not> present (pde (pmem st) d (dix virt))" "free_pages (pmm_st st) = {}"
  shows "map_page dir virt phys flags st = Some st"
  using install_table_full [OF assms(1) dix_less assms(2,3)] by (simp add: map_page_def)

lemma window_iff: "dix v \<noteq> 1023 \<longleftrightarrow> v < 0xFFC00000"
proof -
  have "unat v < 1024 * 4194304" using unat_lt_exp [of v] by simp
  then have "unat v div 4194304 < 1024" by (rule less_mult_imp_div_less)
  then have "unat v div 4194304 = 1023 \<longleftrightarrow> 1023 \<le> unat v div 4194304" by linarith
  also have "\<dots> \<longleftrightarrow> 1023 * 4194304 \<le> unat v" by (simp only: less_eq_div_iff_mult_less_eq zero_less_numeral)
  finally show ?thesis unfolding word_eq_unat_iff unat_dix by (simp add: word_less_nat_alt not_le)
qed

lemma drop12_iff: "drop_bit 12 v = drop_bit 12 w \<longleftrightarrow> unat v div 4096 = unat (w :: u32) div 4096"
proof -
  have d: "unat (drop_bit 12 x) = unat x div 4096" for x :: u32
    unfolding unat_drop_bit_eq by (simp add: drop_bit_eq_div)
  show ?thesis unfolding word_eq_unat_iff d ..
qed

text \<open>
  The kernel runs in states where paging is on and the current directory, its tables and the
  recursive window satisfy the invariant.
\<close>

definition vm_ok :: "vm \<Rightarrow> bool" where
  "vm_ok st \<longleftrightarrow> paging_is_enabled st \<and> vm_inv st (current_page_directory st) (frame (cr3 st))"

lemma vm_ok_translate: "vm_ok st \<Longrightarrow> mmu_translate st v = walk (pmem st) (frame (cr3 st)) v"
  by (simp add: vm_ok_def mmu_translate_def walk_cr3 [of "cr3 st"])

lemma vm_ok_update:
  "vm_ok st \<Longrightarrow> vm_inv (st\<lparr>pmm_st := p, pmem := m\<rparr>) (current_page_directory st) (frame (cr3 st))
    \<Longrightarrow> vm_ok (st\<lparr>pmm_st := p, pmem := m\<rparr>)"
  by (simp add: vm_ok_def paging_is_enabled_def)

lemma vmm_map_page_ok:
  assumes "vm_ok st" "virt < 0xFFC00000" "flags < 4096"
    "drop_bit 12 virt \<noteq> drop_bit 12 (current_page_directory st)"
    "mmu_translate st virt \<noteq> None \<or> free_pages (pmm_st st) \<noteq> {}"
  obtains m p where "vmm_map_page virt phys flags st = Some (0, st\<lparr>pmm_st := p, pmem := m\<rparr>)"
    "vm_ok (st\<lparr>pmm_st := p, pmem := m\<rparr>)"
    "\<And>w. w < 0xFFC00000 \<Longrightarrow> mmu_translate (st\<lparr>pmm_st := p, pmem := m\<rparr>) w =
      (if drop_bit 12 w = drop_bit 12 virt
       then if present flags then Some (frame phys OR (w AND 0xFFF)) else None
       else mmu_translate st w)"
    "free_pages p \<subseteq> free_pages (pmm_st st)" "card (free_pages (pmm_st st)) \<le> card (free_pages p) + 1"
proof -
  let ?d = "frame (cr3 st)" and ?dir = "current_page_directory st"
  have inv: "vm_inv st ?dir ?d" using assms(1) by (simp add: vm_ok_def)
  have "present (pde (pmem st) ?d (dix virt)) \<or> free_pages (pmm_st st) \<noteq> {}"
    using assms(5) by (auto simp: vm_ok_translate [OF assms(1)] walk_pte split: if_splits)
  from map_page_ok [OF inv _ assms(3,4) this, where phys = phys] assms(2)
  obtain m p where m: "map_page ?dir virt phys flags st = Some (st\<lparr>pmm_st := p, pmem := m\<rparr>)"
    "vm_inv (st\<lparr>pmm_st := p, pmem := m\<rparr>) ?dir ?d"
    "\<And>w. dix w \<noteq> 1023 \<Longrightarrow> walk m ?d w = (if drop_bit 12 w = drop_bit 12 virt
       then if present flags then Some (frame phys OR (w AND 0xFFF)) else None else walk (pmem st) ?d w)"
    "free_pages p \<subseteq> free_pages (pmm_st st)" "card (free_pages (pmm_st st)) \<le> card (free_pages p) + 1"
    unfolding window_iff by metis
  note ok = vm_ok_update [OF assms(1) m(2)]
  show ?thesis
  proof (rule that [OF _ ok _ m(4,5)])
    show "vmm_map_page virt phys flags st = Some (0, st\<lparr>pmm_st := p, pmem := m\<rparr>)"
      using m(1) by (simp add: vmm_map_page_def)
  qed (use m(3) in \<open>simp add: vm_ok_translate [OF ok] vm_ok_translate [OF assms(1)] window_iff\<close>)
qed

text \<open>
  A small address space: the directory in frame 1, mapped at its own address through the table in
  frame 2, with the physical pages from 3 on free.
\<close>

definition small_pmm :: "u64 \<Rightarrow> pmm" where
  "small_pmm n = \<lparr>pmm_bitmap = (\<lambda>i. if i = 0 then 7 else 0), total_memory = 0, free_memory = 0, max_physical_page = n\<rparr>"

definition small_vm :: "u64 \<Rightarrow> vm" where
  "small_vm n =
     \<lparr>pmem = (\<lambda>a. if a = 0x1FFC then 0x1003 else if a = 0x1000 then 0x2003 else if a = 0x2004 then 0x1003 else 0),
      cr0 = 0x80000000, cr3 = 0x1000, msr_pat = 0, cpuid_edx = 0, g_pat_wc_enabled = False,
      current_page_directory = 0x1000, current_page_directory_phys = 0x1000,
      kernel_page_directory = 0x1000, kernel_page_directory_phys = 0x1000, pmm_st = small_pmm n\<rparr>"

lemma free_small: "free_pages (small_pmm n) = {3..<unat n}"
proof -
  have "page_used (pmm_bitmap (small_pmm n)) p \<longleftrightarrow> p < 3" for p
  proof (cases "p < 8")
    case True
    then have "p \<in> {0,1,2,3,4,5,6,7}" by auto
    then show ?thesis by (auto simp: page_used_def small_pmm_def bit_iff_odd_drop_bit)
  next
    case False
    then have "p div 8 \<noteq> 0" by (simp add: div_eq_0_iff)
    then have "pmm_bitmap (small_pmm n) (p div 8) = 0" by (simp only: small_pmm_def pmm.simps if_False)
    with False show ?thesis by (simp add: page_used_def)
  qed
  moreover have "max_physical_page (small_pmm n) = n" by (simp add: small_pmm_def)
  ultimately have "free_pages (small_pmm n) = {p. p < unat n \<and> \<not> p < 3}" by (simp only: free_pages_def)
  then show ?thesis by (simp only: not_less atLeastLessThan_def atLeast_def lessThan_def Collect_conj_eq Int_commute)
qed

lemma small_pde:
  assumes "i < 1024"
  shows "pmem (small_vm n) (0x1000 + 4 * i) = (if i = 0 then 0x2003 else if i = 1023 then 0x1003 else 0)"
proof -
  have "0x1000 + 4 * i = 0x1000 + 4 * j \<longleftrightarrow> i = j" if "j < 1024" for j using assms that by simp
  note e = this
  have "0x1000 + 4 * i = 0x1000 \<longleftrightarrow> i = 0" "0x1000 + 4 * i = 0x1FFC \<longleftrightarrow> i = 1023"
    using e [where j = 0] e [where j = 1023] by simp_all
  moreover have "0x1000 + 4 * i \<noteq> 0x2004"
    using slot_eq_iff [OF assms, where j = 1 and a = "0x1000" and b = "0x2000"] by simp
  ultimately show ?thesis by (simp add: small_vm_def)
qed

lemma small_ok: "n \<le> 16 \<Longrightarrow> vm_ok (small_vm n)"
proof -
  assume n: "n \<le> 16"
  have s: "cr3 (small_vm n) = 0x1000" "paging_is_enabled (small_vm n)" "current_page_directory (small_vm n) = 0x1000"
    "pmm_st (small_vm n) = small_pmm n"
    by (simp_all add: small_vm_def paging_is_enabled_def)
  have t: "tables_ok (pmem (small_vm n)) 0x1000 (free_pages (small_pmm n))"
    unfolding tables_ok_def free_small by (auto simp: small_pde split: if_splits)
  have w: "walk (pmem (small_vm n)) 0x1000 0x1000 = Some 0x1000" by (simp add: walk_def small_vm_def)
  have "unat n \<le> 16" using n by (simp add: word_le_nat_alt)
  then have p: "pmm_ok (small_pmm n)" by (simp add: pmm_ok_def free_small) (simp add: small_pmm_def)
  show ?thesis using t w p small_pde [of 1023] by (simp add: vm_ok_def vm_inv_def s reach_def)
qed

text \<open>
  C5: \<open>vmm_map_page\<close> maps the page of \<open>virt\<close> to the frame of \<open>phys\<close>: the processor's page walk then takes
  every address of the page to the address with the same offset in the frame, the translation of
  every other page below the recursive window is what it was, and the new state is again one in
  which the tables are intact and reachable.
\<close>

theorem vmm_map_page_translates:
  assumes "vm_ok st" "virt < 0xFFC00000" "flags < 4096" "flags AND 1 \<noteq> 0"
    "drop_bit 12 virt \<noteq> drop_bit 12 (current_page_directory st)"
    "mmu_translate st virt \<noteq> None \<or> free_pages (pmm_st st) \<noteq> {}"
  shows "\<exists>st'. vmm_map_page virt phys flags st = Some (0, st') \<and> vm_ok st' \<and>
    (\<forall>w<0xFFC00000. mmu_translate st' w =
      (if drop_bit 12 w = drop_bit 12 virt then Some ((phys AND 0xFFFFF000) OR (w AND 0xFFF))
       else mmu_translate st w))"
proof -
  obtain m p where "vmm_map_page virt phys flags st = Some (0, st\<lparr>pmm_st := p, pmem := m\<rparr>)"
    "vm_ok (st\<lparr>pmm_st := p, pmem := m\<rparr>)"
    "\<And>w. w < 0xFFC00000 \<Longrightarrow> mmu_translate (st\<lparr>pmm_st := p, pmem := m\<rparr>) w =
      (if drop_bit 12 w = drop_bit 12 virt
       then if present flags then Some (frame phys OR (w AND 0xFFF)) else None
       else mmu_translate st w)"
    using vmm_map_page_ok [OF assms(1-3,5,6), where phys = phys] by metis
  with assms(4) show ?thesis by simp
qed

theorem vmm_map_page_translates_witness:
  "\<exists>st'. vmm_map_page 0x400000 0x5000 3 (small_vm 16) = Some (0, st') \<and> mmu_translate st' 0x400123 = Some 0x5123"
proof -
  have "free_pages (pmm_st (small_vm 16)) \<noteq> {}"
    using free_small [of 16] by (simp add: small_vm_def)
  then obtain st' where "vmm_map_page 0x400000 0x5000 3 (small_vm 16) = Some (0, st')"
    "\<forall>w<0xFFC00000. mmu_translate st' w =
      (if drop_bit 12 w = drop_bit 12 (0x400000 :: u32) then Some ((0x5000 AND 0xFFFFF000) OR (w AND 0xFFF))
       else mmu_translate (small_vm 16) w)"
    using vmm_map_page_translates [OF small_ok, of 16 "0x400000" 3 "0x5000"] by (auto simp: small_vm_def)
  then show ?thesis by simp
qed

lemma virt_to_phys_translate:
  assumes "vm_ok st"
  shows "vmm_virt_to_phys True virt st = Some (mmu_translate st virt)"
proof -
  define d where "d = frame (cr3 st)"
  have en: "paging_is_enabled st" and r: "reach st (current_page_directory st) d"
    using assms by (simp_all add: vm_ok_def vm_inv_def d_def)
  note w = reach_window [OF en d_def [symmetric] reachD(6,7) [OF r en]]
  have "load st (0xFFFFF000 + 4 * dix virt) = Some (pde (pmem st) d (dix virt))"
    using w [of 1023 "dix virt"] reachD(1,6,7) [OF r] en by (simp add: load_def)
  moreover have "load st (0xFFC00000 + dix virt * 4096 + 4 * tix virt) = Some (pte (pmem st) d (dix virt) (tix virt))"
    if "present (pde (pmem st) d (dix virt))"
    using w [OF that] by (simp add: load_def)
  ultimately show ?thesis
    using en by (simp add: vmm_virt_to_phys_def Let_def vm_ok_translate [OF assms] walk_pte d_def [symmetric])
qed

text \<open>
  C8: the page walk that \<open>vmm_virt_to_phys\<close> does in software through the recursive window agrees with
  the processor's translation on every address, the window itself included, with paging on or off: it
  reports the same physical address, and \<^verbatim>\<open>-1\<close> exactly for the addresses that would fault (and without
  a place for the result); it never faults itself.
\<close>

theorem vmm_virt_to_phys_walk:
  assumes "vm_ok st \<or> \<not> paging_is_enabled st"
  shows "vmm_virt_to_phys out virt st = Some (if out then mmu_translate st virt else None)"
proof (cases "out \<and> paging_is_enabled st")
  case True
  then show ?thesis using assms virt_to_phys_translate by simp
next
  case False
  then show ?thesis by (auto simp: vmm_virt_to_phys_def mmu_translate_def)
qed

theorem vmm_virt_to_phys_walk_witness:
  "vmm_virt_to_phys True 0x1234 (small_vm 16) = Some (Some 0x1234)
    \<and> vmm_virt_to_phys True 0x5000 (small_vm 16) = Some None"
  using vmm_virt_to_phys_walk [OF disjI1 [OF small_ok], of 16 True "0x1234"]
    vmm_virt_to_phys_walk [OF disjI1 [OF small_ok], of 16 True "0x5000"]
  by (simp add: mmu_translate_def paging_is_enabled_def walk_def small_vm_def)

end
