(* ===== verification/Address_Space.thy ===== *)
theory Address_Space
  imports Paging
begin

text \<open>
  What the operations of \<^theory_text>\<open>Paging\<close> do to whole address spaces: ranges of fresh pages
  (\<^verbatim>\<open>vmm_map_range_alloc\<close>), and the address space that \<open>paging_init\<close> builds.
\<close>

section \<open>Mapping fresh pages\<close>

text \<open>
  From \<open>st\<close> to \<open>st'\<close> the virtual pages \<open>A\<close> have got pairwise different physical pages that were free
  before and are not any more, and no other page below the window has changed.
\<close>

definition fresh_map :: "vm \<Rightarrow> vm \<Rightarrow> nat set \<Rightarrow> bool" where
  "fresh_map st st' A \<longleftrightarrow>
     vm_ok st' \<and> current_page_directory st' = current_page_directory st \<and> cr3 st' = cr3 st
     \<and> free_pages (pmm_st st') \<subseteq> free_pages (pmm_st st)
     \<and> (\<exists>g. inj_on g A \<and> g ` A \<subseteq> free_pages (pmm_st st) - free_pages (pmm_st st')
          \<and> (\<forall>w<0xFFC00000. mmu_translate st' w =
               (if unat w div 4096 \<in> A then Some (of_nat (g (unat w div 4096) * 4096 + unat w mod 4096))
                else mmu_translate st w)))"

lemma fresh_map_refl: "vm_ok st \<Longrightarrow> fresh_map st st {}"
  by (simp add: fresh_map_def)

lemma fresh_map_trans:
  assumes "fresh_map st st1 A" "fresh_map st1 st2 B" "A \<inter> B = {}"
  shows "fresh_map st st2 (A \<union> B)"
proof -
  obtain g where g: "inj_on g A" "g ` A \<subseteq> free_pages (pmm_st st) - free_pages (pmm_st st1)"
    "\<forall>w<0xFFC00000. mmu_translate st1 w =
       (if unat w div 4096 \<in> A then Some (of_nat (g (unat w div 4096) * 4096 + unat w mod 4096))
        else mmu_translate st w)"
    using assms(1) unfolding fresh_map_def by blast
  obtain h where h: "inj_on h B" "h ` B \<subseteq> free_pages (pmm_st st1) - free_pages (pmm_st st2)"
    "\<forall>w<0xFFC00000. mmu_translate st2 w =
       (if unat w div 4096 \<in> B then Some (of_nat (h (unat w div 4096) * 4096 + unat w mod 4096))
        else mmu_translate st1 w)"
    using assms(2) unfolding fresh_map_def by blast
  let ?k = "\<lambda>q. if q \<in> B then h q else g q"
  have sub: "free_pages (pmm_st st1) \<subseteq> free_pages (pmm_st st)" "free_pages (pmm_st st2) \<subseteq> free_pages (pmm_st st1)"
    using assms(1,2) by (simp_all add: fresh_map_def)
  have "inj_on ?k (A \<union> B)"
  proof (rule inj_onI)
    fix x y assume xy: "x \<in> A \<union> B" "y \<in> A \<union> B" "?k x = ?k y"
    have "g a \<noteq> h b" if "a \<in> A" "b \<in> B" for a b using that g(2) h(2) by blast
    from this [of x y] this [of y x] xy show "x = y"
      by (cases "x \<in> B"; cases "y \<in> B") (auto dest: inj_onD [OF h(1)] inj_onD [OF g(1)])
  qed
  moreover have "?k ` (A \<union> B) \<subseteq> free_pages (pmm_st st) - free_pages (pmm_st st2)"
    using g(2) h(2) sub by auto
  moreover have "\<forall>w<0xFFC00000. mmu_translate st2 w =
      (if unat w div 4096 \<in> A \<union> B then Some (of_nat (?k (unat w div 4096) * 4096 + unat w mod 4096))
       else mmu_translate st w)"
    using g(3) h(3) by simp
  ultimately have "\<exists>k. inj_on k (A \<union> B) \<and> k ` (A \<union> B) \<subseteq> free_pages (pmm_st st) - free_pages (pmm_st st2)
      \<and> (\<forall>w<0xFFC00000. mmu_translate st2 w =
        (if unat w div 4096 \<in> A \<union> B then Some (of_nat (k (unat w div 4096) * 4096 + unat w mod 4096))
         else mmu_translate st w))"
    by (intro exI [of _ ?k] conjI)
  then show ?thesis using assms(1,2) sub unfolding fresh_map_def by simp
qed

lemma vm_ok_pmm:
  assumes "vm_ok st" "free_pages p \<subseteq> free_pages (pmm_st st)" "pmm_ok p"
  shows "vm_ok (st\<lparr>pmm_st := p\<rparr>)"
  using assms tables_ok_mono [of "pmem st" "frame (cr3 st)" _ "free_pages p"]
  by (auto simp: vm_ok_def vm_inv_def reach_def paging_is_enabled_def split: if_splits)

lemma vmm_map_page_alloc_ok:
  assumes "vm_ok st" "virt < 0xFFC00000" "flags < 4096" "present flags"
    "drop_bit 12 virt \<noteq> drop_bit 12 (current_page_directory st)" "2 \<le> card (free_pages (pmm_st st))"
  obtains f st' where "vmm_map_page_alloc virt flags st = Some (0, Some f, st')"
    "fresh_map st st' {unat virt div 4096}" "card (free_pages (pmm_st st)) \<le> card (free_pages (pmm_st st')) + 2"
proof -
  have inv: "vm_inv st (current_page_directory st) (frame (cr3 st))" "pmm_ok (pmm_st st)"
    using assms(1) by (simp_all add: vm_ok_def vm_inv_def)
  from assms(6) have "free_pages (pmm_st st) \<noteq> {}" by auto
  from fresh_frame [OF inv(2) this]
  obtain f p where f: "pmm_alloc_page (pmm_st st) = Some (f, p)" "f \<noteq> 0" "frame f = f"
    "unat f div 4096 \<in> free_pages (pmm_st st)"
    "free_pages p = free_pages (pmm_st st) - {unat f div 4096}" "pmm_ok p" by metis
  let ?st = "st\<lparr>pmm_st := p\<rparr>"
  have card: "card (free_pages (pmm_st st)) = card (free_pages p) + 1"
    using f(4,5) by (simp add: card_Diff_singleton) (metis Suc_pred card_gt_0_iff empty_iff finite_free_pages)
  have ok: "vm_ok ?st" by (rule vm_ok_pmm [OF assms(1)]) (use f(5,6) in auto)
  have tr: "mmu_translate ?st w = mmu_translate st w" for w
    by (simp add: mmu_translate_def paging_is_enabled_def)
  have "drop_bit 12 virt \<noteq> drop_bit 12 (current_page_directory ?st)" using assms(5) by simp
  moreover have "mmu_translate ?st virt \<noteq> None \<or> free_pages (pmm_st ?st) \<noteq> {}" using card assms(6) by auto
  ultimately obtain m p' where m: "vmm_map_page virt f flags ?st = Some (0, ?st\<lparr>pmm_st := p', pmem := m\<rparr>)"
    "vm_ok (?st\<lparr>pmm_st := p', pmem := m\<rparr>)"
    "\<And>w. w < 0xFFC00000 \<Longrightarrow> mmu_translate (?st\<lparr>pmm_st := p', pmem := m\<rparr>) w =
      (if drop_bit 12 w = drop_bit 12 virt
       then if present flags then Some (frame f OR (w AND 0xFFF)) else None
       else mmu_translate ?st w)"
    "free_pages p' \<subseteq> free_pages (pmm_st ?st)" "card (free_pages (pmm_st ?st)) \<le> card (free_pages p') + 1"
    using vmm_map_page_ok [OF ok assms(2,3), where phys = f] by blast
  let ?st' = "?st\<lparr>pmm_st := p', pmem := m\<rparr>"
  have "frame f OR (w AND 0xFFF) = of_nat (unat f div 4096 * 4096 + unat w mod 4096)" for w
  proof -
    have "w AND 0xFFF < 4096" by (simp add: word_less_nat_alt unat_offset)
    moreover have "4096 dvd unat f" using frame_dvd [of f] f(3) by simp
    then have "unat f div 4096 * 4096 + unat w mod 4096 = unat f + unat (w AND 0xFFF)"
      by (simp add: unat_offset)
    then have "of_nat (unat f div 4096 * 4096 + unat w mod 4096) = f + (w AND 0xFFF)"
      by (simp only: of_nat_add) simp
    ultimately show ?thesis using frame_or_offset [of "w AND 0xFFF" f] f(3) by simp
  qed
  then have "fresh_map st ?st' {unat virt div 4096}"
    using m f(4,5) assms(4) unfolding fresh_map_def
    by (intro conjI exI [of _ "\<lambda>_. unat f div 4096"]) (auto simp: drop12_iff tr)
  then show ?thesis using that [of f ?st'] f(1,2) m(1,5) card by (simp add: vmm_map_page_alloc_def)
qed

lemma page_loop_step:
  "a < e \<Longrightarrow> f a s = Some (0, s1) \<Longrightarrow> page_loop f a e s = page_loop f (a + 4096) e s1"
  by (subst page_loop.simps) simp

lemma page_loop_end: "\<not> a < e \<Longrightarrow> page_loop f a e s = Some (0, s)"
  by (subst page_loop.simps) simp

definition alloc_body :: "u32 \<Rightarrow> u32 \<Rightarrow> vm \<Rightarrow> (int \<times> vm) option" where
  "alloc_body flags addr st = do {
     (r, _, st) \<leftarrow> vmm_map_page_alloc addr flags st;
     Some (if r \<noteq> 0 then - 1 else 0, st) }"

lemma alloc_loop:
  assumes "vm_ok st" "unat a = 4096 * q" "unat e = 4096 * (q + n)" "q + n \<le> 0xFFC00" "flags < 4096" "present flags"
    "unat (current_page_directory st) div 4096 \<notin> {q..<q + n}" "2 * n \<le> card (free_pages (pmm_st st))"
  shows "\<exists>st'. page_loop (alloc_body flags) a e st = Some (0, st') \<and> fresh_map st st' {q..<q + n}"
  using assms
proof (induction n arbitrary: st a q)
  case 0
  then show ?case by (auto simp: page_loop_end word_less_nat_alt fresh_map_refl)
next
  case (Suc n)
  have a: "a < e" "a < 0xFFC00000" using Suc.prems(2-4) by (simp_all add: word_less_nat_alt)
  have q: "unat a div 4096 = q" using Suc.prems(2) by simp
  then have "drop_bit 12 a \<noteq> drop_bit 12 (current_page_directory st)"
    using Suc.prems(7) by (auto simp: drop12_iff)
  moreover have "2 \<le> card (free_pages (pmm_st st))" using Suc.prems(8) by simp
  ultimately obtain f st1 where st1: "vmm_map_page_alloc a flags st = Some (0, Some f, st1)"
    "fresh_map st st1 {unat a div 4096}"
    "card (free_pages (pmm_st st)) \<le> card (free_pages (pmm_st st1)) + 2"
    using vmm_map_page_alloc_ok [OF Suc.prems(1) a(2) Suc.prems(5,6)] by blast
  have dir: "current_page_directory st1 = current_page_directory st" "vm_ok st1"
    using st1(2) by (simp_all add: fresh_map_def)
  have "unat (a + 4096) = unat a + 4096"
    using Suc.prems(2,4) by (simp add: unat_word_ariths)
  then have a1: "unat (a + 4096) = 4096 * Suc q" using Suc.prems(2) by simp
  obtain st2 where st2: "page_loop (alloc_body flags) (a + 4096) e st1 = Some (0, st2)"
    "fresh_map st1 st2 {Suc q..<Suc q + n}"
    using Suc.IH [OF dir(2) a1 _ _ Suc.prems(5,6)] Suc.prems(3,4,7,8) st1(3) dir(1) by force
  have "{q} \<union> {Suc q..<Suc q + n} = {q..<q + Suc n}" by auto
  with fresh_map_trans [OF st1(2) st2(2)] have "fresh_map st st2 {q..<q + Suc n}" unfolding q by simp
  moreover have "page_loop (alloc_body flags) a e st = Some (0, st2)"
    using st1(1) st2(1) a(1) by (simp add: page_loop_step [of a e _ st st1] alloc_body_def)
  ultimately show ?case by blast
qed

text \<open>
  C7: \<open>vmm_map_range_alloc\<close> with enough free memory (one page and at most one table for each page of
  the range) returns 0 and backs every page that the range touches with a physical page of its own that
  was free before; all other translations below the recursive window stay as they were.
\<close>

theorem vmm_map_range_alloc_maps:
  assumes "vm_ok st" "0 < sz" "unat virt + unat sz \<le> 0xFFC00000" "flags < 4096" "flags AND 1 \<noteq> 0"
    "unat (current_page_directory st) div 4096
       \<notin> {unat virt div 4096..(unat virt + unat sz - 1) div 4096}"
    "2 * (unat sz div 4096 + 2) \<le> card (free_pages (pmm_st st))"
  shows "\<exists>st'. vmm_map_range_alloc virt sz flags st = Some (0, st')
    \<and> fresh_map st st' {unat virt div 4096..(unat virt + unat sz - 1) div 4096}"
proof -
  define q where "q = unat virt div 4096"
  define l where "l = (unat virt + unat sz - 1) div 4096"
  define n where "n = l + 1 - q"
  have sz: "0 < unat sz" using assms(2) by (simp add: word_less_nat_alt)
  have ql: "q \<le> l" unfolding q_def l_def using sz by (intro div_le_mono) simp
  then have qn: "q + n = l + 1" "{q..<q + n} = {q..l}" by (auto simp: n_def)
  have s: "unat (frame virt) = 4096 * q" by (simp add: unat_frame q_def minus_mod_eq_mult_div)
  have "unat (virt + sz + 0xFFF) = unat virt + unat sz + 0xFFF"
    using assms(3) by (simp add: unat_word_ariths)
  moreover have "(unat virt + unat sz + 0xFFF) div 4096 = ((unat virt + unat sz - 1) + 4096) div 4096"
    using sz by (intro arg_cong [of _ _ "\<lambda>x. x div 4096"]) simp
  then have "(unat virt + unat sz + 0xFFF) div 4096 = l + 1" by (simp add: l_def)
  ultimately have e: "unat (frame (virt + sz + 0xFFF)) = 4096 * (q + n)"
    unfolding unat_frame qn by (simp add: minus_mod_eq_mult_div)
  have "unat virt + unat sz - 1 < 0xFFC00 * 4096" using assms(3) sz by simp
  then have "l < 0xFFC00" unfolding l_def by (rule less_mult_imp_div_less)
  then have top: "q + n \<le> 0xFFC00" using qn by simp
  have "l \<le> (unat virt mod 4096 + unat sz) div 4096 + q"
  proof -
    have "unat virt + unat sz - 1 \<le> unat virt mod 4096 + unat sz + q * 4096" by (simp add: q_def)
    then have "l \<le> (unat virt mod 4096 + unat sz + q * 4096) div 4096" unfolding l_def by (rule div_le_mono)
    then show ?thesis by simp
  qed
  also have "(unat virt mod 4096 + unat sz) div 4096 \<le> (4096 + unat sz) div 4096"
    by (intro div_le_mono) (simp add: less_imp_le)
  finally have "n \<le> unat sz div 4096 + 2" by (simp add: n_def)
  then have "2 * n \<le> card (free_pages (pmm_st st))" using assms(7) by simp
  from alloc_loop [OF assms(1) s e top assms(4,5) _ this] assms(6)
  obtain st' where "page_loop (alloc_body flags) (frame virt) (frame (virt + sz + 0xFFF)) st = Some (0, st')"
    "fresh_map st st' {q..l}" unfolding qn(2) q_def [symmetric] l_def [symmetric] by blast
  moreover have "sz \<noteq> 0" using assms(2) by auto
  ultimately show ?thesis
    by (simp add: vmm_map_range_alloc_def alloc_body_def [abs_def] q_def l_def)
qed

theorem vmm_map_range_alloc_maps_witness:
  "\<exists>st'. vmm_map_range_alloc 0x400800 0x1000 3 (small_vm 16) = Some (0, st') \<and> fresh_map (small_vm 16) st' {0x400..0x401}"
proof -
  have "card (free_pages (pmm_st (small_vm 16))) = 13"
    using free_small [of 16] by (simp add: small_vm_def)
  moreover have "current_page_directory (small_vm 16) = 0x1000" by (simp add: small_vm_def)
  ultimately show ?thesis
    using vmm_map_range_alloc_maps [OF small_ok, of 16 "0x1000" "0x400800" 3] by simp
qed

text \<open>
  C9: when the last free page is taken for the page itself and its table is missing,
  \<open>vmm_map_page_alloc\<close> still reports success, although nothing is mapped and the page is lost.
\<close>

theorem vmm_map_page_alloc_lost_page:
  assumes "vm_ok st" "virt < 0xFFC00000" "\<not> present (pde (pmem st) (cr3 st) (drop_bit 22 virt))"
    "card (free_pages (pmm_st st)) = 1"
  shows "\<exists>f st'. vmm_map_page_alloc virt flags st = Some (0, Some f, st') \<and> pmem st' = pmem st
    \<and> mmu_translate st' virt = None \<and> free_pages (pmm_st st') = {}"
proof -
  have inv: "vm_inv st (current_page_directory st) (frame (cr3 st))" "pmm_ok (pmm_st st)"
    using assms(1) by (simp_all add: vm_ok_def vm_inv_def)
  from assms(4) have ne: "free_pages (pmm_st st) \<noteq> {}" by auto
  obtain f p where f: "pmm_alloc_page (pmm_st st) = Some (f, p)" "f \<noteq> 0"
    "unat f div 4096 \<in> free_pages (pmm_st st)"
    "free_pages p = free_pages (pmm_st st) - {unat f div 4096}" "pmm_ok p"
    by (rule fresh_frame [OF inv(2) ne])
  have none: "free_pages p = {}" using f(3,4) assms(4) by (auto simp: card_1_singleton_iff)
  have ok: "vm_ok (st\<lparr>pmm_st := p\<rparr>)" by (rule vm_ok_pmm [OF assms(1)]) (simp_all add: none f(5))
  then have inv': "vm_inv (st\<lparr>pmm_st := p\<rparr>) (current_page_directory st) (frame (cr3 st))"
    by (simp add: vm_ok_def)
  have "map_page (current_page_directory st) virt f flags (st\<lparr>pmm_st := p\<rparr>) = Some (st\<lparr>pmm_st := p\<rparr>)"
    by (rule map_page_full [OF inv']) (use assms(3) none in simp_all)
  then have "vmm_map_page_alloc virt flags st = Some (0, Some f, st\<lparr>pmm_st := p\<rparr>)"
    using f(1,2) by (simp add: vmm_map_page_alloc_def vmm_map_page_def)
  moreover have "mmu_translate (st\<lparr>pmm_st := p\<rparr>) virt = None"
    using assms(3) unfolding vm_ok_translate [OF ok] by (simp add: walk_pte)
  ultimately show ?thesis using none by simp
qed

theorem vmm_map_page_alloc_lost_page_witness:
  "\<exists>f st'. vmm_map_page_alloc 0x400000 3 (small_vm 4) = Some (0, Some f, st') \<and> mmu_translate st' 0x400000 = None"
proof -
  have "card (free_pages (pmm_st (small_vm 4))) = 1"
    using free_small [of 4] by (simp add: small_vm_def)
  moreover have "\<not> present (pde (pmem (small_vm 4)) (cr3 (small_vm 4)) (drop_bit 22 0x400000))"
    by (simp add: small_vm_def)
  ultimately show ?thesis
    using vmm_map_page_alloc_lost_page [OF small_ok, of 4 "0x400000" 3] by auto
qed

end
