(* ===== verification/Boot_Space.thy ===== *)
theory Boot_Space
  imports Address_Space
begin

text \<open>
  The address space that \<open>paging_init\<close> builds before it turns paging on: the first 64 MiB mapped
  onto themselves, the kernel image from \<^verbatim>\<open>0xC0000000\<close> on, the recursive window and a table for
  every entry of the kernel half.
\<close>

section \<open>The address space of the kernel\<close>

declare upt_rec_numeral [simp del]

text \<open>While paging is off, with enough pages left for all the tables that are missing.\<close>

definition boot_inv :: "vm \<Rightarrow> u32 \<Rightarrow> bool" where
  "boot_inv st d \<longleftrightarrow> \<not> paging_is_enabled st \<and> vm_inv st d d
     \<and> 1024 \<le> card (free_pages (pmm_st st)) + card (pres (pmem st) d)"

lemma card_indexes: "card {j :: u32. j < n} \<le> unat n"
proof -
  have "{j :: u32. j < n} \<subseteq> of_nat ` {..<unat n}"
  proof
    fix j :: u32 assume "j \<in> {j. j < n}"
    then show "j \<in> of_nat ` {..<unat n}" by (intro image_eqI [of _ _ "unat j"]) (simp_all add: word_less_nat_alt)
  qed
  then show ?thesis using surj_card_le [of "{..<unat n}"] by (metis card_lessThan finite_lessThan)
qed

lemma card_pres: "i < 1024 \<Longrightarrow> \<not> present (pde m d i) \<Longrightarrow> card (pres m d) < 1024"
proof -
  assume "i < 1024" "\<not> present (pde m d i)"
  then have "pres m d \<subset> {j. j < 1024}" by (auto simp: pres_def)
  from psubset_card_mono [OF finite this] card_indexes [of 1024] show ?thesis by simp
qed

lemma boot_inv_mem:
  "boot_inv st d \<Longrightarrow> i < 1024 \<Longrightarrow> present (pde (pmem st) d i) \<or> free_pages (pmm_st st) \<noteq> {}"
  using card_pres [of i "pmem st" d] by (auto simp: boot_inv_def)

lemma boot_map_page:
  assumes "boot_inv st d" "virt < 0xFFC00000"
  obtains st' where "map_page d virt phys 3 st = Some st'" "boot_inv st' d"
    "\<And>w. w < 0xFFC00000 \<Longrightarrow> walk (pmem st') d w = (if unat w div 4096 = unat virt div 4096
       then Some (frame phys OR (w AND 0xFFF)) else walk (pmem st) d w)"
proof -
  have inv: "vm_inv st d d" "\<not> paging_is_enabled st" using assms(1) by (simp_all add: boot_inv_def)
  obtain m p where m: "map_page d virt phys 3 st = Some (st\<lparr>pmm_st := p, pmem := m\<rparr>)"
    "vm_inv (st\<lparr>pmm_st := p, pmem := m\<rparr>) d d"
    "\<And>w. dix w \<noteq> 1023 \<Longrightarrow> walk m d w = (if drop_bit 12 w = drop_bit 12 virt
       then if present 3 then Some (frame phys OR (w AND 0xFFF)) else None else walk (pmem st) d w)"
    "card (free_pages (pmm_st st)) + card (pres (pmem st) d) \<le> card (free_pages p) + card (pres m d)"
  proof (rule map_page_ok [OF inv(1), where virt = virt and flags = 3 and phys = phys])
    show "dix virt \<noteq> 1023" using assms(2) by (simp only: window_iff)
    show "present (pde (pmem st) d (dix virt)) \<or> free_pages (pmm_st st) \<noteq> {}"
      by (rule boot_inv_mem [OF assms(1) dix_less])
  qed (use inv(2) in simp_all)
  show ?thesis
  proof (rule that [OF m(1)])
    show "boot_inv (st\<lparr>pmm_st := p, pmem := m\<rparr>) d"
      using m(2,4) assms(1) by (simp add: boot_inv_def paging_is_enabled_def)
  qed (use m(3) in \<open>simp add: window_iff drop12_iff\<close>)
qed

lemma page_shift:
  assumes "frame a = a" "unat (a + offset) = 4096 * v" "unat w div 4096 = v"
  shows "frame a OR (w AND 0xFFF) = w - offset"
proof -
  have "unat w = unat (a + offset) + unat (w AND 0xFFF)"
    unfolding assms(2) assms(3) [symmetric] unat_offset by simp
  then have "of_nat (unat w) = (of_nat (unat (a + offset)) + of_nat (unat (w AND 0xFFF)) :: u32)"
    by (simp only: of_nat_add)
  then have "w = (a + offset) + (w AND 0xFFF)" by simp
  moreover have "w AND 0xFFF < 4096" by (simp add: word_less_nat_alt unat_offset)
  then have "frame a OR (w AND 0xFFF) = a + (w AND 0xFFF)"
    using frame_or_offset [of "w AND 0xFFF" a] assms(1) by simp
  ultimately show ?thesis by (simp add: algebra_simps)
qed

lemma boot_map_pages:
  assumes "boot_inv st d" "unat a = 4096 * q" "unat e \<le> 4096 * (q + n)" "n \<noteq> 0 \<Longrightarrow> 4096 * (q + n - 1) < unat e"
    "q + n < 1048576" "unat (a + offset) = 4096 * v" "v + n \<le> 0xFFC00"
  shows "\<exists>st'. map_pages d offset a e st = Some st' \<and> boot_inv st' d \<and>
    (\<forall>w<0xFFC00000. walk (pmem st') d w = (if unat w div 4096 \<in> {v..<v + n}
       then Some (w - offset) else walk (pmem st) d w))"
  using assms
proof (induction n arbitrary: st a q v)
  case 0
  then have "\<not> a < e" by (simp add: word_less_nat_alt)
  with 0 show ?case by (simp add: map_pages_def page_loop_end)
next
  case (Suc n)
  have "4096 * q < unat e" using Suc.prems(4) by simp
  then have a: "a < e" "a + offset < 0xFFC00000"
    using Suc.prems(2,6,7) by (simp_all add: word_less_nat_alt)
  obtain st1 where st1: "map_page d (a + offset) a 3 st = Some st1" "boot_inv st1 d"
    "\<And>w. w < 0xFFC00000 \<Longrightarrow> walk (pmem st1) d w = (if unat w div 4096 = unat (a + offset) div 4096
       then Some (frame a OR (w AND 0xFFF)) else walk (pmem st) d w)"
    by (rule boot_map_page [OF Suc.prems(1) a(2), where phys = a]) blast
  have v: "unat (a + offset) div 4096 = v" using Suc.prems(6) by simp
  have fa: "frame a = a" using Suc.prems(2) by (intro frame_of_aligned) simp
  have same: "frame a OR (w AND 0xFFF) = w - offset" if "unat w div 4096 = v" for w
    using page_shift [OF fa _ that] Suc.prems(6) by simp
  have a1: "unat (a + 4096) = 4096 * Suc q" using Suc.prems(2,5) by (simp add: unat_word_ariths)
  have "unat ((a + offset) + 4096) = 4096 * Suc v"
    using Suc.prems(6,7) by (simp add: unat_word_ariths)
  then have v1: "unat (a + 4096 + offset) = 4096 * Suc v" by (simp only: ac_simps)
  obtain st2 where st2: "map_pages d offset (a + 4096) e st1 = Some st2" "boot_inv st2 d"
    "\<forall>w<0xFFC00000. walk (pmem st2) d w = (if unat w div 4096 \<in> {Suc v..<Suc v + n}
       then Some (w - offset) else walk (pmem st1) d w)"
    using Suc.IH [OF st1(2) a1 _ _ _ v1] Suc.prems(3,4,5,7) by force
  have "map_pages d offset a e st = Some st2"
    using st2(1) st1(1) a(1)
    by (simp add: map_pages_def page_loop_step [of a e _ st st1])
  moreover have "walk (pmem st2) d w = (if unat w div 4096 \<in> {v..<v + Suc n}
       then Some (w - offset) else walk (pmem st) d w)" if "w < 0xFFC00000" for w
  proof -
    have "unat w div 4096 \<in> {v..<v + Suc n} \<longleftrightarrow> unat w div 4096 = v \<or> unat w div 4096 \<in> {Suc v..<Suc v + n}" by auto
    then show ?thesis using st2(3) st1(3) [OF that] that same [of w] v by auto
  qed
  ultimately show ?case using st2(2) by blast
qed

subsection \<open>The first table\<close>

lemma store_off:
  "\<not> paging_is_enabled st \<Longrightarrow> store v x st = Some (st\<lparr>pmem := (pmem st)(v := x)\<rparr>)"
  by (simp add: store_def mmu_translate_def)

lemma zero_page_off:
  "\<not> paging_is_enabled st \<Longrightarrow> frame f = f \<Longrightarrow> zero_page f st = Some (st\<lparr>pmem := zeroed f (pmem st)\<rparr>)"
  by (rule zero_page_exec) (simp_all add: mmu_translate_def paging_is_enabled_def)

lemma fill_page_off:
  assumes "\<not> paging_is_enabled st" "frame f = f"
  obtains m where "for_each (\<lambda>i. store (f + 4 * of_nat i) (g i)) [0..<1024] st = Some (st\<lparr>pmem := m\<rparr>)"
    "\<And>j. j < 1024 \<Longrightarrow> m (f + 4 * j) = g (unat j)" "\<And>a. frame a \<noteq> f \<Longrightarrow> m a = pmem st a"
proof -
  let ?I = "\<lambda>ix s. \<exists>m. s = st\<lparr>pmem := m\<rparr> \<and> (\<forall>j<1024. unat j \<in> set ix \<longrightarrow> m (f + 4 * j) = g (unat j))
    \<and> (\<forall>a. frame a \<noteq> f \<longrightarrow> m a = pmem st a)"
  have "\<exists>s. for_each (\<lambda>i. store (f + 4 * of_nat i) (g i)) [0..<1024] st = Some s \<and> ?I [0..<1024] s"
  proof (rule for_each_invariant [where I = ?I])
    show "?I [] st" by (rule exI [of _ "pmem st"]) simp
    fix pre i rest s
    assume ix: "[0..<1024] = pre @ i # rest" and "?I pre s"
    then obtain m where m: "s = st\<lparr>pmem := m\<rparr>" "\<forall>j<1024. unat j \<in> set pre \<longrightarrow> m (f + 4 * j) = g (unat j)"
      "\<forall>a. frame a \<noteq> f \<longrightarrow> m a = pmem st a" by blast
    have "set (pre @ i # rest) = {0..<1024}" unfolding ix [symmetric] by simp
    then have i: "i < 1024" by auto
    let ?m = "m(f + 4 * of_nat i := g i)"
    have u: "unat (of_nat i :: u32) = i" using i by (simp add: unsigned_of_nat take_bit_nat_eq_self)
    have "store (f + 4 * of_nat i) (g i) s = Some (st\<lparr>pmem := ?m\<rparr>)"
      using m(1) assms(1) by (simp add: store_def mmu_translate_def paging_is_enabled_def)
    moreover have "\<forall>j<1024. unat j \<in> set (pre @ [i]) \<longrightarrow> ?m (f + 4 * j) = g (unat j)"
    proof (intro allI impI)
      fix j :: u32 assume j: "j < 1024" "unat j \<in> set (pre @ [i])"
      have "f + 4 * j = f + 4 * of_nat i \<longleftrightarrow> j = of_nat i" using j(1) of_nat_less_1024 [OF i] by simp
      then show "?m (f + 4 * j) = g (unat j)" using j m(2) u by auto
    qed
    moreover have "\<forall>a. frame a \<noteq> f \<longrightarrow> ?m a = pmem st a"
      using m(3) frame_slot [OF of_nat_less_1024 [OF i], of f] assms(2) by auto
    ultimately show "\<exists>s'. store (f + 4 * of_nat i) (g i) s = Some s' \<and> ?I (pre @ [i]) s'" by blast
  qed
  then show ?thesis using that by (force simp: word_less_nat_alt)
qed

lemma paging_init_pat_frame:
  "\<exists>pat b. paging_init_pat st = st\<lparr>msr_pat := pat, g_pat_wc_enabled := b\<rparr>"
proof (intro exI)
  show "paging_init_pat st = st\<lparr>msr_pat := msr_pat (paging_init_pat st),
      g_pat_wc_enabled := g_pat_wc_enabled (paging_init_pat st)\<rparr>"
    by (rule vm.equality) (simp_all add: paging_init_pat_def Let_def)
qed

lemma first_table_walk:
  assumes "m pd = ft OR 1 OR 2" "\<And>i. i < 1024 \<Longrightarrow> i \<noteq> 0 \<Longrightarrow> m (pd + 4 * i) = 0"
    "\<And>j. j < 1024 \<Longrightarrow> m (ft + 4 * j) = (of_nat (unat j * 4096) AND 0xFFFFF000) OR 1 OR 2"
    "frame pd = pd" "frame ft = ft"
  shows "walk m pd w = (if unat w div 4096 < 1024 then Some w else None)"
proof -
  have i0: "dix w = 0 \<longleftrightarrow> unat w div 4096 < 1024"
  proof -
    have "unat w div 4194304 = unat w div 4096 div 1024" by (simp add: div_mult2_eq [symmetric])
    then show ?thesis unfolding word_eq_unat_iff unat_dix by (simp add: div_eq_0_iff)
  qed
  show ?thesis
  proof (cases "dix w = 0")
    case True
    let ?a = "of_nat (unat (tix w) * 4096) :: u32"
    have "unat (tix w) < 1024" using tix_less [of w] by (simp add: word_less_nat_alt)
    then have ua: "unat ?a = unat (tix w) * 4096"
      by (simp add: unsigned_of_nat take_bit_nat_eq_self del: of_nat_mult)
    then have fa: "frame ?a = ?a" by (intro frame_of_aligned) (simp del: of_nat_mult)
    have "unat w div 4096 = unat (tix w)" using True i0 by (simp add: unat_tix)
    with page_shift [OF fa, of 0 "unat (tix w)" w] ua have "frame ?a OR (w AND 0xFFF) = w"
      by (simp del: of_nat_mult)
    moreover have "frame (ft OR 1 OR 2) = ft" "present (ft OR 1 OR 2)"
      using assms(5) by (simp_all add: frame_or present_or)
    moreover have "frame (frame ?a OR 1 OR 2) = frame ?a" "present (frame ?a OR 1 OR 2)"
      by (simp_all add: frame_or present_or del: of_nat_mult)
    ultimately show ?thesis
      using True i0 by (simp add: walk_pte assms(1,4) assms(3) [OF tix_less] del: of_nat_mult)
  next
    case False
    then have "pde m pd (dix w) = 0" using assms(2) [OF dix_less False] assms(4) by simp
    then show ?thesis using False i0 by (simp add: walk_pte)
  qed
qed

lemma first_table:
  assumes "\<not> paging_is_enabled st" "frame pd = pd" "frame ft = ft" "pd \<noteq> ft" "pmm_ok (pmm_st st)"
    "unat pd div 4096 \<notin> free_pages (pmm_st st)" "unat ft div 4096 \<notin> free_pages (pmm_st st)"
    "1024 \<le> card (free_pages (pmm_st st))"
  obtains s1 s2 s3 s4 where "zero_page pd st = Some s1" "zero_page ft s1 = Some s2"
    "for_each (\<lambda>i. store (ft + 4 * of_nat i) ((of_nat (i * 4096) AND 0xFFFFF000) OR 1 OR 2)) [0..<1024]
       (paging_init_pat s2) = Some s3"
    "store pd (ft OR 1 OR 2) s3 = Some s4" "boot_inv s4 pd"
    "\<And>w. walk (pmem s4) pd w = (if unat w div 4096 < 1024 then Some w else None)"
proof -
  let ?m2 = "zeroed ft (zeroed pd (pmem st))"
  obtain pat b where pat: "paging_init_pat (st\<lparr>pmem := ?m2\<rparr>) = st\<lparr>pmem := ?m2, msr_pat := pat, g_pat_wc_enabled := b\<rparr>"
    using paging_init_pat_frame by blast
  let ?s2 = "st\<lparr>pmem := ?m2, msr_pat := pat, g_pat_wc_enabled := b\<rparr>"
  have off: "\<not> paging_is_enabled (st\<lparr>pmem := m\<rparr>)" "\<not> paging_is_enabled (?s2\<lparr>pmem := m\<rparr>)" "\<not> paging_is_enabled ?s2" for m
    using assms(1) by (simp_all add: paging_is_enabled_def)
  obtain m3 where m3: "for_each (\<lambda>i. store (ft + 4 * of_nat i) ((of_nat (i * 4096) AND 0xFFFFF000) OR 1 OR 2)) [0..<1024] ?s2
      = Some (?s2\<lparr>pmem := m3\<rparr>)"
    "\<And>j. j < 1024 \<Longrightarrow> m3 (ft + 4 * j) = (of_nat (unat j * 4096) AND 0xFFFFF000) OR 1 OR 2"
    "\<And>a. frame a \<noteq> ft \<Longrightarrow> m3 a = pmem ?s2 a"
    by (rule fill_page_off [OF off(3) assms(3), where g = "\<lambda>i. (of_nat (i * 4096) AND 0xFFFFF000) OR 1 OR 2"]) blast
  define m4 where "m4 = m3(pd := ft OR 1 OR 2)"
  have pde0: "m4 (pd + 4 * i) = 0" if "i < 1024" "i \<noteq> 0" for i
  proof -
    have "frame (pd + 4 * i) = pd" using frame_slot [OF that(1), of pd] assms(2) by simp
    moreover have "pd + 4 * i \<noteq> pd" using that four_eq_iff [of i 0] by simp
    ultimately show ?thesis
      using m3(3) assms(2-4) that zeroed_same [OF assms(2) that(1)] by (simp add: m4_def zeroed_other)
  qed
  have pte: "m4 (ft + 4 * j) = (of_nat (unat j * 4096) AND 0xFFFFF000) OR 1 OR 2" if "j < 1024" for j
  proof -
    have "frame (ft + 4 * j) = ft" using frame_slot [OF that, of ft] assms(3) by simp
    then have "ft + 4 * j \<noteq> pd" using assms(2,4) by auto
    then show ?thesis using m3(2) [OF that] by (simp add: m4_def)
  qed
  have fp: "frame (ft OR 3) = ft" using assms(3) by (simp add: frame_or)
  have only: "i = 0" if "i < 1024" "present (m4 (pd + 4 * i))" for i
    using pde0 [of i] that by (cases "i = 0") simp_all
  have tab: "tables_ok m4 pd (free_pages (pmm_st st))"
    unfolding tables_ok_def assms(2)
  proof (intro conjI allI impI)
    fix i assume i: "i < 1024" "present (m4 (pd + 4 * i))"
    then have [simp]: "i = 0" by (rule only)
    show "unat (frame (m4 (pd + 4 * i))) div 4096 \<notin> free_pages (pmm_st st)"
      "frame (m4 (pd + 4 * i)) \<noteq> pd"
      using assms(4,7) by (simp_all add: m4_def fp)
    show "i = j" if "j < 1024" "present (m4 (pd + 4 * j))" for j using only [OF that] by simp
  qed (rule assms(6))
  let ?s4 = "?s2\<lparr>pmem := m4\<rparr>"
  have "boot_inv ?s4 pd"
    using tab assms(2,5,8) off(2) [of m4] by (simp add: boot_inv_def vm_inv_def reach_def)
  moreover have "walk (pmem ?s4) pd w = (if unat w div 4096 < 1024 then Some w else None)" for w
    using first_table_walk [of m4 pd ft w] pde0 pte assms(2,3) by (simp add: m4_def)
  ultimately show ?thesis
    using that [of "st\<lparr>pmem := zeroed pd (pmem st)\<rparr>" "st\<lparr>pmem := ?m2\<rparr>" "?s2\<lparr>pmem := m3\<rparr>" ?s4]
      m3(1) zero_page_off [OF assms(1,2)] zero_page_off [OF off(1) assms(3)] pat store_off [OF off(2)]
    by (simp add: m4_def)
qed

subsection \<open>The window and the tables of the kernel half\<close>

lemma self_map:
  assumes "boot_inv st pd"
  obtains st' where "store (pd + 4 * 1023) (pd OR 1 OR 2) st = Some st'" "boot_inv st' pd"
    "\<And>w. w < 0xFFC00000 \<Longrightarrow> walk (pmem st') pd w = walk (pmem st) pd w"
    "present (pde (pmem st') pd 1023)" "frame (pde (pmem st') pd 1023) = pd"
proof -
  have inv: "\<not> paging_is_enabled st" "reach st pd pd" "tables_ok (pmem st) pd (free_pages (pmm_st st))" "pmm_ok (pmm_st st)"
    "1024 \<le> card (free_pages (pmm_st st)) + card (pres (pmem st) pd)"
    using assms by (simp_all add: boot_inv_def vm_inv_def)
  have fp: "frame pd = pd" by (rule reachD(1) [OF inv(2)])
  define x where "x = pd OR 1 OR 2"
  have x: "present x" "frame x = frame pd" by (simp_all add: x_def present_or frame_or)
  define m where "m = (pmem st)(frame pd + 4 * 1023 := x)"
  have p: "pde m pd 1023 = x" "\<And>k. k < 1024 \<Longrightarrow> k \<noteq> 1023 \<Longrightarrow> pde m pd k = pde (pmem st) pd k"
    by (simp_all add: m_def)
  have t: "tables_ok m pd (free_pages (pmm_st st))"
    unfolding tables_ok_def
  proof (intro conjI allI impI)
    show d: "unat (frame pd) div 4096 \<notin> free_pages (pmm_st st)" using inv(3) by (simp add: tables_ok_def)
    fix i assume i: "i < 1024" "present (pde m pd i)"
    show "unat (frame (pde m pd i)) div 4096 \<notin> free_pages (pmm_st st)"
    proof (cases "i = 1023")
      case True
      then show ?thesis using d unfolding True p(1) x(2) by simp
    next
      case False
      then show ?thesis using tables_okD(1) [OF inv(3) i(1)] i(2) unfolding p(2) [OF i(1) False] by blast
    qed
    show "frame (pde m pd i) \<noteq> frame pd" if "i \<noteq> 1023"
      using tables_okD(2) [OF inv(3) i(1) _ that] i(2) unfolding p(2) [OF i(1) that] by blast
    fix j assume j: "j < 1024" "present (pde m pd j)" "frame (pde m pd i) = frame (pde m pd j)"
    have other: "frame (pde m pd k) \<noteq> frame (pde m pd 1023)" if "k < 1024" "k \<noteq> 1023" "present (pde m pd k)" for k
      using tables_okD(2) [OF inv(3) that(1) _ that(2)] that(3) unfolding p(2) [OF that(1,2)] p(1) x(2) by blast
    show "i = j"
    proof (cases "i = 1023"; cases "j = 1023")
      assume ne: "i \<noteq> 1023" "j \<noteq> 1023"
      show ?thesis
        using tables_okD(3) [OF inv(3) i(1) _ j(1)] i(2) j(2,3) unfolding p(2) [OF i(1) ne(1)] p(2) [OF j(1) ne(2)] by blast
    next
      assume "i = 1023" "j \<noteq> 1023"
      then show ?thesis using other [OF j(1) _ j(2)] j(3) by metis
    next
      assume "i \<noteq> 1023" "j = 1023"
      then show ?thesis using other [OF i(1) _ i(2)] j(3) by metis
    qed simp
  qed
  have "pres (pmem st) pd \<subseteq> pres m pd"
  proof
    fix k assume "k \<in> pres (pmem st) pd"
    then show "k \<in> pres m pd" using x(1) p by (cases "k = 1023") (simp_all only: pres_def mem_Collect_eq simp_thms)
  qed
  then have "card (pres (pmem st) pd) \<le> card (pres m pd)" by (intro card_mono) simp_all
  then have "boot_inv (st\<lparr>pmem := m\<rparr>) pd"
    using t inv fp by (simp add: boot_inv_def vm_inv_def reach_def paging_is_enabled_def)
  moreover have "walk m pd w = walk (pmem st) pd w" if "w < 0xFFC00000" for w
    unfolding m_def using that window_iff [of w] by (intro walk_write_pde_other [OF inv(3)]) simp_all
  moreover have "store (pd + 4 * 1023) (pd OR 1 OR 2) st = Some (st\<lparr>pmem := m\<rparr>)"
    using store_off [OF inv(1)] fp by (simp add: m_def x_def)
  ultimately show ?thesis
    using that [of "st\<lparr>pmem := m\<rparr>"] x fp unfolding p(1) [symmetric] by simp
qed

text \<open>The loop over the kernel half does what \<open>map_page\<close> does to get a table.\<close>

lemma kernel_table_install:
  assumes "\<not> paging_is_enabled st"
  shows "kernel_table pd i st
    = map_option (\<lambda>(ok, st). (if ok then None else Some (), st)) (install_table pd (of_nat i) 0 st)"
  using assms
  by (auto simp: kernel_table_def install_table_def Let_def load_def mmu_translate_def store_def
      paging_is_enabled_def split: Option.bind_splits)

lemma kernel_tables:
  assumes "boot_inv st pd" "\<forall>i\<in>set ix. i < 1023"
  shows "\<exists>st'. for_until (kernel_table pd) ix st = Some (None, st') \<and> boot_inv st' pd
    \<and> (\<forall>w<0xFFC00000. walk (pmem st') pd w = walk (pmem st) pd w)
    \<and> pde (pmem st') pd 1023 = pde (pmem st) pd 1023
    \<and> of_nat ` set ix \<union> pres (pmem st) pd \<subseteq> pres (pmem st') pd"
  using assms
proof (induction ix arbitrary: st)
  case (Cons i ix)
  have off: "\<not> paging_is_enabled st" and inv: "vm_inv st pd pd" using Cons.prems(1) by (simp_all add: boot_inv_def)
  have i: "i < 1024" "of_nat i < (1024 :: u32)" "of_nat i \<noteq> (1023 :: u32)"
    using Cons.prems(2) of_nat_less_1024 [of i]
    by (auto simp: word_eq_unat_iff unsigned_of_nat take_bit_nat_eq_self)
  obtain m p where m: "install_table pd (of_nat i) 0 st = Some (True, st\<lparr>pmm_st := p, pmem := m\<rparr>)"
    "vm_inv (st\<lparr>pmm_st := p, pmem := m\<rparr>) pd pd" "present (pde m pd (of_nat i))"
    "\<And>w. dix w \<noteq> 1023 \<Longrightarrow> walk m pd w = walk (pmem st) pd w"
    "card (free_pages (pmm_st st)) + card (pres (pmem st) pd) \<le> card (free_pages p) + card (pres m pd)"
    "pres (pmem st) pd \<subseteq> pres m pd" "pde m pd 1023 = pde (pmem st) pd 1023"
    by (rule install_table_ok [OF inv i(2,3) boot_inv_mem [OF Cons.prems(1) i(2)], where flags = 0]) blast
  let ?st = "st\<lparr>pmm_st := p, pmem := m\<rparr>"
  have b: "boot_inv ?st pd" using m(2,5) Cons.prems(1) by (simp add: boot_inv_def paging_is_enabled_def)
  have k: "kernel_table pd i st = Some (None, ?st)" using m(1) by (simp add: kernel_table_install [OF off])
  have "of_nat i \<in> pres m pd" using m(3) i(2) by (simp add: pres_def)
  moreover obtain st' where st': "for_until (kernel_table pd) ix ?st = Some (None, st')" "boot_inv st' pd"
    "\<forall>w<0xFFC00000. walk (pmem st') pd w = walk m pd w" "pde (pmem st') pd 1023 = pde m pd 1023"
    "of_nat ` set ix \<union> pres m pd \<subseteq> pres (pmem st') pd"
    using Cons.IH [OF b] Cons.prems(2) by auto
  ultimately have "of_nat ` set (i # ix) \<union> pres (pmem st) pd \<subseteq> pres (pmem st') pd" using m(6) by auto
  moreover have "for_until (kernel_table pd) (i # ix) st = Some (None, st')" using k st'(1) by simp
  moreover have "\<forall>w<0xFFC00000. walk (pmem st') pd w = walk (pmem st) pd w"
    using st'(3) m(4) by (simp add: window_iff)
  ultimately show ?case using st'(2,4) m(7) by (intro exI [of _ st'] conjI) simp_all
qed simp

subsection \<open>Turning paging on\<close>

lemma enable_ok:
  assumes "boot_inv st pd" "walk (pmem st) pd pd = Some pd" "pd < 0xFFC00000"
    "present (pde (pmem st) pd 1023)" "frame (pde (pmem st) pd 1023) = pd"
  defines "st' \<equiv> (enable_pg (load_pd pd st))\<lparr>kernel_page_directory := pd, kernel_page_directory_phys := pd,
      current_page_directory := pd, current_page_directory_phys := pd\<rparr>"
  shows "vm_ok st'" "mmu_translate st' w = walk (pmem st) pd w" "pmem st' = pmem st" "cr3 st' = pd"
proof -
  have fp: "frame pd = pd" using assms(1) by (simp add: boot_inv_def vm_inv_def reach_def)
  have "bit ((cr0 st OR 0x80000000) AND 0x80000000) 31"
    by (simp add: bit_and_iff bit_or_iff)
  then have "(cr0 st OR 0x80000000) AND 0x80000000 \<noteq> 0" by (metis bit_0_eq bot_apply bot_bool_def)
  then have en: "paging_is_enabled st'"
    by (simp add: st'_def enable_pg_def load_pd_def paging_is_enabled_def)
  have p: "pmem st' = pmem st" "cr3 st' = pd" "pmm_st st' = pmm_st st" "current_page_directory st' = pd"
    by (simp_all add: st'_def enable_pg_def load_pd_def)
  show "mmu_translate st' w = walk (pmem st) pd w" using en p by (simp add: mmu_translate_def)
  have "reach st' pd pd"
    unfolding reach_def p using en fp assms(2-5) window_iff [of pd] by simp
  then show "vm_ok st'" using en assms(1) unfolding vm_ok_def p fp by (simp add: vm_inv_def boot_inv_def p)
  show "pmem st' = pmem st" "cr3 st' = pd" by (fact p(1,2))+
qed

text \<open>The pages of the kernel image, counted.\<close>

lemma image_pages:
  fixes w kstart kend :: u32
  assumes "kstart \<le> kend" "unat w div 4096 = q"
  shows "q \<in> {0xC0000..<0xC0000 + (unat kend - unat kstart + 4095) div 4096}
    \<longleftrightarrow> 0xC0000000 \<le> w \<and> (w AND 0xFFFFF000) - 0xC0000000 < kend - kstart"
proof -
  let ?L = "unat kend - unat kstart"
  have L: "unat (kend - kstart) = ?L" using assms(1) by (rule unat_sub)
  have fw: "unat (frame w) = 4096 * q" unfolding unat_frame assms(2) [symmetric] by (rule minus_mod_eq_mult_div)
  have ge: "0xC0000000 \<le> w \<longleftrightarrow> 0xC0000 \<le> q"
    unfolding assms(2) [symmetric] less_eq_div_iff_mult_less_eq [OF zero_less_numeral] by (simp add: word_le_nat_alt)
  show ?thesis
  proof (cases "0xC0000 \<le> q")
    case True
    then have "0xC0000000 \<le> frame w" using fw by (simp add: word_le_nat_alt)
    then have "unat (frame w - 0xC0000000) = 4096 * q - 0xC0000000" unfolding fw [symmetric] by (simp add: unat_sub)
    then have lt: "frame w - 0xC0000000 < kend - kstart \<longleftrightarrow> 4096 * q - 0xC0000000 < ?L"
      by (simp add: word_less_nat_alt L)
    have "4096 * q - 0xC0000000 = 4096 * (q - 0xC0000)" by (simp add: diff_mult_distrib2)
    moreover have "q - 0xC0000 < (?L + 4095) div 4096 \<longleftrightarrow> 4096 * (q - 0xC0000) < ?L"
      using less_eq_div_iff_mult_less_eq [of 4096 "Suc (q - 0xC0000)" "?L + 4095"] by (simp add: Suc_le_eq algebra_simps)
    ultimately show ?thesis using True ge lt by auto
  qed (use ge in auto)
qed

text \<open>
  C6: with at least 1024 free pages, and the two static tables and the kernel image placed as the
  linker places them, \<open>paging_init\<close> turns paging on in a state that satisfies the invariant of the
  mapping functions, in which the processor translates the first 64 MiB to themselves, the addresses
  from \<^verbatim>\<open>0xC0000000\<close> on to the pages of the kernel image, and no other address below the recursive window;
  every entry of the kernel half of the directory has its table.
\<close>

theorem paging_init_space:
  assumes st: "\<not> paging_is_enabled st" "pmm_ok (pmm_st st)" "1024 \<le> card (free_pages (pmm_st st))"
    and pd: "pd AND 0xFFFFF000 = pd" "pd < 0x04000000" "unat pd div 4096 \<notin> free_pages (pmm_st st)"
    and ft: "ft AND 0xFFFFF000 = ft" "ft \<noteq> pd" "unat ft div 4096 \<notin> free_pages (pmm_st st)"
    and k: "kstart AND 0xFFFFF000 = kstart" "kstart \<le> kend" "kend \<le> 0xFFFFF000" "kend - kstart \<le> 0x3FC00000"
  shows "\<exists>st'. paging_init pd ft kstart kend st = Some st' \<and> vm_ok st'
    \<and> (\<forall>w<0xFFC00000. mmu_translate st' w =
         (if w < 0x04000000 then Some w
          else if 0xC0000000 \<le> w \<and> (w AND 0xFFFFF000) - 0xC0000000 < kend - kstart
          then Some (w - 0xC0000000 + kstart) else None))
    \<and> (\<forall>i\<in>{768..<1024}. pmem st' (cr3 st' + 4 * of_nat i) AND 1 \<noteq> 0)"
proof -
  obtain s1 s2 s3 s4 where s: "zero_page pd st = Some s1" "zero_page ft s1 = Some s2"
    "for_each (\<lambda>i. store (ft + 4 * of_nat i) ((of_nat (i * 4096) AND 0xFFFFF000) OR 1 OR 2)) [0..<1024]
       (paging_init_pat s2) = Some s3"
    "store pd (ft OR 1 OR 2) s3 = Some s4" "boot_inv s4 pd"
    "\<And>w. walk (pmem s4) pd w = (if unat w div 4096 < 1024 then Some w else None)"
    using first_table [OF st(1) pd(1) ft(1) ft(2) [symmetric] st(2) pd(3) ft(3) st(3)] by blast
  obtain s5 where s5: "map_pages pd 0 0x00400000 0x04000000 s4 = Some s5" "boot_inv s5 pd"
    "\<forall>w<0xFFC00000. walk (pmem s5) pd w = (if unat w div 4096 \<in> {1024..<1024 + 15360}
       then Some (w - 0) else walk (pmem s4) pd w)"
    using boot_map_pages [OF s(5), of "0x00400000" 1024 "0x04000000" 15360 0 1024] by auto
  define n where "n = (unat kend - unat kstart + 4095) div 4096"
  define q where "q = unat kstart div 4096"
  have L: "unat (kend - kstart) = unat kend - unat kstart" using k(2) by (rule unat_sub)
  have qk: "unat kstart = 4096 * q" using frame_dvd [of kstart] k(1) by (simp add: q_def)
  have ke: "unat kstart \<le> unat kend" using k(2) by (simp add: word_le_nat_alt)
  have n1: "4096 * n \<le> unat kend - unat kstart + 4095" unfolding n_def by (rule times_div_less_eq_dividend)
  have n2: "unat kend - unat kstart + 4095 < 4096 * (n + 1)" unfolding n_def using dividend_less_times_div [of 4096] by simp
  have n3: "n \<le> 0x3FC00"
  proof -
    have "unat kend - unat kstart \<le> 0x3FC00000" using k(4) L by (simp add: word_le_nat_alt)
    with n1 show ?thesis by linarith
  qed
  have n4: "q + n < 1048576" using n1 qk ke k(3) by (simp add: word_le_nat_alt)
  have n5: "unat kend \<le> 4096 * (q + n)" using n2 qk ke by simp
  have n6: "4096 * (q + n - 1) < unat kend" if "n \<noteq> 0" using n1 qk ke that by (cases n) simp_all
  have n7: "unat (kstart + (0xC0000000 - kstart)) = 4096 * 0xC0000" by simp
  obtain s6 where s6: "map_pages pd (0xC0000000 - kstart) kstart kend s5 = Some s6" "boot_inv s6 pd"
    "\<forall>w<0xFFC00000. walk (pmem s6) pd w = (if unat w div 4096 \<in> {0xC0000..<0xC0000 + n}
       then Some (w - (0xC0000000 - kstart)) else walk (pmem s5) pd w)"
    using boot_map_pages [OF s5(2) qk n5 n6 n4 n7] n3 by auto
  obtain s7 where s7: "store (pd + 4 * 1023) (pd OR 1 OR 2) s6 = Some s7" "boot_inv s7 pd"
    "\<And>w. w < 0xFFC00000 \<Longrightarrow> walk (pmem s7) pd w = walk (pmem s6) pd w"
    "present (pde (pmem s7) pd 1023)" "frame (pde (pmem s7) pd 1023) = pd"
    using self_map [OF s6(2)] by blast
  obtain s8 where s8: "for_until (kernel_table pd) [768..<1023] s7 = Some (None, s8)" "boot_inv s8 pd"
    "\<forall>w<0xFFC00000. walk (pmem s8) pd w = walk (pmem s7) pd w"
    "pde (pmem s8) pd 1023 = pde (pmem s7) pd 1023"
    "of_nat ` set [768..<1023] \<union> pres (pmem s7) pd \<subseteq> pres (pmem s8) pd"
    using kernel_tables [OF s7(2), of "[768..<1023]"] by auto
  have low: "w < 0x04000000 \<longleftrightarrow> unat w div 4096 < 16384" for w :: u32
    by (simp add: word_less_nat_alt div_less_iff_less_mult)
  have tr: "walk (pmem s8) pd w = (if w < 0x04000000 then Some w
      else if 0xC0000000 \<le> w \<and> (w AND 0xFFFFF000) - 0xC0000000 < kend - kstart
      then Some (w - 0xC0000000 + kstart) else None)" if "w < 0xFFC00000" for w
    using s8(3) s7(3) s6(3) s5(3) s(6) that low [of w] image_pages [OF k(2) refl, of w, folded n_def]
    by (auto simp: algebra_simps)
  have pdw: "pd < 0xFFC00000" using pd(2) by (rule less_trans) simp
  from tr [OF this] pd(2) have "walk (pmem s8) pd pd = Some pd" by simp
  note en = enable_ok [OF s8(2) this pdw s7(4) [folded s8(4)] s7(5) [folded s8(4)]]
  have "of_nat i \<in> pres (pmem s8) pd" if "i \<in> {768..<1024}" for i
  proof (cases "i = 1023")
    case True
    then show ?thesis using s7(4) s8(4) by (simp add: pres_def)
  next
    case False
    with that have "i \<in> set [768..<1023]" by auto
    then show ?thesis using s8(5) by blast
  qed
  then have "\<forall>i\<in>{768..<1024}. pmem s8 (pd + 4 * of_nat i) AND 1 \<noteq> 0" using pd(1) by (simp add: pres_def)
  moreover have "paging_init pd ft kstart kend st = Some ((enable_pg (load_pd pd s8))
      \<lparr>kernel_page_directory := pd, kernel_page_directory_phys := pd,
       current_page_directory := pd, current_page_directory_phys := pd\<rparr>)"
    using s(1-4) s5(1) s6(1) s7(1) s8(1) by (simp add: paging_init_def Let_def del: of_nat_mult)
  ultimately show ?thesis using en tr by simp
qed

theorem paging_init_space_witness:
  "\<exists>st'. paging_init 0x1000 0x2000 0x100000 0x200000 ((small_vm 2048)\<lparr>cr0 := 0\<rparr>) = Some st'
    \<and> mmu_translate st' 0xC0000004 = Some 0x100004 \<and> mmu_translate st' 0x12345 = Some 0x12345
    \<and> mmu_translate st' 0xC0100000 = None"
proof -
  let ?st = "(small_vm 2048)\<lparr>cr0 := 0\<rparr>"
  have p: "pmm_st ?st = small_pmm 2048" by (simp add: small_vm_def)
  have f: "free_pages (small_pmm 2048) = {3..<2048}" by (simp add: free_small)
  have "\<exists>st'. paging_init 0x1000 0x2000 0x100000 0x200000 ?st = Some st' \<and> vm_ok st'
    \<and> (\<forall>w<0xFFC00000. mmu_translate st' w =
       (if w < 0x04000000 then Some w
        else if 0xC0000000 \<le> w \<and> (w AND 0xFFFFF000) - 0xC0000000 < 0x200000 - 0x100000
        then Some (w - 0xC0000000 + 0x100000) else None))
    \<and> (\<forall>i\<in>{768..<1024}. pmem st' (cr3 st' + 4 * of_nat i) AND 1 \<noteq> 0)"
  proof (rule paging_init_space)
    show "pmm_ok (pmm_st ?st)" unfolding p by (simp add: pmm_ok_def f) (simp add: small_pmm_def)
    show "1024 \<le> card (free_pages (pmm_st ?st))" unfolding p f by simp
  qed (simp_all add: paging_is_enabled_def p f)
  then obtain st' where "paging_init 0x1000 0x2000 0x100000 0x200000 ?st = Some st'"
    "\<forall>w<0xFFC00000. mmu_translate st' w =
       (if w < 0x04000000 then Some w
        else if 0xC0000000 \<le> w \<and> (w AND 0xFFFFF000) - 0xC0000000 < 0x200000 - 0x100000
        then Some (w - 0xC0000000 + 0x100000) else None)" by blast
  then show ?thesis by simp
qed

end
