(* ===== verification/Memory_Bytes.thy ===== *)
theory Memory_Bytes
  imports Paging
begin

text \<open>
  Accesses of the kernel to single bytes and to words at any address, through the memory
  management unit.  \<open>pmem\<close> holds 32-bit words; a byte is a part of the word at the aligned address
  below it, least significant byte first.  As in \<open>Paging\<close> an access to an address that is not
  mapped is a page fault, the value \<^const>\<open>None\<close>.
\<close>

section \<open>Model\<close>

definition get_byte :: "nat \<Rightarrow> u32 \<Rightarrow> u8" where
  "get_byte k w = ucast (drop_bit (8 * k) w)"

definition set_byte :: "nat \<Rightarrow> u8 \<Rightarrow> u32 \<Rightarrow> u32" where
  "set_byte k b w = (w AND NOT (push_bit (8 * k) 0xFF)) OR push_bit (8 * k) (ucast b)"

definition load8 :: "vm \<Rightarrow> u32 \<Rightarrow> u8 option" where
  "load8 st v = map_option (\<lambda>p. get_byte (unat (p AND 3)) (pmem st (p AND NOT 3))) (mmu_translate st v)"

definition store8 :: "u32 \<Rightarrow> u8 \<Rightarrow> vm \<Rightarrow> vm option" where
  "store8 v b st = map_option
     (\<lambda>p. st\<lparr>pmem := (pmem st)(p AND NOT 3 := set_byte (unat (p AND 3)) b (pmem st (p AND NOT 3)))\<rparr>)
     (mmu_translate st v)"

fun load_bytes :: "vm \<Rightarrow> u32 \<Rightarrow> nat \<Rightarrow> bytes option" where
  "load_bytes st v 0 = Some []"
| "load_bytes st v (Suc n) = do { b \<leftarrow> load8 st v; bs \<leftarrow> load_bytes st (v + 1) n; Some (b # bs) }"

fun store_bytes :: "u32 \<Rightarrow> bytes \<Rightarrow> vm \<Rightarrow> vm option" where
  "store_bytes v [] st = Some st"
| "store_bytes v (b # bs) st = do { st \<leftarrow> store8 v b st; store_bytes (v + 1) bs st }"

definition word_bytes :: "u32 \<Rightarrow> bytes" where
  "word_bytes w = map (\<lambda>k. get_byte k w) [0, 1, 2, 3]"

definition load32 :: "vm \<Rightarrow> u32 \<Rightarrow> u32 option" where
  "load32 st v = do {
     bs \<leftarrow> load_bytes st v 4;
     Some (fold (\<lambda>k w. set_byte k (bs ! k) w) [0, 1, 2, 3] 0) }"

definition store32 :: "u32 \<Rightarrow> u32 \<Rightarrow> vm \<Rightarrow> vm option" where
  "store32 v w = store_bytes v (word_bytes w)"

definition store16 :: "u32 \<Rightarrow> u32 \<Rightarrow> vm \<Rightarrow> vm option" where
  "store16 v w = store_bytes v (take 2 (word_bytes w))"

text \<open>\<open>memset(v, 0, n)\<close> and \<open>memcpy(dst, src, n)\<close> on memory, byte by byte upwards.\<close>

fun clear_bytes :: "u32 \<Rightarrow> nat \<Rightarrow> vm \<Rightarrow> vm option" where
  "clear_bytes v 0 st = Some st"
| "clear_bytes v (Suc n) st = do { st \<leftarrow> store8 v 0 st; clear_bytes (v + 1) n st }"

fun copy_bytes :: "u32 \<Rightarrow> u32 \<Rightarrow> nat \<Rightarrow> vm \<Rightarrow> vm option" where
  "copy_bytes dst src 0 st = Some st"
| "copy_bytes dst src (Suc n) st = do {
     b \<leftarrow> load8 st src;
     st \<leftarrow> store8 dst b st;
     copy_bytes (dst + 1) (src + 1) n st }"

section \<open>Bytes of a word\<close>

lemma bit_get_byte: "bit (get_byte k w) n \<longleftrightarrow> n < 8 \<and> bit w (8 * k + n)"
  by (auto simp: get_byte_def bit_simps)

lemma bit_set_byte:
  "k < 4 \<Longrightarrow> bit (set_byte k b w) n \<longleftrightarrow> n < 32 \<and> (if n div 8 = k then bit b (n mod 8) else bit w n)"
proof -
  assume k: "k < 4"
  have "bit (0xFF :: u32) m \<longleftrightarrow> m < 8" for m
    using bit_mask_iff [of 8 m, where ?'a = u32] by (auto simp: mask_eq_exp_minus_1)
  then have "bit (set_byte k b w) n \<longleftrightarrow> n < 32 \<and>
      (bit w n \<and> \<not> (8 * k \<le> n \<and> n - 8 * k < 8) \<or> 8 * k \<le> n \<and> n - 8 * k < 8 \<and> bit b (n - 8 * k))"
    using bit_imp_le_length [of b "n - 8 * k"] by (auto simp: set_byte_def bit_simps)
  moreover have "8 * k \<le> n \<and> n - 8 * k < 8 \<longleftrightarrow> n div 8 = k"
    using div_mult_mod_eq [of n 8] by (auto simp: div_nat_eqI)
  moreover have "n - 8 * k = n mod 8" if "n div 8 = k"
    using that minus_div_mult_eq_mod [of n 8] by (simp add: mult.commute)
  ultimately show ?thesis by auto
qed

lemma get_set_byte [simp]:
  assumes "k < 4" "j < 4"
  shows "get_byte j (set_byte k b w) = (if j = k then b else get_byte j w)"
proof (rule bit_word_eqI)
  fix n assume "n < LENGTH(8)"
  then have n: "n < 8" by simp
  then have "(8 * j + n) div 8 = j" "(8 * j + n) mod 8 = n" "8 * j + n < 32" using assms(2) by simp_all
  then show "bit (get_byte j (set_byte k b w)) n = bit (if j = k then b else get_byte j w) n"
    using n by (simp add: bit_get_byte bit_set_byte [OF assms(1)])
qed

end
