(* ===== verification/Syscall_Support.thy ===== *)
theory Syscall_Support
  imports Memory_Bytes Libc_String Ring_Buffers
begin

text \<open>
  The data of \<^verbatim>\<open>kernel/syscall.c\<close> and the functions the system calls share: the table of open files,
  the message queue of the GUI server, the checks of pointers that come from a process, and the
  colour suffix of a line of the message of the day.

  A pointer to an entry of a table is its index, the null pointer is \<^const>\<open>None\<close>.
\<close>

section \<open>Model\<close>

abbreviation MAX_OPEN_FILES :: nat where "MAX_OPEN_FILES \<equiv> 16"
abbreviation MAX_PATH_LEN :: nat where "MAX_PATH_LEN \<equiv> 256"

record syscall_fd =
  fd_used :: int
  owner_pid :: u32
  fd_offset :: u32
  fd_size :: u32
  fd_path :: bytes

definition fd_zero :: syscall_fd where
  "fd_zero = \<lparr>fd_used = 0, owner_pid = 0, fd_offset = 0, fd_size = 0, fd_path = replicate MAX_PATH_LEN 0\<rparr>"

record gui_msg =
  sender_pid :: u32
  msg_type :: u32
  msg_a :: int
  msg_b :: int
  msg_c :: int
  msg_text :: bytes

record gui =
  gui_queue :: "gui_msg list"
  gui_queue_head :: u32
  gui_queue_tail :: u32
  gui_server_pid :: u32

definition gui_queue_push :: "gui_msg \<Rightarrow> gui \<Rightarrow> bool \<times> gui" where
  "gui_queue_push msg q =
     (let next = (gui_queue_head q + 1) mod 64
      in if next = gui_queue_tail q then (False, q)
         else (True, q\<lparr>gui_queue := (gui_queue q)[unat (gui_queue_head q) := msg], gui_queue_head := next\<rparr>))"

definition gui_queue_pop :: "gui \<Rightarrow> (gui_msg \<times> gui) option" where
  "gui_queue_pop q =
     (if gui_queue_head q = gui_queue_tail q then None
      else Some (gui_queue q ! unat (gui_queue_tail q),
                 q\<lparr>gui_queue_tail := (gui_queue_tail q + 1) mod 64\<rparr>))"

subsection \<open>Memory of a process\<close>

text \<open>The loop runs from the page of the first byte to the page of the last.\<close>

partial_function (option) validate_pages :: "vm \<Rightarrow> u32 \<Rightarrow> u32 \<Rightarrow> int option" where
  "validate_pages st page end_page = do {
     r \<leftarrow> vmm_virt_to_phys True page st;
     if r = None then Some (- 1)
     else if page = end_page then Some 0
     else if page + 4096 < page then Some (- 1)
     else validate_pages st (page + 4096) end_page }"

definition validate_user_buffer :: "vm \<Rightarrow> u32 \<Rightarrow> u32 \<Rightarrow> int option" where
  "validate_user_buffer st addr sz =
     (if sz = 0 then Some 0
      else if addr = 0 then Some (- 1)
      else
        let end_addr = addr + sz - 1
        in if end_addr < addr then Some (- 1)
           else validate_pages st (addr AND NOT 0xFFF) (end_addr AND NOT 0xFFF))"

function copy_string_from :: "vm \<Rightarrow> u32 \<Rightarrow> nat \<Rightarrow> u32 \<Rightarrow> nat \<Rightarrow> bytes \<Rightarrow> (int \<times> bytes) option" where
  "copy_string_from st src max_len page i dst =
     (if i + 1 < max_len then
        (let addr = src + of_nat i;
             new_page = addr AND NOT 0xFFF
         in do {
           ok \<leftarrow> (if new_page \<noteq> page
                 then do { r \<leftarrow> vmm_virt_to_phys True new_page st; Some (r \<noteq> None) }
                 else Some True);
           if \<not> ok then Some (- 1, dst)
           else do {
             c \<leftarrow> load8 st addr;
             dst \<leftarrow> arr_set dst i c;
             if c = 0 then Some (0, dst) else copy_string_from st src max_len new_page (i + 1) dst } })
      else do {
        dst \<leftarrow> arr_set dst (max_len - 1) 0;
        Some (- 1, dst) })"
  by pat_completeness auto
termination by (relation "measure (\<lambda>(st, src, max_len, page, i, dst). max_len - i)") auto

definition copy_user_string :: "vm \<Rightarrow> bytes \<Rightarrow> u32 \<Rightarrow> nat \<Rightarrow> (int \<times> bytes) option" where
  "copy_user_string st dst src max_len =
     (if src = 0 \<or> max_len = 0 then Some (- 1, dst)
      else
        let page = src AND NOT 0xFFF
        in do {
          r \<leftarrow> vmm_virt_to_phys True page st;
          if r = None then Some (- 1, dst) else copy_string_from st src max_len page 0 dst })"

subsection \<open>Open files\<close>

definition alloc_fd :: "u32 \<Rightarrow> syscall_fd list \<Rightarrow> (int \<times> syscall_fd list)" where
  "alloc_fd owner fds =
     (case first_index (\<lambda>f. fd_used f = 0) fds of
        None \<Rightarrow> (- 1, fds)
      | Some i \<Rightarrow> (int i, fds[i := (fds ! i)\<lparr>fd_used := 1, owner_pid := owner, fd_offset := 0, fd_size := 0,
                                  fd_path := (fd_path (fds ! i))[0 := 0]\<rparr>]))"

definition get_fd :: "u32 \<Rightarrow> u32 \<Rightarrow> syscall_fd list \<Rightarrow> nat option" where
  "get_fd fd owner fds =
     (if fd \<ge> of_nat MAX_OPEN_FILES then None
      else if fd_used (fds ! unat fd) = 0 then None
      else if owner \<noteq> 0 \<and> owner_pid (fds ! unat fd) \<noteq> owner then None
      else Some (unat fd))"

definition sys_close_fds_for_pid :: "u32 \<Rightarrow> syscall_fd list \<Rightarrow> syscall_fd list" where
  "sys_close_fds_for_pid pid fds =
     (if pid = 0 then fds
      else map (\<lambda>f. if fd_used f = 0 then f else if owner_pid f \<noteq> pid then f else fd_zero) fds)"

definition is_console_path :: "bytes \<Rightarrow> bool option" where
  "is_console_path path = do {
     a \<leftarrow> strcasecmp path (map of_char ''console'' @ [0]);
     if a = 0 then Some True
     else do {
       b \<leftarrow> strcasecmp path (map of_char ''/dev/console'' @ [0]);
       Some (b = 0) } }"

subsection \<open>The message of the day\<close>

definition blank :: "u8 \<Rightarrow> bool" where
  "blank c \<longleftrightarrow> c = 32 \<or> c = 9"

text \<open>Moving an index left, or right up to \<open>len\<close>, over characters of a kind.\<close>

fun skip_left :: "(u8 \<Rightarrow> bool) \<Rightarrow> bytes \<Rightarrow> nat \<Rightarrow> nat" where
  "skip_left P s 0 = 0"
| "skip_left P s (Suc i) = (if P (s ! i) then skip_left P s i else Suc i)"

function skip_right :: "(u8 \<Rightarrow> bool) \<Rightarrow> bytes \<Rightarrow> nat \<Rightarrow> nat \<Rightarrow> nat" where
  "skip_right P s i len = (if i < len \<and> P (s ! i) then skip_right P s (i + 1) len else i)"
  by auto
termination by (relation "measure (\<lambda>(P, s, i, len). len - i)") auto

text \<open>A colour number of at most 15; only the background's characters are checked to be digits.\<close>

fun color_number :: "bool \<Rightarrow> bytes \<Rightarrow> u32 \<Rightarrow> u32 option" where
  "color_number chk [] v = Some v"
| "color_number chk (c # cs) v =
     (if chk \<and> \<not> isdigit c then None
      else
        let v = v * 10 + word_of_int (sint c - sint (ch CHR ''0''))
        in if v > 15 then None else color_number chk cs v)"

definition parse_motd_color_suffix :: "bytes \<Rightarrow> ((u8 \<times> u8) option \<times> bytes) option" where
  "parse_motd_color_suffix line = do {
     len \<leftarrow> strlen line;
     let len = skip_left blank line len;
     if len = 0 then Some (None, line)
     else
       (let comma = skip_left (\<lambda>c. c \<noteq> ch CHR '','') line len in
        if comma = 0 \<or> comma = len then Some (None, line)
        else
          (let bg_start = skip_right blank line comma len in
           if bg_start \<ge> len then Some (None, line)
           else
             (case color_number True (drop bg_start (take len line)) 0 of
                None \<Rightarrow> Some (None, line)
              | Some bg \<Rightarrow>
                  (let fg_end = skip_left blank line (comma - 1) in
                   if fg_end = 0 then Some (None, line)
                   else
                     (let fg_start = skip_left isdigit line fg_end in
                      if fg_start = fg_end then Some (None, line)
                      else
                        (case color_number False (drop fg_start (take fg_end line)) 0 of
                           None \<Rightarrow> Some (None, line)
                         | Some fg \<Rightarrow> do {
                             line \<leftarrow> arr_set line (skip_left blank line fg_start) 0;
                             Some (Some (ucast fg, ucast bg), line) }))))))}"

declare validate_pages.simps [simp del]
declare copy_string_from.simps [simp del]

end
