(* ===== verification/Proc.thy ===== *)
theory Proc
  imports Syscall_Support
begin

text \<open>
  The process table and the scheduler, \<^verbatim>\<open>kernel/proc/proc.c\<close>.

  A \<open>process_t*\<close> is the index of an entry of \<open>proc_table\<close>, the null pointer is \<^const>\<open>None\<close>.  The record
  \<open>sched\<close> holds the statics of the file together with the parts of the machine and of the kernel
  it works on: the flags, the stack pointer, the stack of the task state segment, the heap, the
  address spaces with the memory behind them, the open files and the flags of the shell.  A saved
  register frame lies in memory, as the interrupt entry leaves it; the offsets below are those of
  \<open>registers_t\<close>.  A page fault is \<^const>\<open>None\<close>.  The console output is left out.
\<close>

section \<open>Model\<close>

subsection \<open>The process table\<close>

abbreviation MAX_PROCS :: nat where "MAX_PROCS \<equiv> 16"
abbreviation PROC_NAME_MAX :: nat where "PROC_NAME_MAX \<equiv> 32"

datatype proc_state = PROC_UNUSED | PROC_READY | PROC_RUNNING | PROC_BLOCKED | PROC_EXITED

record process =
  pid :: u32
  pname :: bytes
  entry :: u32
  image_base :: u32
  image_size :: u32
  image_load_base :: u32
  stack_base :: u32
  stack_size :: u32
  stack_kern_base :: u32
  kstack_base :: u32
  kstack_size :: u32
  context_esp :: u32
  exit_code :: u32
  vfork_parent_pid :: u32
  page_dir :: u32
  page_dir_phys :: u32
  state :: proc_state
  is_kernel :: bool

definition proc_zero :: process where
  "proc_zero = \<lparr>pid = 0, pname = replicate PROC_NAME_MAX 0, entry = 0, image_base = 0, image_size = 0,
     image_load_base = 0, stack_base = 0, stack_size = 0, stack_kern_base = 0, kstack_base = 0,
     kstack_size = 0, context_esp = 0, exit_code = 0, vfork_parent_pid = 0, page_dir = 0,
     page_dir_phys = 0, state = PROC_UNUSED, is_kernel = False\<rparr>"

record shell_flags =
  keyboard_input_enabled :: bool
  enable_shell :: bool
  prompt_enabled :: bool
  shell_suspended :: bool
  sysmgr_prompt_pending :: bool
  sysmgr_prompt_force :: bool

record sched =
  proc_table :: "process list"
  current_proc :: "nat option"
  next_pid :: u32
  current_index :: int
  proc_reaper_enabled :: bool
  proc_reap_pending :: bool
  proc_reaper_pid :: u32
  proc_watchdog_pid :: u32
  sched_next_esp :: u32
  kill_requested_pid :: u32
  last_irq_regs :: u32
  foreground_pid :: u32
  last_map_log_pid :: u32
  cpu_eflags :: u32
  cpu_esp :: u32
  tss_esp0 :: u32
  heap :: kheap
  mmu :: vm
  fd_table :: "syscall_fd list"
  shell :: shell_flags

abbreviation proc_at :: "sched \<Rightarrow> nat \<Rightarrow> process" where
  "proc_at st i \<equiv> proc_table st ! i"

definition set_proc :: "nat \<Rightarrow> (process \<Rightarrow> process) \<Rightarrow> sched \<Rightarrow> sched" where
  "set_proc i f st = st\<lparr>proc_table := (proc_table st)[i := f (proc_at st i)]\<rparr>"

definition proc_irq_save :: "sched \<Rightarrow> u32 \<times> sched" where
  "proc_irq_save st = (cpu_eflags st, st\<lparr>cpu_eflags := cpu_eflags st AND NOT 0x200\<rparr>)"

definition proc_irq_restore :: "u32 \<Rightarrow> sched \<Rightarrow> sched" where
  "proc_irq_restore flags st =
     (if flags AND 0x200 \<noteq> 0 then st\<lparr>cpu_eflags := cpu_eflags st OR 0x200\<rparr> else st)"

definition proc_get_current_esp :: "sched \<Rightarrow> u32" where
  "proc_get_current_esp st = cpu_esp st"

definition tss_set_kernel_stack :: "u32 \<Rightarrow> sched \<Rightarrow> sched" where
  "tss_set_kernel_stack kernel_stack st = st\<lparr>tss_esp0 := kernel_stack\<rparr>"

definition proc_stack_in_use :: "process \<Rightarrow> u32 \<Rightarrow> bool" where
  "proc_stack_in_use p esp =
     (if kstack_base p = 0 \<or> kstack_size p = 0 then False
      else
        let start = kstack_base p;
            end_addr = start + kstack_size p
        in if end_addr < start then False else start \<le> esp \<and> esp < end_addr)"

text \<open>Whether an address that matters for the process is not mapped; 0 is not checked.\<close>

definition unmapped :: "sched \<Rightarrow> u32 \<Rightarrow> bool option" where
  "unmapped st a = (if a = 0 then Some False
     else do { r \<leftarrow> vmm_virt_to_phys True a (mmu st); Some (r = None) })"

definition dump_if :: "bool \<Rightarrow> u32 \<Rightarrow> sched \<Rightarrow> unit option" where
  "dump_if b a st = (if b then do { _ \<leftarrow> dump_mapping a (mmu st); Some () } else Some ())"

definition proc_log_user_map :: "nat \<Rightarrow> sched \<Rightarrow> sched option" where
  "proc_log_user_map i st =
     (let p = proc_at st i in
      if is_kernel p then Some st
      else do {
        miss_entry \<leftarrow> unmapped st (entry p);
        miss_load \<leftarrow> (if image_load_base p \<noteq> entry p then unmapped st (image_load_base p) else Some False);
        miss_stack \<leftarrow> unmapped st (stack_base p);
        if \<not> miss_entry \<and> \<not> miss_load \<and> \<not> miss_stack then Some st
        else if pid p = last_map_log_pid st then Some st
        else do {
          _ \<leftarrow> dump_if miss_entry (entry p) st;
          _ \<leftarrow> dump_if miss_load (image_load_base p) st;
          _ \<leftarrow> dump_if miss_stack (stack_base p) st;
          Some (st\<lparr>last_map_log_pid := pid p\<rparr>) } })"

definition sched_kfree :: "u32 \<Rightarrow> sched \<Rightarrow> sched" where
  "sched_kfree p st = st\<lparr>heap := kfree p (heap st)\<rparr>"

definition proc_cleanup :: "nat \<Rightarrow> sched \<Rightarrow> sched" where
  "proc_cleanup i st =
     (let p = proc_at st i;
          st = (if pid p \<noteq> 0 then st\<lparr>fd_table := sys_close_fds_for_pid (pid p) (fd_table st)\<rparr> else st);
          st = (if stack_kern_base p \<noteq> 0 then sched_kfree (stack_kern_base p) st else st);
          st = (if kstack_base p \<noteq> 0 then sched_kfree (kstack_base p) st else st);
          st = (if image_base p \<noteq> 0 then sched_kfree (image_base p) st else st);
          st = (if \<not> is_kernel p \<and> page_dir p \<noteq> 0 then sched_kfree (page_dir p) st else st)
      in set_proc i (\<lambda>_. proc_zero) st)"

definition proc_cleanup_process :: "nat \<Rightarrow> sched \<Rightarrow> sched" where
  "proc_cleanup_process i st = proc_cleanup i st"

definition proc_init :: "sched \<Rightarrow> sched" where
  "proc_init st = st\<lparr>proc_table := replicate MAX_PROCS proc_zero, current_proc := None, next_pid := 1,
     current_index := - 1, sched_next_esp := 0, kill_requested_pid := 0, last_irq_regs := 0,
     foreground_pid := 0, proc_reaper_enabled := False, proc_reap_pending := False,
     proc_reaper_pid := 0, proc_watchdog_pid := 0\<rparr>"

subsection \<open>Looking up processes\<close>

definition dead :: "process \<Rightarrow> bool" where
  "dead p \<longleftrightarrow> state p = PROC_UNUSED \<or> state p = PROC_EXITED"

definition find_pid :: "u32 \<Rightarrow> sched \<Rightarrow> nat option" where
  "find_pid n st = (if n = 0 then None else first_index (\<lambda>p. pid p = n) (proc_table st))"

definition proc_current_pid :: "sched \<Rightarrow> u32" where
  "proc_current_pid st = (case current_proc st of None \<Rightarrow> 0 | Some i \<Rightarrow> pid (proc_at st i))"

definition proc_current_is_user :: "sched \<Rightarrow> bool" where
  "proc_current_is_user st = (case current_proc st of None \<Rightarrow> False | Some i \<Rightarrow> \<not> is_kernel (proc_at st i))"

definition proc_set_last_regs :: "u32 \<Rightarrow> sched \<Rightarrow> sched" where
  "proc_set_last_regs regs st = st\<lparr>last_irq_regs := regs\<rparr>"

definition proc_get_last_regs :: "sched \<Rightarrow> u32" where
  "proc_get_last_regs st = last_irq_regs st"

definition proc_set_foreground_pid :: "u32 \<Rightarrow> sched \<Rightarrow> sched" where
  "proc_set_foreground_pid n st = st\<lparr>foreground_pid := n\<rparr>"

definition proc_get_foreground_pid :: "sched \<Rightarrow> u32" where
  "proc_get_foreground_pid st = foreground_pid st"

definition proc_is_foreground_pid :: "u32 \<Rightarrow> sched \<Rightarrow> bool" where
  "proc_is_foreground_pid n st \<longleftrightarrow> n \<noteq> 0 \<and> foreground_pid st = n"

definition proc_pid_alive :: "u32 \<Rightarrow> sched \<Rightarrow> bool" where
  "proc_pid_alive n st = (case find_pid n st of None \<Rightarrow> False | Some i \<Rightarrow> \<not> dead (proc_at st i))"

definition proc_lookup :: "u32 \<Rightarrow> sched \<Rightarrow> nat option" where
  "proc_lookup n st = (case find_pid n st of None \<Rightarrow> None
     | Some i \<Rightarrow> if dead (proc_at st i) then None else Some i)"

definition proc_pid_exited :: "u32 \<Rightarrow> sched \<Rightarrow> u32 option" where
  "proc_pid_exited n st = (case find_pid n st of None \<Rightarrow> None
     | Some i \<Rightarrow> if state (proc_at st i) \<noteq> PROC_EXITED then None else Some (exit_code (proc_at st i)))"

definition proc_pid_active :: "u32 \<Rightarrow> sched \<Rightarrow> bool" where
  "proc_pid_active n st = (case find_pid n st of None \<Rightarrow> False
     | Some i \<Rightarrow> if dead (proc_at st i) then False else True)"

definition proc_index_of :: "nat option \<Rightarrow> sched \<Rightarrow> int" where
  "proc_index_of p st = (case p of None \<Rightarrow> - 1 | Some i \<Rightarrow> if i < MAX_PROCS then int i else - 1)"

subsection \<open>Ending a process\<close>

definition proc_wake_vfork_parent :: "nat \<Rightarrow> sched \<Rightarrow> sched" where
  "proc_wake_vfork_parent child st =
     (if vfork_parent_pid (proc_at st child) = 0 then st
      else
        let parent_pid = vfork_parent_pid (proc_at st child);
            st = set_proc child (\<lambda>p. p\<lparr>vfork_parent_pid := 0\<rparr>) st
        in case first_index (\<lambda>p. pid p = parent_pid) (proc_table st) of
             None \<Rightarrow> st
           | Some i \<Rightarrow>
               if state (proc_at st i) = PROC_BLOCKED
               then set_proc i (\<lambda>p. p\<lparr>state := PROC_READY\<rparr>) st else st)"

definition proc_exit :: "u32 \<Rightarrow> sched \<Rightarrow> sched" where
  "proc_exit code st = (case current_proc st of None \<Rightarrow> st
     | Some c \<Rightarrow>
         let st = (if foreground_pid st = pid (proc_at st c) then st\<lparr>foreground_pid := 0\<rparr> else st);
             st = set_proc c (\<lambda>p. p\<lparr>exit_code := code\<rparr>) st;
             st = set_proc c (\<lambda>p. p\<lparr>state := PROC_EXITED\<rparr>) st;
             st = proc_wake_vfork_parent c st;
             st = (if proc_reaper_enabled st then st\<lparr>proc_reap_pending := True\<rparr> else st)
         in st\<lparr>current_proc := None, current_index := - 1\<rparr>)"

datatype proc_kill_result = PROC_KILL_OK | PROC_KILL_INVALID | PROC_KILL_NO_SUCH | PROC_KILL_KERNEL
  | PROC_KILL_ALREADY_EXITED

definition bin_return_to_shell :: "sched \<Rightarrow> sched" where
  "bin_return_to_shell st = st\<lparr>shell := (shell st)\<lparr>keyboard_input_enabled := True, enable_shell := True,
     prompt_enabled := True, shell_suspended := False,
     sysmgr_prompt_pending := True, sysmgr_prompt_force := True\<rparr>\<rparr>"

definition proc_kill :: "u32 \<Rightarrow> bool \<Rightarrow> sched \<Rightarrow> proc_kill_result \<times> sched" where
  "proc_kill n force st =
     (if n = 0 then (PROC_KILL_INVALID, st)
      else if current_proc st \<noteq> None \<and> pid (proc_at st (the (current_proc st))) = n then
        (if is_kernel (proc_at st (the (current_proc st))) \<and> \<not> force then (PROC_KILL_KERNEL, st)
         else (PROC_KILL_OK, st\<lparr>kill_requested_pid := n\<rparr>))
      else
        (case first_index (\<lambda>p. state p \<noteq> PROC_UNUSED \<and> pid p = n) (proc_table st) of
           None \<Rightarrow> (PROC_KILL_NO_SUCH, st)
         | Some i \<Rightarrow>
             if state (proc_at st i) = PROC_EXITED then (PROC_KILL_ALREADY_EXITED, st)
             else if is_kernel (proc_at st i) \<and> \<not> force then (PROC_KILL_KERNEL, st)
             else
               let was_foreground = proc_is_foreground_pid n st;
                   st = set_proc i (\<lambda>p. p\<lparr>exit_code := 0\<rparr>) st;
                   st = set_proc i (\<lambda>p. p\<lparr>state := PROC_EXITED\<rparr>) st;
                   st = proc_wake_vfork_parent i st;
                   st = (if was_foreground then bin_return_to_shell (st\<lparr>foreground_pid := 0\<rparr>) else st);
                   st = (if proc_reaper_enabled st then st\<lparr>proc_reap_pending := True\<rparr> else st)
               in (PROC_KILL_OK, st)))"

definition reap_one :: "u32 \<Rightarrow> nat \<Rightarrow> sched \<Rightarrow> sched" where
  "reap_one esp i st =
     (let p = proc_at st i in
      if state p \<noteq> PROC_EXITED then st
      else if current_proc st = Some i then st
      else if proc_stack_in_use p esp then st
      else
        let st = (if pid p \<noteq> 0 \<and> pid p = proc_reaper_pid st then st\<lparr>proc_reaper_pid := 0\<rparr> else st);
            st = (if pid p \<noteq> 0 \<and> pid p = proc_watchdog_pid st then st\<lparr>proc_watchdog_pid := 0\<rparr> else st)
        in proc_cleanup i st)"

definition proc_reap :: "sched \<Rightarrow> sched" where
  "proc_reap st = fold (reap_one (proc_get_current_esp st)) [0..<MAX_PROCS] st"

definition proc_reap_background :: "sched \<Rightarrow> sched" where
  "proc_reap_background st =
     (if proc_reaper_enabled st \<and> \<not> proc_reap_pending st then st
      else (proc_reap st)\<lparr>proc_reap_pending := False\<rparr>)"

definition proc_reap_is_pending :: "sched \<Rightarrow> bool" where
  "proc_reap_is_pending st = proc_reap_pending st"

subsection \<open>Choosing the next process\<close>

definition proc_is_runnable :: "process \<Rightarrow> bool" where
  "proc_is_runnable p \<longleftrightarrow> state p = PROC_READY \<or> state p = PROC_RUNNING"

definition proc_has_runnable :: "sched \<Rightarrow> bool" where
  "proc_has_runnable st =
     (first_index (\<lambda>p. proc_is_runnable p \<and> context_esp p \<noteq> 0 \<and> \<not> is_kernel p) (proc_table st) \<noteq> None)"

fun find_next_from :: "process list \<Rightarrow> int \<Rightarrow> nat \<Rightarrow> int" where
  "find_next_from ps idx 0 = - 1"
| "find_next_from ps idx (Suc n) =
     (let idx = idx + 1;
          idx = (if idx \<ge> int MAX_PROCS then 0 else idx)
      in if proc_is_runnable (ps ! nat idx) \<and> context_esp (ps ! nat idx) \<noteq> 0 then idx
         else find_next_from ps idx n)"

definition proc_find_next :: "int \<Rightarrow> sched \<Rightarrow> int" where
  "proc_find_next start st = find_next_from (proc_table st) start MAX_PROCS"

text \<open>The running process, if it is still running, goes back to the ready ones.\<close>

definition unrun_current :: "sched \<Rightarrow> sched" where
  "unrun_current st = (case current_proc st of None \<Rightarrow> st
     | Some c \<Rightarrow> if state (proc_at st c) = PROC_RUNNING
                then set_proc c (\<lambda>p. p\<lparr>state := PROC_READY\<rparr>) st else st)"

definition proc_take_next :: "sched \<Rightarrow> nat option \<times> sched" where
  "proc_take_next st =
     (let next = proc_find_next (current_index st) st in
      if next < 0 then (None, st)
      else
        let st = unrun_current st;
            st = st\<lparr>current_index := next, current_proc := Some (nat next)\<rparr>;
            st = set_proc (nat next) (\<lambda>p. p\<lparr>state := PROC_RUNNING\<rparr>) st
        in (Some (nat next), st))"

text \<open>The processor is set up for the process: its kernel stack and its address space.\<close>

definition load_process :: "nat \<Rightarrow> sched \<Rightarrow> sched option" where
  "load_process i st =
     (let p = proc_at st i;
          st = tss_set_kernel_stack (kstack_base p + kstack_size p) st
      in if page_dir p \<noteq> 0
         then proc_log_user_map i (st\<lparr>mmu := paging_set_current_dir (page_dir p) (page_dir_phys p) (mmu st)\<rparr>)
         else Some st)"

definition proc_schedule :: "u32 \<Rightarrow> bool \<Rightarrow> sched \<Rightarrow> (bool \<times> sched) option" where
  "proc_schedule regs save_current st =
     (let st = (if \<not> proc_reaper_enabled st then proc_reap st else st);
          next = proc_find_next (current_index st) st
      in if next < 0 then Some (False, st)
         else if next = current_index st \<and> current_proc st \<noteq> None then Some (False, st)
         else
           let st = (case current_proc st of None \<Rightarrow> st
                     | Some c \<Rightarrow> if save_current then set_proc c (\<lambda>p. p\<lparr>context_esp := regs\<rparr>) st else st);
               st = unrun_current st;
               st = st\<lparr>current_index := next, current_proc := Some (nat next)\<rparr>;
               st = set_proc (nat next) (\<lambda>p. p\<lparr>state := PROC_RUNNING\<rparr>) st
           in do {
             st \<leftarrow> load_process (nat next) st;
             Some (True, st\<lparr>sched_next_esp := context_esp (proc_at st (nat next))\<rparr>) })"

definition proc_make_current :: "nat \<Rightarrow> u32 \<Rightarrow> sched \<Rightarrow> (bool \<times> sched) option" where
  "proc_make_current p regs st =
     (if current_proc st = Some p then
        (let st = (if state (proc_at st p) \<noteq> PROC_RUNNING
                   then set_proc p (\<lambda>q. q\<lparr>state := PROC_RUNNING\<rparr>) st else st);
             idx = proc_index_of (Some p) st;
             st = (if idx \<ge> 0 then st\<lparr>current_index := idx\<rparr> else st)
         in do { st \<leftarrow> load_process p st; Some (True, st) })
      else if current_proc st \<noteq> None \<and> regs = 0 \<and> context_esp (proc_at st (the (current_proc st))) = 0
      then Some (False, st)
      else
        (let st = (case current_proc st of None \<Rightarrow> st
                   | Some c \<Rightarrow> if regs \<noteq> 0 then set_proc c (\<lambda>q. q\<lparr>context_esp := regs\<rparr>) st else st);
             st = unrun_current st;
             idx = proc_index_of (Some p) st
         in if idx < 0 then Some (False, st)
            else
              let st = st\<lparr>current_index := idx, current_proc := Some p\<rparr>;
                  st = set_proc p (\<lambda>q. q\<lparr>state := PROC_RUNNING\<rparr>) st
              in do { st \<leftarrow> load_process p st; Some (True, st) }))"

record proc_info =
  info_pid :: u32
  info_state :: proc_state
  info_name :: bytes

definition list_one :: "int \<Rightarrow> sched \<Rightarrow> nat \<Rightarrow> int \<times> proc_info list \<Rightarrow> (int \<times> proc_info list) option" where
  "list_one max_count st i s = (case s of (count, out) \<Rightarrow>
     let p = proc_at st i in
     if count \<ge> max_count then Some (count, out)
     else if dead p then Some (count, out)
     else do {
       o1 \<leftarrow> arr_get out (nat count);
       c0 \<leftarrow> arr_get (pname p) 0;
       nm \<leftarrow> strncpy (info_name o1) (if c0 \<noteq> 0 then pname p else map of_char ''unnamed'' @ [0]) (int PROC_NAME_MAX - 1);
       nm \<leftarrow> arr_set nm (PROC_NAME_MAX - 1) 0;
       out \<leftarrow> arr_set out (nat count) \<lparr>info_pid = pid p, info_state = state p, info_name = nm\<rparr>;
       Some (count + 1, out) })"

definition proc_list :: "proc_info list \<Rightarrow> int \<Rightarrow> sched \<Rightarrow> (int \<times> proc_info list) option" where
  "proc_list out max_count st =
     (if max_count \<le> 0 then Some (0, out)
      else for_each (list_one max_count st) [0..<MAX_PROCS] (0, out))"

subsection \<open>Killing the running process\<close>

definition proc_request_kill :: "sched \<Rightarrow> sched" where
  "proc_request_kill st = (case current_proc st of None \<Rightarrow> st
     | Some c \<Rightarrow> st\<lparr>kill_requested_pid := pid (proc_at st c)\<rparr>)"

text \<open>The interrupted code is sent to \<open>bin_exit_trampoline\<close>: \<open>eip\<close>, \<open>cs\<close> and \<open>ds\<close> of the frame.\<close>

definition redirect_frame :: "u32 \<Rightarrow> u32 \<Rightarrow> sched \<Rightarrow> sched option" where
  "redirect_frame trampoline regs st = do {
     v \<leftarrow> store32 (regs + 44) trampoline (mmu st);
     v \<leftarrow> store32 (regs + 48) 0x08 v;
     v \<leftarrow> store16 regs 0x10 v;
     Some (st\<lparr>mmu := v\<rparr>) }"

definition proc_handle_kill :: "u32 \<Rightarrow> u32 \<Rightarrow> sched \<Rightarrow> (bool \<times> sched) option" where
  "proc_handle_kill trampoline regs st =
     (if kill_requested_pid st = 0 then Some (False, st)
      else case current_proc st of None \<Rightarrow> Some (False, st)
      | Some c \<Rightarrow>
          if pid (proc_at st c) \<noteq> kill_requested_pid st then Some (False, st)
          else
            let foreground = proc_is_foreground_pid (pid (proc_at st c)) st;
                st = st\<lparr>kill_requested_pid := 0\<rparr>;
                st = proc_exit 0 st
            in if foreground then do { st \<leftarrow> redirect_frame trampoline regs st; Some (True, st) }
               else do {
                 (ok, st) \<leftarrow> proc_schedule regs False st;
                 if \<not> ok then do { st \<leftarrow> redirect_frame trampoline regs st; Some (True, st) }
                 else Some (True, st) })"

end
