(* ===== verification/Proc_Create.thy ===== *)
theory Proc_Create
  imports Proc
begin

text \<open>
  Creating processes, \<^verbatim>\<open>kernel/proc/proc.c\<close>: the stacks and the first register frame of a new
  process, \<open>proc_create\<close> and its variants, \<open>proc_fork\<close>, \<open>proc_exec\<close> and the two kernel threads that
  look after exited processes.

  The argument vector is a list of optional strings, \<^const>\<open>None\<close> for a null pointer.  The temporary
  array of \<open>setup_user_stack\<close> is allocated and freed on the heap as in the code; its contents are a list.
\<close>

section \<open>Model\<close>

type_synonym argv = "bytes option list option"

text \<open>\<open>kmalloc(size, align, NULL)\<close> on the kernel's heap and address space.\<close>

definition sched_kmalloc :: "u32 \<Rightarrow> int \<Rightarrow> sched \<Rightarrow> (u32 \<times> sched) option" where
  "sched_kmalloc sz align st = do {
     (res, _, h, k) \<leftarrow> kmalloc heap_map (\<lambda>_ _. None) sz align (heap st) (Some (mmu st));
     v \<leftarrow> k;
     Some (res, st\<lparr>heap := h, mmu := v\<rparr>) }"

definition on_mmu :: "(vm \<Rightarrow> vm option) \<Rightarrow> sched \<Rightarrow> sched option" where
  "on_mmu f st = do { v \<leftarrow> f (mmu st); Some (st\<lparr>mmu := v\<rparr>) }"

definition set_dir :: "u32 \<Rightarrow> u32 \<Rightarrow> sched \<Rightarrow> sched" where
  "set_dir dir phys st = st\<lparr>mmu := paging_set_current_dir dir phys (mmu st)\<rparr>"

subsection \<open>The stack of a new process\<close>

definition user_exit_stub :: bytes where
  "user_exit_stub = [0xB8, 0x08, 0x00, 0x00, 0x00, 0x31, 0xDB, 0xCD, 0xA5, 0xEB, 0xFE]"

definition proc_stack_ptr :: "process \<Rightarrow> u32 \<Rightarrow> u32" where
  "proc_stack_ptr p user_addr =
     (if user_addr < stack_base p then 0 else stack_kern_base p + (user_addr - stack_base p))"

text \<open>The strings, from the last argument to the first; the inner \<^const>\<open>None\<close> is a stack that is too small.\<close>

fun push_args ::
  "process \<Rightarrow> bytes option list \<Rightarrow> nat \<Rightarrow> u32 \<Rightarrow> u32 list \<Rightarrow> sched \<Rightarrow> ((u32 \<times> u32 list) option \<times> sched) option" where
  "push_args p argv 0 sp ptrs st = Some (Some (sp, ptrs), st)"
| "push_args p argv (Suc i) sp ptrs st = do {
     a \<leftarrow> arr_get argv i;
     let s = (case a of None \<Rightarrow> [0] | Some s \<Rightarrow> s);
     n \<leftarrow> strlen s;
     let len = of_nat (n + 1);
     if sp < stack_base p + len then Some (None, st)
     else
       (let sp = sp - len;
            dst = proc_stack_ptr p sp
        in if dst = 0 then Some (None, st)
           else do {
             st \<leftarrow> on_mmu (store_bytes dst (take (n + 1) s)) st;
             ptrs \<leftarrow> arr_set ptrs i sp;
             push_args p argv i sp ptrs st }) }"

definition free_args :: "u32 \<Rightarrow> sched \<Rightarrow> sched" where
  "free_args arg_addrs st = (if arg_addrs \<noteq> 0 then sched_kfree arg_addrs st else st)"

text \<open>The pointers to the strings, the terminating null pointer, and \<open>argc\<close> and \<open>argv\<close> below them.\<close>

definition push_argv :: "process \<Rightarrow> nat \<Rightarrow> u32 \<Rightarrow> u32 list \<Rightarrow> sched \<Rightarrow> (u32 \<times> sched) option" where
  "push_argv p argc sp ptrs st =
     (let sp = sp AND NOT 3;
          argv_bytes = of_nat (argc + 1) * 4
      in if sp < stack_base p + argv_bytes then Some (0, st)
         else
           let sp = sp - argv_bytes;
               argv_out = proc_stack_ptr p sp
           in if argv_out = 0 then Some (0, st)
              else do {
                st \<leftarrow> for_each (\<lambda>i. on_mmu (store32 (argv_out + 4 * of_nat i) (ptrs ! i))) [0..<argc] st;
                st \<leftarrow> on_mmu (store32 (argv_out + 4 * of_nat argc) 0) st;
                if sp < stack_base p + 8 then Some (0, st)
                else
                  (let sp = sp - 8;
                       header = proc_stack_ptr p sp
                   in if header = 0 then Some (0, st)
                      else do {
                        st \<leftarrow> on_mmu (store32 header (of_nat argc)) st;
                        st \<leftarrow> on_mmu (store32 (header + 4) argv_out) st;
                        Some (sp, st) }) })"

definition setup_user_stack :: "nat \<Rightarrow> argv \<Rightarrow> int \<Rightarrow> sched \<Rightarrow> (u32 \<times> sched) option" where
  "setup_user_stack i argv argc st =
     (let p = proc_at st i;
          stack_top = stack_base p + stack_size p;
          stub_addr = (stack_top - 16) AND NOT 0xF;
          stub_ptr = proc_stack_ptr p stub_addr
      in if stub_ptr = 0 then Some (0, st)
         else do {
           st \<leftarrow> on_mmu (store_bytes stub_ptr user_exit_stub) st;
           let args = (if argv = None \<or> argc < 0 then [] else the argv);
           let argc = (if argv = None \<or> argc < 0 then 0 else nat argc);
           (arg_addrs, st) \<leftarrow> (if 0 < argc then sched_kmalloc (4 * of_nat argc) 0 st else Some (0, st));
           if 0 < argc \<and> arg_addrs = 0 then Some (0, st)
           else do {
             (r, st) \<leftarrow> push_args p args argc stub_addr (replicate argc 0) st;
             (sp, st) \<leftarrow> (case r of None \<Rightarrow> Some (0, st) | Some (sp, ptrs) \<Rightarrow> push_argv p argc sp ptrs st);
             Some (sp, free_args arg_addrs st) } })"

subsection \<open>The first register frame\<close>

definition build_frame_at :: "u32 \<Rightarrow> u32 \<Rightarrow> u32 \<Rightarrow> u32 \<Rightarrow> u32 \<Rightarrow> sched \<Rightarrow> sched option" where
  "build_frame_at fr ds eip cs esp st = do {
     st \<leftarrow> on_mmu (store16 fr ds) st;
     st \<leftarrow> on_mmu (store32 (fr + 44) eip) st;
     st \<leftarrow> on_mmu (store32 (fr + 48) cs) st;
     st \<leftarrow> on_mmu (store32 (fr + 52) 0x202) st;
     st \<leftarrow> on_mmu (store32 (fr + 56) esp) st;
     on_mmu (store32 (fr + 60) ds) st }"

definition build_initial_frame :: "nat \<Rightarrow> u32 \<Rightarrow> argv \<Rightarrow> int \<Rightarrow> sched \<Rightarrow> (bool \<times> sched) option" where
  "build_initial_frame i ent argv argc st =
     (let fr = kstack_base (proc_at st i) + kstack_size (proc_at st i) - 64
      in do {
        st \<leftarrow> on_mmu (clear_bytes fr 64) st;
        (user_esp, st) \<leftarrow> setup_user_stack i argv argc st;
        if user_esp = 0 then Some (False, st)
        else do {
          st \<leftarrow> build_frame_at fr 0x23 ent 0x1B user_esp st;
          Some (True, set_proc i (\<lambda>p. p\<lparr>context_esp := fr\<rparr>) st) } })"

definition build_kernel_frame :: "nat \<Rightarrow> u32 \<Rightarrow> sched \<Rightarrow> (bool \<times> sched) option" where
  "build_kernel_frame i ent st =
     (let kstack_top = kstack_base (proc_at st i) + kstack_size (proc_at st i);
          fr = kstack_top - 64
      in do {
        st \<leftarrow> on_mmu (clear_bytes fr 64) st;
        st \<leftarrow> build_frame_at fr 0x10 ent 0x08 kstack_top st;
        Some (True, set_proc i (\<lambda>p. p\<lparr>context_esp := fr\<rparr>) st) })"

text \<open>Pages of kernel memory made visible to the process: the loop over their offsets.\<close>

definition map_user_pages :: "u32 \<Rightarrow> u32 \<Rightarrow> u32 \<Rightarrow> sched \<Rightarrow> (bool \<times> sched) option" where
  "map_user_pages user_base kern_base sz st = do {
     (r, st) \<leftarrow> page_loop (\<lambda>offset st. do {
       r \<leftarrow> vmm_virt_to_phys True (kern_base + offset) (mmu st);
       case r of
         None \<Rightarrow> Some (- 1, st)
       | Some phys \<Rightarrow> do {
           (_, v) \<leftarrow> vmm_map_page (user_base + offset) phys 7 (mmu st);
           Some (0, st\<lparr>mmu := v\<rparr>) } }) 0 sz st;
     Some (r = 0, st) }"

definition proc_map_user_stack :: "nat \<Rightarrow> sched \<Rightarrow> (bool \<times> sched) option" where
  "proc_map_user_stack i st =
     (let p = proc_at st i in
      if stack_base p = 0 \<or> stack_kern_base p = 0 \<or> stack_size p = 0 then Some (False, st)
      else map_user_pages (stack_base p) (stack_kern_base p) (stack_size p) st)"

definition proc_init_user_stack :: "nat \<Rightarrow> sched \<Rightarrow> (bool \<times> sched) option" where
  "proc_init_user_stack i st = do {
     let st = set_proc i (\<lambda>p. p\<lparr>stack_base := 0xBFF00000 - stack_size p\<rparr>) st;
     (a, st) \<leftarrow> sched_kmalloc (stack_size (proc_at st i)) 4096 st;
     let st = set_proc i (\<lambda>p. p\<lparr>stack_kern_base := a\<rparr>) st;
     if a = 0 then Some (False, st)
     else do {
       st \<leftarrow> on_mmu (clear_bytes a (unat (stack_size (proc_at st i)))) st;
       (ok, st) \<leftarrow> proc_map_user_stack i st;
       if \<not> ok then Some (False, set_proc i (\<lambda>p. p\<lparr>stack_kern_base := 0\<rparr>) (sched_kfree a st))
       else Some (True, st) } }"

definition copy_name :: "nat \<Rightarrow> bytes \<Rightarrow> sched \<Rightarrow> sched option" where
  "copy_name i name st = do {
     nm \<leftarrow> strncpy (pname (proc_at st i)) name (int PROC_NAME_MAX - 1);
     nm \<leftarrow> arr_set nm (PROC_NAME_MAX - 1) 0;
     Some (set_proc i (\<lambda>p. p\<lparr>pname := nm\<rparr>) st) }"

subsection \<open>Creating a process\<close>

text \<open>The free slot is cleaned and gets the next process number.\<close>

definition claim_slot :: "nat \<Rightarrow> bool \<Rightarrow> u32 \<Rightarrow> sched \<Rightarrow> sched" where
  "claim_slot i kern ent st =
     (let st = proc_cleanup i st;
          st = set_proc i (\<lambda>p. p\<lparr>is_kernel := kern, pid := next_pid st\<rparr>) st;
          st = st\<lparr>next_pid := next_pid st + 1\<rparr>
      in set_proc i (\<lambda>p. p\<lparr>entry := ent, image_load_base := 0\<rparr>) st)"

definition enter_ready :: "nat \<Rightarrow> bool \<Rightarrow> bytes option \<Rightarrow> sched \<Rightarrow> (nat option \<times> sched) option" where
  "enter_ready i make_current name st = do {
     let st = set_proc i (\<lambda>p. p\<lparr>state := PROC_READY\<rparr>) st;
     let st = (if make_current \<and> current_proc st = None
               then (set_proc i (\<lambda>p. p\<lparr>state := PROC_RUNNING\<rparr>) st)\<lparr>current_proc := Some i, current_index := int i\<rparr>
               else st);
     st \<leftarrow> (case name of None \<Rightarrow> Some st | Some nm \<Rightarrow> copy_name i nm st);
     Some (Some i, st) }"

text \<open>The failure exits free what has been allocated, clear the fields and give the slot back.\<close>

definition drop_page_dir :: "nat \<Rightarrow> sched \<Rightarrow> sched" where
  "drop_page_dir i st =
     set_proc i (\<lambda>p. p\<lparr>page_dir := 0, page_dir_phys := 0, state := PROC_UNUSED\<rparr>)
       (sched_kfree (page_dir (proc_at st i)) st)"

definition drop_kstack :: "nat \<Rightarrow> sched \<Rightarrow> sched" where
  "drop_kstack i st =
     drop_page_dir i (set_proc i (\<lambda>p. p\<lparr>kstack_base := 0\<rparr>) (sched_kfree (kstack_base (proc_at st i)) st))"

definition drop_stack :: "nat \<Rightarrow> sched \<Rightarrow> sched" where
  "drop_stack i st =
     drop_kstack i (set_proc i (\<lambda>p. p\<lparr>stack_base := 0, stack_kern_base := 0\<rparr>)
       (sched_kfree (stack_kern_base (proc_at st i)) st))"

definition proc_create_common ::
  "bytes option \<Rightarrow> u32 \<Rightarrow> argv \<Rightarrow> int \<Rightarrow> bool \<Rightarrow> bool \<Rightarrow> sched \<Rightarrow> (nat option \<times> sched) option" where
  "proc_create_common name ent argv argc make_current build_frame st =
     (case first_index dead (proc_table st) of
        None \<Rightarrow> Some (None, st)
      | Some i \<Rightarrow> do {
          let st = claim_slot i False ent st;
          (dir, phys, h, v) \<leftarrow> paging_create_user_dir (heap st, mmu st);
          let st = st\<lparr>heap := h, mmu := v\<rparr>;
          let st = set_proc i (\<lambda>p. p\<lparr>page_dir := dir, page_dir_phys := (if dir \<noteq> 0 then phys else page_dir_phys p)\<rparr>) st;
          if dir = 0 then Some (None, set_proc i (\<lambda>p. p\<lparr>state := PROC_UNUSED\<rparr>) st)
          else do {
            let st = set_proc i (\<lambda>p. p\<lparr>kstack_size := 65536\<rparr>) st;
            (ks, st) \<leftarrow> sched_kmalloc 65536 1 st;
            let st = set_proc i (\<lambda>p. p\<lparr>kstack_base := ks\<rparr>) st;
            if ks = 0 then Some (None, drop_page_dir i st)
            else do {
              let st = set_proc i (\<lambda>p. p\<lparr>stack_size := 16384, stack_base := 0, stack_kern_base := 0\<rparr>) st;
              let (irq_flags, st) = proc_irq_save st;
              let prev_dir = paging_current_dir (mmu st);
              let prev_phys = paging_current_dir_phys (mmu st);
              let st = set_dir (page_dir (proc_at st i)) (page_dir_phys (proc_at st i)) st;
              (ok, st) \<leftarrow> proc_init_user_stack i st;
              if \<not> ok then Some (None, drop_kstack i (proc_irq_restore irq_flags (set_dir prev_dir prev_phys st)))
              else do {
                (ok, st) \<leftarrow> (if build_frame then build_initial_frame i ent argv argc st
                            else Some (True, set_proc i (\<lambda>p. p\<lparr>context_esp := 0\<rparr>) st));
                let st = proc_irq_restore irq_flags (set_dir prev_dir prev_phys st);
                if \<not> ok then Some (None, drop_stack i st)
                else enter_ready i make_current name st } } } })"

definition proc_create_kernel_common ::
  "bytes option \<Rightarrow> u32 \<Rightarrow> bool \<Rightarrow> sched \<Rightarrow> (nat option \<times> sched) option" where
  "proc_create_kernel_common name ent make_current st =
     (case first_index dead (proc_table st) of
        None \<Rightarrow> Some (None, st)
      | Some i \<Rightarrow> do {
          let st = claim_slot i True ent st;
          let st = set_proc i (\<lambda>p. p\<lparr>page_dir := paging_kernel_dir (mmu st),
                     page_dir_phys := paging_kernel_dir_phys (mmu st), kstack_size := 65536\<rparr>) st;
          (ks, st) \<leftarrow> sched_kmalloc 65536 1 st;
          let st = set_proc i (\<lambda>p. p\<lparr>kstack_base := ks\<rparr>) st;
          if ks = 0 then Some (None, set_proc i (\<lambda>p. p\<lparr>state := PROC_UNUSED\<rparr>) st)
          else do {
            let st = set_proc i (\<lambda>p. p\<lparr>stack_base := 0, stack_size := 0, stack_kern_base := 0\<rparr>) st;
            (ok, st) \<leftarrow> build_kernel_frame i ent st;
            if \<not> ok then Some (None, set_proc i (\<lambda>p. p\<lparr>kstack_base := 0, state := PROC_UNUSED\<rparr>) (sched_kfree ks st))
            else enter_ready i make_current name st } })"

definition proc_create :: "bytes option \<Rightarrow> u32 \<Rightarrow> sched \<Rightarrow> (nat option \<times> sched) option" where
  "proc_create name ent st = proc_create_common name ent None 0 True True st"

definition proc_create_with_args :: "bytes option \<Rightarrow> u32 \<Rightarrow> argv \<Rightarrow> int \<Rightarrow> sched \<Rightarrow> (nat option \<times> sched) option" where
  "proc_create_with_args name ent argv argc st = proc_create_common name ent argv argc True True st"

definition proc_spawn :: "bytes option \<Rightarrow> u32 \<Rightarrow> sched \<Rightarrow> (nat option \<times> sched) option" where
  "proc_spawn name ent st = proc_create_common name ent None 0 False True st"

definition proc_spawn_with_args :: "bytes option \<Rightarrow> u32 \<Rightarrow> argv \<Rightarrow> int \<Rightarrow> sched \<Rightarrow> (nat option \<times> sched) option" where
  "proc_spawn_with_args name ent argv argc st = proc_create_common name ent argv argc False True st"

definition proc_spawn_kernel :: "bytes option \<Rightarrow> u32 \<Rightarrow> sched \<Rightarrow> (nat option \<times> sched) option" where
  "proc_spawn_kernel name ent st = proc_create_kernel_common name ent False st"

definition proc_create_pending :: "bytes option \<Rightarrow> bool \<Rightarrow> sched \<Rightarrow> (nat option \<times> sched) option" where
  "proc_create_pending name make_current st = proc_create_common name 0 None 0 make_current False st"

definition proc_build_user_frame :: "nat \<Rightarrow> u32 \<Rightarrow> argv \<Rightarrow> int \<Rightarrow> sched \<Rightarrow> (bool \<times> sched) option" where
  "proc_build_user_frame i ent argv argc st =
     (if is_kernel (proc_at st i) then Some (False, st)
      else build_initial_frame i ent argv argc (set_proc i (\<lambda>p. p\<lparr>entry := ent\<rparr>) st))"

subsection \<open>Fork and exec\<close>

text \<open>The chain of saved frame pointers on the copied stack, at most one step per word of the stack.\<close>

fun fixup_frames :: "u32 \<Rightarrow> u32 \<Rightarrow> u32 \<Rightarrow> u32 \<Rightarrow> u32 \<Rightarrow> nat \<Rightarrow> sched \<Rightarrow> sched option" where
  "fixup_frames child_base child_end parent_base parent_end ebp 0 st = Some st"
| "fixup_frames child_base child_end parent_base parent_end ebp (Suc n) st =
     (if ebp < child_base \<or> child_end < ebp + 4 then Some st
      else do {
        saved \<leftarrow> load32 (mmu st) ebp;
        if saved < parent_base \<or> parent_end \<le> saved then Some st
        else
          (let new_saved = word_of_int (uint saved + (uint child_base - uint parent_base))
           in if new_saved < child_base \<or> child_end \<le> new_saved then Some st
              else do {
                st \<leftarrow> on_mmu (store32 ebp new_saved) st;
                if new_saved \<le> ebp then Some st
                else fixup_frames child_base child_end parent_base parent_end new_saved n st }) })"

definition fixup_forked_stack_frames :: "u32 \<Rightarrow> u32 \<Rightarrow> u32 \<Rightarrow> u32 \<Rightarrow> sched \<Rightarrow> sched option" where
  "fixup_forked_stack_frames child_base parent_base sz child_ebp st =
     (if sz = 0 \<or> child_ebp = 0 then Some st
      else
        let child_end = child_base + sz;
            parent_end = parent_base + sz
        in if child_end < child_base \<or> parent_end < parent_base then Some st
           else if child_ebp < child_base \<or> child_end \<le> child_ebp then Some st
           else fixup_frames child_base child_end parent_base parent_end child_ebp (unat (sz div 4)) st)"

text \<open>The image of the child: a copy in kernel memory, mapped at the address of the parent's.\<close>

definition fork_image :: "nat \<Rightarrow> nat \<Rightarrow> sched \<Rightarrow> (bool \<times> sched) option" where
  "fork_image c i st =
     (if image_size (proc_at st i) \<noteq> 0 \<and> image_load_base (proc_at st i) \<noteq> 0 \<and> image_base (proc_at st c) \<noteq> 0
      then do {
        (a, st) \<leftarrow> sched_kmalloc (image_size (proc_at st i)) 1 st;
        let st = set_proc i (\<lambda>p. p\<lparr>image_base := a\<rparr>) st;
        if a = 0 then Some (False, drop_kstack i st)
        else do {
          st \<leftarrow> on_mmu (copy_bytes a (image_base (proc_at st c)) (unat (image_size (proc_at st i)))) st;
          Some (True, st) } }
      else Some (True, st))"

definition drop_image :: "nat \<Rightarrow> sched \<Rightarrow> sched" where
  "drop_image i st =
     drop_kstack i (set_proc i (\<lambda>p. p\<lparr>image_base := 0\<rparr>) (sched_kfree (image_base (proc_at st i)) st))"

text \<open>The part of \<open>proc_fork\<close> that gives the child its own image and stack.\<close>

definition fork_stack :: "nat \<Rightarrow> nat \<Rightarrow> u32 \<Rightarrow> u32 \<Rightarrow> sched \<Rightarrow> (bool \<times> sched) option" where
  "fork_stack c i fr regs st = do {
     let st = set_proc i (\<lambda>p. p\<lparr>stack_size := stack_size (proc_at st c), stack_base := 0, stack_kern_base := 0\<rparr>) st;
     (ok, st) \<leftarrow> fork_image c i st;
     if \<not> ok then Some (False, st)
     else do {
       let (irq_flags, st) = proc_irq_save st;
       let prev_dir = paging_current_dir (mmu st);
       let prev_phys = paging_current_dir_phys (mmu st);
       let st = set_dir (page_dir (proc_at st i)) (page_dir_phys (proc_at st i)) st;
       let p = proc_at st i;
       (ok, st) \<leftarrow> (if image_base p \<noteq> 0 \<and> image_size p \<noteq> 0 \<and> image_load_base p \<noteq> 0
                   then map_user_pages (image_load_base p) (image_base p) (image_size p) st else Some (True, st));
       if \<not> ok then Some (False, drop_image i (proc_irq_restore irq_flags (set_dir prev_dir prev_phys st)))
       else do {
         (ok, st) \<leftarrow> proc_init_user_stack i st;
         let st = proc_irq_restore irq_flags (set_dir prev_dir prev_phys st);
         if \<not> ok then Some (False, drop_image i st)
         else do {
           st \<leftarrow> on_mmu (copy_bytes (stack_kern_base (proc_at st i)) (stack_kern_base (proc_at st c))
                  (unat (stack_size (proc_at st i)))) st;
           let parent_stack_base = stack_base (proc_at st c);
           let parent_stack_end = parent_stack_base + stack_size (proc_at st c);
           resp \<leftarrow> load32 (mmu st) (regs + 56);
           st \<leftarrow> (if parent_stack_base \<le> parent_stack_end \<and> parent_stack_base \<le> resp \<and> resp \<le> parent_stack_end
                 then on_mmu (store32 (fr + 56) (stack_base (proc_at st i) + (resp - parent_stack_base))) st
                 else Some st);
           rebp \<leftarrow> load32 (mmu st) (regs + 12);
           st \<leftarrow> (if parent_stack_base \<le> parent_stack_end \<and> parent_stack_base \<le> rebp \<and> rebp < parent_stack_end
                 then do {
                   let ebp = stack_base (proc_at st i) + (rebp - parent_stack_base);
                   st \<leftarrow> on_mmu (store32 (fr + 12) ebp) st;
                   fixup_forked_stack_frames (stack_base (proc_at st i)) parent_stack_base
                     (stack_size (proc_at st i)) ebp st }
                 else Some st);
           Some (True, st) } } } }"

definition proc_fork :: "u32 \<Rightarrow> sched \<Rightarrow> (nat option \<times> sched) option" where
  "proc_fork regs st = (case current_proc st of None \<Rightarrow> Some (None, st)
     | Some c \<Rightarrow>
         if regs = 0 \<or> is_kernel (proc_at st c) then Some (None, st)
         else (case first_index dead (proc_table st) of None \<Rightarrow> Some (None, st)
         | Some i \<Rightarrow> do {
             let st = claim_slot i False 0 st;
             let st = set_proc i (\<lambda>p. p\<lparr>entry := entry (proc_at st c), image_base := 0, image_size := image_size (proc_at st c),
                        image_load_base := image_load_base (proc_at st c)\<rparr>) st;
             (dir, phys, h, v) \<leftarrow> paging_create_user_dir (heap st, mmu st);
             let st = st\<lparr>heap := h, mmu := v\<rparr>;
             let st = set_proc i (\<lambda>p. p\<lparr>page_dir := dir, page_dir_phys := (if dir \<noteq> 0 then phys else page_dir_phys p)\<rparr>) st;
             if dir = 0 then Some (None, set_proc i (\<lambda>p. p\<lparr>state := PROC_UNUSED\<rparr>) st)
             else do {
               let st = set_proc i (\<lambda>p. p\<lparr>vfork_parent_pid := pid (proc_at st c), kstack_size := 65536\<rparr>) st;
               (ks, st) \<leftarrow> sched_kmalloc 65536 1 st;
               let st = set_proc i (\<lambda>p. p\<lparr>kstack_base := ks\<rparr>) st;
               if ks = 0 then Some (None, set_proc i (\<lambda>p. p\<lparr>state := PROC_UNUSED\<rparr>) st)
               else do {
                 let fr = ks + 65536 - 64;
                 st \<leftarrow> on_mmu (copy_bytes fr regs 64) st;
                 st \<leftarrow> on_mmu (store32 (fr + 32) 0) st;
                 let st = set_proc i (\<lambda>p. p\<lparr>stack_base := 0, stack_size := 0\<rparr>) st;
                 (ok, st) \<leftarrow> (if stack_base (proc_at st c) \<noteq> 0 \<and> stack_size (proc_at st c) \<noteq> 0
                             then fork_stack c i fr regs st else Some (True, st));
                 if \<not> ok then Some (None, st)
                 else do {
                   let st = set_proc i (\<lambda>p. p\<lparr>context_esp := fr\<rparr>) st;
                   c0 \<leftarrow> arr_get (pname (proc_at st c)) 0;
                   st \<leftarrow> (if c0 \<noteq> 0 then copy_name i (pname (proc_at st c)) st else Some st);
                   Some (Some i, set_proc i (\<lambda>p. p\<lparr>state := PROC_READY\<rparr>) st) } } } }))"

definition proc_exec ::
  "nat \<Rightarrow> u32 \<Rightarrow> u32 \<Rightarrow> u32 \<Rightarrow> u32 \<Rightarrow> argv \<Rightarrow> int \<Rightarrow> sched \<Rightarrow> (bool \<times> sched) option" where
  "proc_exec i ent img_base img_size img_load argv argc st =
     (let old = proc_at st i in
      if is_kernel old then Some (False, st)
      else do {
        let st = set_proc i (\<lambda>p. p\<lparr>stack_size := 16384, stack_base := 0, stack_kern_base := 0\<rparr>) st;
        let (irq_flags, st) = proc_irq_save st;
        let prev_dir = paging_current_dir (mmu st);
        let prev_phys = paging_current_dir_phys (mmu st);
        let st = set_dir (page_dir (proc_at st i)) (page_dir_phys (proc_at st i)) st;
        (ok, st) \<leftarrow> proc_init_user_stack i st;
        if \<not> ok then
          Some (False, set_proc i (\<lambda>p. p\<lparr>stack_base := stack_base old, stack_size := stack_size old,
                         stack_kern_base := stack_kern_base old\<rparr>)
                 (proc_irq_restore irq_flags (set_dir prev_dir prev_phys st)))
        else do {
          let st = set_proc i (\<lambda>p. p\<lparr>entry := ent, image_base := img_base, image_size := img_size,
                     image_load_base := img_load\<rparr>) st;
          (ok, st) \<leftarrow> build_initial_frame i ent argv argc st;
          let st = proc_irq_restore irq_flags (set_dir prev_dir prev_phys st);
          if \<not> ok then
            Some (False, set_proc i (\<lambda>p. p\<lparr>stack_base := stack_base old, stack_size := stack_size old,
                           stack_kern_base := stack_kern_base old, image_base := image_base old,
                           image_size := image_size old, image_load_base := image_load_base old,
                           entry := entry old\<rparr>)
                   (sched_kfree (stack_kern_base (proc_at st i)) st))
          else
            (let st = (if stack_kern_base old \<noteq> 0 then sched_kfree (stack_kern_base old) st else st);
                 st = (if image_base old \<noteq> 0 then sched_kfree (image_base old) st else st)
             in Some (True, st)) } })"

subsection \<open>The kernel threads\<close>

text \<open>The entry points of the two threads are arguments.\<close>

definition proc_start_sysmgr_watchdog :: "u32 \<Rightarrow> sched \<Rightarrow> (bool \<times> sched) option" where
  "proc_start_sysmgr_watchdog sysmgr_watchdog_thread st =
     (if proc_pid_active (proc_watchdog_pid st) st then Some (True, st)
      else do {
        (p, st) \<leftarrow> proc_spawn_kernel (Some (map of_char ''orion-sysmon'' @ [0])) sysmgr_watchdog_thread st;
        case p of None \<Rightarrow> Some (False, st)
        | Some i \<Rightarrow> Some (True, st\<lparr>proc_watchdog_pid := pid (proc_at st i)\<rparr>) })"

definition proc_start_reaper :: "u32 \<Rightarrow> u32 \<Rightarrow> sched \<Rightarrow> (bool \<times> sched) option" where
  "proc_start_reaper sysmgr_thread sysmgr_watchdog_thread st =
     (if proc_reaper_enabled st \<and> proc_pid_active (proc_reaper_pid st) st
      then do { (_, st) \<leftarrow> proc_start_sysmgr_watchdog sysmgr_watchdog_thread st; Some (True, st) }
      else do {
        (p, st) \<leftarrow> proc_spawn_kernel (Some (map of_char ''orion-sysmgr'' @ [0])) sysmgr_thread st;
        case p of None \<Rightarrow> Some (False, st)
        | Some i \<Rightarrow> do {
            let st = st\<lparr>proc_reaper_enabled := True, proc_reaper_pid := pid (proc_at st i)\<rparr>;
            (_, st) \<leftarrow> proc_start_sysmgr_watchdog sysmgr_watchdog_thread st;
            Some (True, st) } })"

end
