(* ===== verification/Elf_Loader.thy ===== *)
theory Elf_Loader
  imports Proc_Create
begin

text \<open>
  The loader of ELF executables, \<^verbatim>\<open>kernel/elf.c\<close>, with the state of the kernel it works on.

  The file systems are a parameter: the record \<open>fscmd\<close> has one function per operation of
  \<^verbatim>\<open>fs/fscmd.h\<close> that the kernel calls, on a state of any type.  A reading operation returns the bytes
  it puts into the caller's buffer.  The copy of the file that the loader keeps in a heap block is a
  list of bytes: nothing but the reading loop writes to it.  The image is in memory.
\<close>

section \<open>Model\<close>

record 'f fscmd =
  fscmd_exists :: "bytes \<Rightarrow> 'f \<Rightarrow> bool"
  fscmd_get_file_size :: "bytes \<Rightarrow> 'f \<Rightarrow> u32"
  fscmd_read_file_partial :: "bytes \<Rightarrow> u32 \<Rightarrow> u32 \<Rightarrow> 'f \<Rightarrow> bytes option"
  fscmd_read_file :: "bytes \<Rightarrow> u32 \<Rightarrow> u32 \<Rightarrow> 'f \<Rightarrow> int \<times> bytes"
  fscmd_write_file :: "bytes \<Rightarrow> bytes \<Rightarrow> 'f \<Rightarrow> bool \<times> 'f"
  fscmd_list_dir :: "bytes option \<Rightarrow> u32 \<Rightarrow> u32 \<Rightarrow> 'f \<Rightarrow> int \<times> bytes \<times> bytes"
  kprint_bytes :: "bytes \<Rightarrow> 'f \<Rightarrow> 'f"

record 'f kern =
  ksched :: sched
  kgui :: gui
  g_next_pie_base :: u32
  kfiles :: 'f

definition on_sched :: "(sched \<Rightarrow> sched) \<Rightarrow> 'f kern \<Rightarrow> 'f kern" where
  "on_sched f k = k\<lparr>ksched := f (ksched k)\<rparr>"

definition on_vm :: "(vm \<Rightarrow> vm option) \<Rightarrow> 'f kern \<Rightarrow> 'f kern option" where
  "on_vm f k = do { s \<leftarrow> on_mmu f (ksched k); Some (k\<lparr>ksched := s\<rparr>) }"

definition with_sched :: "(sched \<Rightarrow> ('a \<times> sched) option) \<Rightarrow> 'f kern \<Rightarrow> ('a \<times> 'f kern) option" where
  "with_sched f k = do { (r, s) \<leftarrow> f (ksched k); Some (r, k\<lparr>ksched := s\<rparr>) }"

abbreviation kmem :: "'f kern \<Rightarrow> vm" where "kmem k \<equiv> mmu (ksched k)"

subsection \<open>Structures of the file\<close>

record Elf32_Ehdr =
  e_ident :: bytes
  e_type :: u16
  e_machine :: u16
  e_version :: u32
  e_entry :: u32
  e_phoff :: u32
  e_phentsize :: u16
  e_phnum :: u16

record Elf32_Phdr =
  p_type :: u32
  p_offset :: u32
  p_vaddr :: u32
  p_filesz :: u32
  p_memsz :: u32

definition u16_at :: "bytes \<Rightarrow> nat \<Rightarrow> u16 option" where
  "u16_at f i = do {
     a \<leftarrow> arr_get f i;
     b \<leftarrow> arr_get f (i + 1);
     Some (ucast a OR push_bit 8 (ucast b)) }"

definition u32_at :: "bytes \<Rightarrow> nat \<Rightarrow> u32 option" where
  "u32_at f i = do {
     a \<leftarrow> u16_at f i;
     b \<leftarrow> u16_at f (i + 2);
     Some (ucast a OR push_bit 16 (ucast b)) }"

definition read_ehdr :: "bytes \<Rightarrow> Elf32_Ehdr option" where
  "read_ehdr f = do {
     ty \<leftarrow> u16_at f 16;
     machine \<leftarrow> u16_at f 18;
     version \<leftarrow> u32_at f 20;
     ent \<leftarrow> u32_at f 24;
     phoff \<leftarrow> u32_at f 28;
     phentsize \<leftarrow> u16_at f 42;
     phnum \<leftarrow> u16_at f 44;
     Some \<lparr>e_ident = take 16 f, e_type = ty, e_machine = machine, e_version = version, e_entry = ent,
           e_phoff = phoff, e_phentsize = phentsize, e_phnum = phnum\<rparr> }"

definition read_phdr :: "bytes \<Rightarrow> nat \<Rightarrow> Elf32_Phdr option" where
  "read_phdr f i = do {
     ty \<leftarrow> u32_at f i;
     off \<leftarrow> u32_at f (i + 4);
     vaddr \<leftarrow> u32_at f (i + 8);
     filesz \<leftarrow> u32_at f (i + 16);
     memsz \<leftarrow> u32_at f (i + 20);
     Some \<lparr>p_type = ty, p_offset = off, p_vaddr = vaddr, p_filesz = filesz, p_memsz = memsz\<rparr> }"

fun read_phdrs :: "bytes \<Rightarrow> nat \<Rightarrow> nat \<Rightarrow> Elf32_Phdr list option" where
  "read_phdrs f i 0 = Some []"
| "read_phdrs f i (Suc n) = do { p \<leftarrow> read_phdr f i; ps \<leftarrow> read_phdrs f (i + 32) n; Some (p # ps) }"

subsection \<open>Checking a file\<close>

definition elf_align_up :: "u32 \<Rightarrow> u32 \<Rightarrow> u32" where
  "elf_align_up val align = (val + align - 1) AND NOT (align - 1)"

definition elf_align_down :: "u32 \<Rightarrow> u32 \<Rightarrow> u32" where
  "elf_align_down val align = val AND NOT (align - 1)"

definition choose_pie_base :: "u32 \<Rightarrow> u32 \<Rightarrow> u32 \<Rightarrow> u32 \<times> u32" where
  "choose_pie_base img_size min_base next =
     (let base = (if next < min_base then min_base else next);
          base = elf_align_up base 4096;
          e = (ucast base :: u64) + ucast img_size;
          max_end = (0xBFFFFFFF :: u64) + 1
      in if max_end < e \<or> e < ucast base then (0, next)
         else (base, elf_align_up (ucast e + 4096) 4096))"

definition elf_ident_ok :: "bytes \<Rightarrow> bool" where
  "elf_ident_ok ident \<longleftrightarrow> take 4 ident = [0x7F, 0x45, 0x4C, 0x46] \<and>
     ident ! 4 = 1 \<and> ident ! 5 = 1 \<and> ident ! 6 = 1"

definition loadable :: "Elf32_Phdr \<Rightarrow> bool" where
  "loadable ph \<longleftrightarrow> \<not> (p_type ph \<noteq> 1 \<or> p_memsz ph = 0)"

text \<open>The extent of the loadable segments; \<^const>\<open>None\<close> rejects the file.\<close>

fun elf_extent :: "u32 \<Rightarrow> Elf32_Phdr list \<Rightarrow> u32 \<Rightarrow> u32 \<Rightarrow> (u32 \<times> u32) option" where
  "elf_extent sz [] min_vaddr max_vaddr = Some (min_vaddr, max_vaddr)"
| "elf_extent sz (ph # phs) min_vaddr max_vaddr =
     (if \<not> loadable ph then elf_extent sz phs min_vaddr max_vaddr
      else if p_memsz ph < p_filesz ph then None
      else if sz < p_offset ph \<or> sz < p_offset ph + p_filesz ph then None
      else
        let seg_end = p_vaddr ph + p_memsz ph
        in if seg_end < p_vaddr ph then None
           else elf_extent sz phs (if p_vaddr ph < min_vaddr then p_vaddr ph else min_vaddr)
                  (if max_vaddr < seg_end then seg_end else max_vaddr))"

text \<open>What the header decides: the segments, whether the image can be moved, and its place.\<close>

record elf_plan =
  plan_entry :: u32
  plan_phdrs :: "Elf32_Phdr list"
  plan_pie :: bool
  plan_base :: u32
  plan_size :: u32

text \<open>The checks between reading the file and allocating the image.  \<open>Inl is_elf\<close> is a rejection.\<close>

definition elf_check :: "bytes \<Rightarrow> u32 \<Rightarrow> (bool + elf_plan) option" where
  "elf_check f sz = do {
     eh \<leftarrow> read_ehdr f;
     if \<not> elf_ident_ok (e_ident eh) then Some (Inl False)
     else if e_type eh \<noteq> 2 \<and> e_type eh \<noteq> 3 \<or> e_machine eh \<noteq> 3 \<or> e_version eh \<noteq> 1 then Some (Inl True)
     else if e_phentsize eh \<noteq> 32 \<or> e_phnum eh = 0 then Some (Inl True)
     else if sz < e_phoff eh \<or> sz < e_phoff eh + ucast (e_phnum eh) * 32 then Some (Inl True)
     else do {
       phdrs \<leftarrow> read_phdrs f (unat (e_phoff eh)) (unat (e_phnum eh));
       Some (case elf_extent sz phdrs 0xFFFFFFFF 0 of
         None \<Rightarrow> Inl True
       | Some (min_vaddr, max_vaddr) \<Rightarrow>
           if min_vaddr = 0xFFFFFFFF then Inl True
           else if e_entry eh < min_vaddr \<or> max_vaddr \<le> e_entry eh then Inl True
           else
             let base_vaddr = elf_align_down min_vaddr 4096;
                 img_size = elf_align_up (max_vaddr - base_vaddr) 4096;
                 is_pie = (e_type eh = 3)
             in if img_size = 0 then Inl True
                else if \<not> is_pie \<and> (min_vaddr < 0x08000000 \<or> 0xBFFFFFFF < max_vaddr) then Inl True
                else Inr \<lparr>plan_entry = e_entry eh, plan_phdrs = phdrs, plan_pie = is_pie,
                          plan_base = base_vaddr, plan_size = img_size\<rparr>) } }"

text \<open>The base address of the image, 0 when there is no room for it, and the next one to hand out.\<close>

definition elf_load_base :: "elf_plan \<Rightarrow> u32 \<Rightarrow> u32 \<times> u32" where
  "elf_load_base p next =
     (if plan_pie p
      then choose_pie_base (plan_size p) (if plan_base p < 0x08000000 then 0x08000000 else plan_base p) next
      else (plan_base p, next))"

subsection \<open>The image\<close>

definition elf_image_ptr :: "u32 \<Rightarrow> u32 \<Rightarrow> u32 \<Rightarrow> u32 \<Rightarrow> u32 \<Rightarrow> u32" where
  "elf_image_ptr img base_vaddr img_size vaddr sz =
     (if img = 0 then 0
      else if vaddr < base_vaddr then 0
      else
        let off = vaddr - base_vaddr
        in if img_size < off then 0
           else if img_size - off < sz then 0
           else img + off)"

text \<open>The loop that copies the segments; the Boolean is false when a segment leaves the image.\<close>

fun copy_segments :: "bytes \<Rightarrow> u32 \<Rightarrow> u32 \<Rightarrow> u32 \<Rightarrow> Elf32_Phdr list \<Rightarrow> 'f kern \<Rightarrow> (bool \<times> 'f kern) option" where
  "copy_segments f img base_vaddr img_size [] k = Some (True, k)"
| "copy_segments f img base_vaddr img_size (ph # phs) k =
     (if \<not> loadable ph then copy_segments f img base_vaddr img_size phs k
      else
        let seg_offset = p_vaddr ph - base_vaddr
        in if img_size < seg_offset + p_memsz ph then Some (False, k)
           else if 0 < p_filesz ph then
             (if unat (p_offset ph) + unat (p_filesz ph) \<le> length f then do {
                k \<leftarrow> on_vm (store_bytes (img + seg_offset)
                       (take (unat (p_filesz ph)) (drop (unat (p_offset ph)) f))) k;
                copy_segments f img base_vaddr img_size phs k }
              else None)
           else copy_segments f img base_vaddr img_size phs k)"

definition resolve_symbol :: "u32 \<Rightarrow> u32 \<Rightarrow> u32 \<Rightarrow> u32 \<Rightarrow> u32 \<Rightarrow> u32 \<Rightarrow> u32 \<Rightarrow> vm \<Rightarrow> u32 option option" where
  "resolve_symbol img base_vaddr img_size load_bias symtab_vaddr sym_ent sym_index v =
     (if symtab_vaddr = 0 \<or> sym_ent < 16 then Some None
      else
        let sym_vaddr = symtab_vaddr + sym_index * sym_ent;
            sym = elf_image_ptr img base_vaddr img_size sym_vaddr sym_ent
        in if sym = 0 then Some None
           else do {
             shndx \<leftarrow> load_bytes v (sym + 14) 2;
             if shndx = [0, 0] then Some None
             else do { w \<leftarrow> load32 v (sym + 4); Some (Some (load_bias + w)) } })"

record elf_dyn =
  rel_vaddr :: u32
  rel_sz :: u32
  rel_ent :: u32
  symtab_vaddr :: u32
  sym_ent :: u32
  rela_sz :: u32

text \<open>The loop over the dynamic section, up to its end or to \<open>DT_NULL\<close>.\<close>

fun scan_dynamic :: "vm \<Rightarrow> u32 \<Rightarrow> nat \<Rightarrow> elf_dyn \<Rightarrow> elf_dyn option" where
  "scan_dynamic v dyn 0 d = Some d"
| "scan_dynamic v dyn (Suc n) d = do {
     tag \<leftarrow> load32 v dyn;
     if tag = 0 then Some d
     else do {
       val \<leftarrow> load32 v (dyn + 4);
       scan_dynamic v (dyn + 8) n
         (if tag = 17 then d\<lparr>rel_vaddr := val\<rparr>
          else if tag = 18 then d\<lparr>rel_sz := val\<rparr>
          else if tag = 19 then d\<lparr>rel_ent := val\<rparr>
          else if tag = 6 then d\<lparr>symtab_vaddr := val\<rparr>
          else if tag = 11 then d\<lparr>sym_ent := val\<rparr>
          else if tag = 7 \<or> tag = 8 \<or> tag = 9 then d\<lparr>rela_sz := 1\<rparr>
          else d) } }"

text \<open>One relocation.  The types that need a symbol differ only in what they store.\<close>

definition relocate :: "u32 \<Rightarrow> u32 \<Rightarrow> u32 \<Rightarrow> u32 \<Rightarrow> elf_dyn \<Rightarrow> u32 \<Rightarrow> 'f kern \<Rightarrow> (bool \<times> 'f kern) option" where
  "relocate img base_vaddr img_size load_bias d rel k = do {
     r_offset \<leftarrow> load32 (kmem k) rel;
     r_info \<leftarrow> load32 (kmem k) (rel + 4);
     let type = r_info AND 0xFF;
     let sym_index = drop_bit 8 r_info;
     let reloc = elf_image_ptr img base_vaddr img_size r_offset 4;
     if reloc = 0 then Some (False, k)
     else if type = 0 then Some (True, k)
     else if type = 8 then do {
       w \<leftarrow> load32 (kmem k) reloc;
       k \<leftarrow> on_vm (store32 reloc (w + load_bias)) k;
       Some (True, k) }
     else if type = 1 \<or> type = 2 \<or> type = 6 \<or> type = 7 then do {
       r \<leftarrow> resolve_symbol img base_vaddr img_size load_bias (symtab_vaddr d) (sym_ent d) sym_index (kmem k);
       case r of
         None \<Rightarrow> Some (False, k)
       | Some sym_val \<Rightarrow> do {
           w \<leftarrow> load32 (kmem k) reloc;
           k \<leftarrow> on_vm (store32 reloc
                  (if type = 1 then sym_val + w
                   else if type = 2 then sym_val + w - (load_bias + r_offset)
                   else sym_val)) k;
           Some (True, k) } }
     else Some (False, k) }"

fun relocate_all :: "u32 \<Rightarrow> u32 \<Rightarrow> u32 \<Rightarrow> u32 \<Rightarrow> elf_dyn \<Rightarrow> u32 \<Rightarrow> nat \<Rightarrow> 'f kern \<Rightarrow> (bool \<times> 'f kern) option" where
  "relocate_all img base_vaddr img_size load_bias d rel 0 k = Some (True, k)"
| "relocate_all img base_vaddr img_size load_bias d rel (Suc n) k = do {
     (ok, k) \<leftarrow> relocate img base_vaddr img_size load_bias d rel k;
     if \<not> ok then Some (False, k) else relocate_all img base_vaddr img_size load_bias d (rel + 8) n k }"

definition apply_relocations ::
  "u32 \<Rightarrow> u32 \<Rightarrow> u32 \<Rightarrow> u32 \<Rightarrow> Elf32_Phdr list \<Rightarrow> 'f kern \<Rightarrow> (bool \<times> 'f kern) option" where
  "apply_relocations img base_vaddr img_size load_bias phdrs k =
     (case first_index (\<lambda>ph. p_type ph = 2) phdrs of
        None \<Rightarrow> Some (True, k)
      | Some i \<Rightarrow>
          let dyn_ph = phdrs ! i;
              dyn = elf_image_ptr img base_vaddr img_size (p_vaddr dyn_ph) (p_memsz dyn_ph)
          in if dyn = 0 then Some (False, k)
             else do {
               d \<leftarrow> scan_dynamic (kmem k) dyn (unat (p_memsz dyn_ph div 8))
                      \<lparr>rel_vaddr = 0, rel_sz = 0, rel_ent = 8, symtab_vaddr = 0, sym_ent = 16, rela_sz = 0\<rparr>;
               if rela_sz d \<noteq> 0 then Some (False, k)
               else if rel_sz d = 0 then Some (True, k)
               else if rel_ent d \<noteq> 8 \<or> rel_sz d mod rel_ent d \<noteq> 0 then Some (False, k)
               else
                 (let rel = elf_image_ptr img base_vaddr img_size (rel_vaddr d) (rel_sz d) in
                  if rel = 0 then Some (False, k)
                  else relocate_all img base_vaddr img_size load_bias d rel (unat (rel_sz d div rel_ent d)) k) })"

subsection \<open>Loading\<close>

text \<open>A file is read in pieces; the step stores the piece at an offset.\<close>

partial_function (option) read_chunks ::
  "(u32 \<Rightarrow> u32 \<Rightarrow> 's \<Rightarrow> (bool \<times> 's) option) \<Rightarrow> u32 \<Rightarrow> u32 \<Rightarrow> u32 \<Rightarrow> 's \<Rightarrow> (bool \<times> 's) option" where
  "read_chunks get chunk sz offset s =
     (if offset < sz then do {
        let to_read = sz - offset;
        let to_read = (if chunk < to_read then chunk else to_read);
        (ok, s) \<leftarrow> get offset to_read s;
        if \<not> ok then Some (False, s) else read_chunks get chunk sz (offset + to_read) s }
      else Some (True, s))"

definition read_piece :: "'f fscmd \<Rightarrow> bytes \<Rightarrow> 'f \<Rightarrow> u32 \<Rightarrow> u32 \<Rightarrow> bytes \<Rightarrow> (bool \<times> bytes) option" where
  "read_piece F path fs offset to_read f = (case fscmd_read_file_partial F path offset to_read fs of
     None \<Rightarrow> Some (False, f)
   | Some bs \<Rightarrow>
       if unat offset + length bs \<le> length f
       then Some (True, take (unat offset) f @ bs @ drop (unat offset + length bs) f) else None)"

definition read_file_exact :: "'f fscmd \<Rightarrow> bytes \<Rightarrow> 'f \<Rightarrow> u32 \<Rightarrow> bytes \<Rightarrow> (bool \<times> bytes) option" where
  "read_file_exact F path fs sz dest = read_chunks (read_piece F path fs) 1024 sz 0 dest"

text \<open>The result of a loader: rejected, with the flag \<open>is_elf\<close>, or entry point, image, its size and place.\<close>

type_synonym load_result = "bool + (u32 \<times> u32 \<times> u32 \<times> u32)"

text \<open>The part of \<open>elf_load_image\<close> from the allocation of the image on.\<close>

definition elf_place :: "bytes \<Rightarrow> elf_plan \<Rightarrow> u32 \<Rightarrow> 'f kern \<Rightarrow> (load_result \<times> 'f kern) option" where
  "elf_place f p load_base k =
     (let load_bias = load_base - plan_base p in do {
        (img, k) \<leftarrow> with_sched (sched_kmalloc (plan_size p) 1) k;
        if img = 0 then Some (Inl True, k)
        else do {
          k \<leftarrow> on_vm (clear_bytes img (unat (plan_size p))) k;
          (ok, k) \<leftarrow> copy_segments f img (plan_base p) (plan_size p) (plan_phdrs p) k;
          if \<not> ok then Some (Inl True, on_sched (sched_kfree img) k)
          else do {
            (ok, k) \<leftarrow> (if plan_pie p
                       then apply_relocations img (plan_base p) (plan_size p) load_bias (plan_phdrs p) k
                       else Some (True, k));
            if \<not> ok then Some (Inl True, on_sched (sched_kfree img) k)
            else do {
              let (irq_flags, s) = proc_irq_save (ksched k);
              (ok, k) \<leftarrow> with_sched (map_user_pages load_base img (plan_size p)) (k\<lparr>ksched := s\<rparr>);
              let k = on_sched (proc_irq_restore irq_flags) k;
              if \<not> ok then Some (Inl True, on_sched (sched_kfree img) k)
              else Some (Inr (plan_entry p + load_bias, img, plan_size p, load_base), k) } } } })"

text \<open>
  The file is read into a heap block.  What the block held before stays where the file system
  delivers fewer bytes than asked for.  The checks read the block; nothing writes to it in between.
\<close>

definition elf_load_image :: "'f fscmd \<Rightarrow> bytes \<Rightarrow> 'f kern \<Rightarrow> (load_result \<times> 'f kern) option" where
  "elf_load_image F path k =
     (let sz = fscmd_get_file_size F path (kfiles k) in
      if sz < 52 then Some (Inl False, k)
      else do {
        (file, k) \<leftarrow> with_sched (sched_kmalloc sz 0) k;
        if file = 0 then Some (Inl False, k)
        else do {
          f \<leftarrow> load_bytes (kmem k) file (unat sz);
          (ok, f) \<leftarrow> read_file_exact F path (kfiles k) sz f;
          k \<leftarrow> on_vm (store_bytes file f) k;
          (r, k) \<leftarrow>
            (if \<not> ok then Some (Inl False, k)
             else do {
               c \<leftarrow> elf_check f sz;
               case c of
                 Inl is_elf \<Rightarrow> Some (Inl is_elf, k)
               | Inr p \<Rightarrow>
                   (let (load_base, next) = elf_load_base p (g_next_pie_base k);
                        k = k\<lparr>g_next_pie_base := next\<rparr>
                    in if plan_pie p \<and> load_base = 0 then Some (Inl True, k)
                       else elf_place f p load_base k) });
          Some (r, on_sched (sched_kfree file) k) } })"

end
