(* ===== verification/Bin_Loader.thy ===== *)
theory Bin_Loader
  imports Elf_Loader
begin

text \<open>
  Starting programs, \<^verbatim>\<open>kernel/bin.c\<close>: loading an image, flat or ELF, into a new or a running process,
  and entering it.

  Entering a process does not return to the caller: \<open>proc_start\<close> switches to the saved frame, and
  the saved kernel stack is resumed by a trampoline when the process ends.  The functions that do so
  have the result \<open>Bin_enters\<close> with the stack pointer given to \<open>proc_start\<close>; what the code does after
  the trampoline is left out, as are the naked assembly functions.
\<close>

section \<open>Model\<close>

subsection \<open>Mappings of a process\<close>

definition log_user_mappings :: "nat \<Rightarrow> 'f kern \<Rightarrow> unit option" where
  "log_user_mappings i k =
     (let st = ksched k;
          p = proc_at st i
      in do {
        miss_entry \<leftarrow> unmapped st (entry p);
        miss_load \<leftarrow> (if image_load_base p \<noteq> entry p then unmapped st (image_load_base p) else Some False);
        miss_stack \<leftarrow> unmapped st (stack_base p);
        _ \<leftarrow> dump_if miss_entry (entry p) st;
        _ \<leftarrow> dump_if miss_load (image_load_base p) st;
        _ \<leftarrow> dump_if miss_stack (stack_base p) st;
        Some () })"

definition ensure_user_mappings :: "nat \<Rightarrow> 'f kern \<Rightarrow> 'f kern option" where
  "ensure_user_mappings i k =
     (let p = proc_at (ksched k) i in
      if is_kernel p \<or> page_dir p = 0 \<or> page_dir_phys p = 0 then Some k
      else do {
        let (irq_flags, st) = proc_irq_save (ksched k);
        let st = set_dir (page_dir p) (page_dir_phys p) st;
        (_, st) \<leftarrow> (if image_base p \<noteq> 0 \<and> image_size p \<noteq> 0 \<and> image_load_base p \<noteq> 0
                   then map_user_pages (image_load_base p) (image_base p) (image_size p) st else Some (True, st));
        (_, st) \<leftarrow> (if stack_kern_base p \<noteq> 0 \<and> stack_size p \<noteq> 0 \<and> stack_base p \<noteq> 0
                   then map_user_pages (stack_base p) (stack_kern_base p) (stack_size p) st else Some (True, st));
        Some (k\<lparr>ksched := proc_irq_restore irq_flags st\<rparr>) })"

text \<open>Everything \<open>enter_user_process_c\<close> does before \<open>proc_start\<close>, with the stack pointer it hands over.\<close>

definition enter_user_process_c :: "nat \<Rightarrow> 'f kern \<Rightarrow> (u32 \<times> 'f kern) option" where
  "enter_user_process_c i k = do {
     _ \<leftarrow> log_user_mappings i k;
     k \<leftarrow> ensure_user_mappings i k;
     _ \<leftarrow> log_user_mappings i k;
     let p = proc_at (ksched k) i;
     Some (context_esp p, on_sched (tss_set_kernel_stack (kstack_base p + kstack_size p)) k) }"

subsection \<open>Loading\<close>

definition bin_piece :: "'f fscmd \<Rightarrow> bytes \<Rightarrow> u32 \<Rightarrow> u32 \<Rightarrow> 'f kern \<Rightarrow> (bool \<times> 'f kern) option" where
  "bin_piece F path offset to_read k = (case fscmd_read_file_partial F path offset to_read (kfiles k) of
     None \<Rightarrow> Some (False, k)
   | Some bs \<Rightarrow> do { k \<leftarrow> on_vm (store_bytes (0x500000 + offset) bs) k; Some (True, k) })"

definition load_bin :: "'f fscmd \<Rightarrow> bytes \<Rightarrow> 'f kern \<Rightarrow> ((u32 \<times> u32) option \<times> 'f kern) option" where
  "load_bin F path k = do {
     k \<leftarrow> on_vm (clear_bytes 0x500000 (64 * 1024)) k;
     let sz = fscmd_get_file_size F path (kfiles k);
     if sz = 0 then Some (None, k)
     else if 64 * 1024 < sz then Some (None, k)
     else do {
       (ok, k) \<leftarrow> read_chunks (bin_piece F path) 512 sz 0 k;
       Some (if ok then Some (0x500000, sz) else None, k) } }"

text \<open>The copy of a flat image in kernel memory, mapped at its load address.\<close>

definition place_bin :: "u32 \<Rightarrow> u32 \<Rightarrow> 'f kern \<Rightarrow> ((u32 \<times> u32 \<times> u32 \<times> u32) option \<times> 'f kern) option" where
  "place_bin phys_entry bin_size k =
     (let alloc_size = (bin_size + 0xFFF) AND NOT 0xFFF in do {
        (virt_entry, k) \<leftarrow> with_sched (sched_kmalloc alloc_size 1) k;
        if virt_entry = 0 then Some (None, k)
        else do {
          k \<leftarrow> on_vm (clear_bytes virt_entry (unat alloc_size)) k;
          k \<leftarrow> on_vm (copy_bytes virt_entry phys_entry (unat bin_size)) k;
          let (irq_flags, s) = proc_irq_save (ksched k);
          (ok, k) \<leftarrow> with_sched (map_user_pages 0x500000 virt_entry alloc_size) (k\<lparr>ksched := s\<rparr>);
          let k = on_sched (proc_irq_restore irq_flags) k;
          if \<not> ok then Some (None, on_sched (sched_kfree virt_entry) k)
          else Some (Some (0x500000, virt_entry, alloc_size, 0x500000), k) } })"

definition bin_load_image ::
  "'f fscmd \<Rightarrow> bytes \<Rightarrow> 'f kern \<Rightarrow> ((u32 \<times> u32 \<times> u32 \<times> u32) option \<times> 'f kern) option" where
  "bin_load_image F path k = do {
     (r, k) \<leftarrow> elf_load_image F path k;
     case r of
       Inr im \<Rightarrow> Some (Some im, k)
     | Inl is_elf \<Rightarrow>
         if is_elf then Some (None, k)
         else do {
           (b, k) \<leftarrow> load_bin F path k;
           case b of None \<Rightarrow> Some (None, k) | Some (phys_entry, bin_size) \<Rightarrow> place_bin phys_entry bin_size k } }"

subsection \<open>Starting\<close>

text \<open>
  The failure exits of \<open>bin_create_process\<close>.  When the pages of a flat image are not mapped the flags
  restored are those saved last, with the interrupts already off.
\<close>

definition bin_give_up :: "u32 \<Rightarrow> u32 \<Rightarrow> u32 \<Rightarrow> nat \<Rightarrow> 'f kern \<Rightarrow> 'f kern" where
  "bin_give_up prev_dir prev_phys irq_flags i k =
     on_sched (\<lambda>st. proc_cleanup_process i (proc_irq_restore irq_flags (set_dir prev_dir prev_phys st))) k"

definition finish_bin ::
  "u32 \<Rightarrow> u32 \<Rightarrow> u32 \<Rightarrow> nat \<Rightarrow> argv \<Rightarrow> int \<Rightarrow> u32 \<times> u32 \<times> u32 \<times> u32 \<Rightarrow> 'f kern \<Rightarrow> (bool \<times> 'f kern) option" where
  "finish_bin prev_dir prev_phys irq_flags i argv argc im k = (case im of (ent, img, img_size, img_load) \<Rightarrow> do {
     (ok, k) \<leftarrow> with_sched (proc_build_user_frame i ent argv argc) k;
     if \<not> ok then
       Some (False, bin_give_up prev_dir prev_phys irq_flags i
         (if img \<noteq> 0 then on_sched (sched_kfree img) k else k))
     else
       Some (True, on_sched (set_proc i (\<lambda>p. p\<lparr>image_base := img, image_size := img_size,
                     image_load_base := img_load, entry := ent\<rparr>)) k) })"

text \<open>
  The steps \<open>start_init\<close> and \<open>bin_create_process\<close> have in common: the image is loaded in the address
  space of the new process.  \<open>unmap_fail\<close> is what is done when the pages of a flat image are not mapped.
\<close>

definition load_into ::
  "'f fscmd \<Rightarrow> bytes \<Rightarrow> (u32 \<Rightarrow> sched \<Rightarrow> sched) \<Rightarrow> u32 \<Rightarrow> u32 \<Rightarrow> u32 \<Rightarrow> nat \<Rightarrow> 'f kern \<Rightarrow>
   ((u32 \<times> u32 \<times> u32 \<times> u32) option \<times> 'f kern) option" where
  "load_into F path unmap_fail prev_dir prev_phys irq_flags i k = do {
     (r, k) \<leftarrow> elf_load_image F path k;
     case r of
       Inr im \<Rightarrow> Some (Some im, k)
     | Inl is_elf \<Rightarrow>
         if is_elf then Some (None, bin_give_up prev_dir prev_phys irq_flags i k)
         else do {
           (b, k) \<leftarrow> load_bin F path k;
           case b of
             None \<Rightarrow> Some (None, bin_give_up prev_dir prev_phys irq_flags i k)
           | Some (phys_entry, bin_size) \<Rightarrow> do {
               let alloc_size = (bin_size + 0xFFF) AND NOT 0xFFF;
               (virt_entry, k) \<leftarrow> with_sched (sched_kmalloc alloc_size 1) k;
               if virt_entry = 0 then Some (None, bin_give_up prev_dir prev_phys irq_flags i k)
               else do {
                 k \<leftarrow> on_vm (clear_bytes virt_entry (unat alloc_size)) k;
                 k \<leftarrow> on_vm (copy_bytes virt_entry phys_entry (unat bin_size)) k;
                 let (irq_flags2, s) = proc_irq_save (ksched k);
                 (ok, k) \<leftarrow> with_sched (map_user_pages 0x500000 virt_entry alloc_size) (k\<lparr>ksched := s\<rparr>);
                 let k = on_sched (proc_irq_restore irq_flags2) k;
                 Some (if ok then (Some (0x500000, virt_entry, alloc_size, 0x500000), k)
                       else (None, on_sched (\<lambda>st. unmap_fail irq_flags2 (sched_kfree virt_entry st)) k)) } } } }"

definition bin_create_process ::
  "'f fscmd \<Rightarrow> bytes \<Rightarrow> argv \<Rightarrow> int \<Rightarrow> bool \<Rightarrow> 'f kern \<Rightarrow> (nat option \<times> 'f kern) option" where
  "bin_create_process F path argv argc make_current k =
     (let (use_argv, use_argc) = (if argv = None \<or> argc \<le> 0 then (Some [Some path], 1) else (argv, argc)) in do {
        (p, k) \<leftarrow> with_sched (proc_create_pending (Some path) make_current) k;
        case p of None \<Rightarrow> Some (None, k)
        | Some i \<Rightarrow> do {
            let (irq_flags, s) = proc_irq_save (ksched k);
            let prev_dir = paging_current_dir (mmu s);
            let prev_phys = paging_current_dir_phys (mmu s);
            let k = k\<lparr>ksched := set_dir (page_dir (proc_at s i)) (page_dir_phys (proc_at s i)) s\<rparr>;
            (im, k) \<leftarrow> load_into F path (\<lambda>_ st. proc_cleanup_process i (set_dir prev_dir prev_phys st))
                        prev_dir prev_phys irq_flags i k;
            case im of None \<Rightarrow> Some (None, k)
            | Some im \<Rightarrow> do {
                (ok, k) \<leftarrow> finish_bin prev_dir prev_phys irq_flags i use_argv use_argc im k;
                Some (if ok then (Some i, on_sched (\<lambda>st. proc_irq_restore irq_flags (set_dir prev_dir prev_phys st)) k)
                      else (None, k)) } } })"

datatype bin_result = Bin_returns bool | Bin_enters u32

definition set_keyboard :: "bool \<Rightarrow> 'f kern \<Rightarrow> 'f kern" where
  "set_keyboard b = on_sched (\<lambda>st. st\<lparr>shell := (shell st)\<lparr>keyboard_input_enabled := b\<rparr>\<rparr>)"

definition start_init :: "'f fscmd \<Rightarrow> 'f kern \<Rightarrow> (bin_result \<times> 'f kern) option" where
  "start_init F k =
     (let path = map of_char ''/system/core/init.sys'' @ [0] in do {
        (p, k) \<leftarrow> with_sched (proc_create_pending (Some path) True) k;
        case p of None \<Rightarrow> Some (Bin_returns False, k)
        | Some i \<Rightarrow> do {
            let (irq_flags, s) = proc_irq_save (ksched k);
            let prev_dir = paging_current_dir (mmu s);
            let prev_phys = paging_current_dir_phys (mmu s);
            let k = k\<lparr>ksched := set_dir (page_dir (proc_at s i)) (page_dir_phys (proc_at s i)) s\<rparr>;
            (im, k) \<leftarrow> load_into F path
                        (\<lambda>flags st. proc_cleanup_process i (proc_irq_restore flags (set_dir prev_dir prev_phys st)))
                        prev_dir prev_phys irq_flags i k;
            case im of None \<Rightarrow> Some (Bin_returns False, k)
            | Some im \<Rightarrow> do {
                (ok, k) \<leftarrow> finish_bin prev_dir prev_phys irq_flags i None 0 im k;
                if \<not> ok then Some (Bin_returns False, k)
                else do {
                  let k = on_sched (proc_set_foreground_pid (pid (proc_at (ksched k) i))) k;
                  let k = on_sched (\<lambda>st. proc_irq_restore irq_flags
                            (set_dir (page_dir (proc_at st i)) (page_dir_phys (proc_at st i)) st)) k;
                  (esp, k) \<leftarrow> enter_user_process_c i k;
                  Some (Bin_enters esp, k) } } } })"

definition start_bin :: "'f fscmd \<Rightarrow> bytes \<Rightarrow> argv \<Rightarrow> int \<Rightarrow> 'f kern \<Rightarrow> (bin_result \<times> 'f kern) option" where
  "start_bin F path argv argc k = do {
     (p, k) \<leftarrow> bin_create_process F path argv argc True (set_keyboard False k);
     case p of
       None \<Rightarrow> Some (Bin_returns False, set_keyboard True k)
     | Some i \<Rightarrow> do {
         (ok, k) \<leftarrow> with_sched (proc_make_current i (proc_get_last_regs (ksched k))) k;
         let k = on_sched (proc_set_last_regs 0) k;
         if \<not> ok then Some (Bin_returns False, set_keyboard True k)
         else do {
           let k = on_sched (proc_set_foreground_pid (pid (proc_at (ksched k) i))) k;
           (esp, k) \<leftarrow> enter_user_process_c i k;
           Some (Bin_enters esp, k) } } }"

definition start_bin_background ::
  "'f fscmd \<Rightarrow> bytes \<Rightarrow> argv \<Rightarrow> int \<Rightarrow> 'f kern \<Rightarrow> (u32 option \<times> 'f kern) option" where
  "start_bin_background F path argv argc k = do {
     (p, k) \<leftarrow> bin_create_process F path argv argc False k;
     Some (map_option (\<lambda>i. pid (proc_at (ksched k) i)) p, k) }"

definition bin_enter_process :: "nat option \<Rightarrow> 'f kern \<Rightarrow> (bin_result \<times> 'f kern) option" where
  "bin_enter_process p k = (case p of
     None \<Rightarrow> Some (Bin_returns False, k)
   | Some i \<Rightarrow> do {
       (ok, k) \<leftarrow> with_sched (proc_make_current i 0) k;
       if \<not> ok then Some (Bin_returns False, k)
       else do { (esp, k) \<leftarrow> enter_user_process_c i k; Some (Bin_enters esp, k) } })"

end
