(* ===== verification/Syscall_Handler.thy ===== *)
theory Syscall_Handler
  imports Bin_Loader
begin

text \<open>
  The system calls, \<open>syscall_handler\<close> of \<^verbatim>\<open>kernel/syscall.c\<close>: one definition per case of its switch
  that has a body of its own, and the handler that selects them.

  A case is a function of the argument registers and the state of the kernel; its result is the new
  value of \<open>eax\<close>.  The screen, the mouse, the keyboard and the commands that only print are a
  parameter, the record \<open>devices\<close>, on the state of the file systems and devices.  The buffers on the
  stack of the handler and the copied argument strings are lists of bytes; what a buffer held before,
  which nothing reads, is taken to be zero.  The heap blocks of the argument strings are allocated and
  freed as in the code.
\<close>

section \<open>Model\<close>

record 'f devices =
  getkey :: "'f \<Rightarrow> u32 \<times> 'f"
  getkey_nonblock :: "'f \<Rightarrow> int \<times> 'f"
  keyboard_flush :: "'f \<Rightarrow> 'f"
  get_cursor_offset :: "'f \<Rightarrow> int"
  set_cursor_offset :: "int \<Rightarrow> 'f \<Rightarrow> 'f"
  screen_get_cols :: "'f \<Rightarrow> int"
  screen_get_rows :: "'f \<Rightarrow> int"
  screen_get_framebuffer_info :: "'f \<Rightarrow> u32 list option"
  screen_fb_fill_rect :: "int \<Rightarrow> int \<Rightarrow> int \<Rightarrow> int \<Rightarrow> u32 \<Rightarrow> 'f \<Rightarrow> 'f"
  screen_fb_draw_text :: "int \<Rightarrow> int \<Rightarrow> bytes \<Rightarrow> u32 \<Rightarrow> u32 \<Rightarrow> bool \<Rightarrow> 'f \<Rightarrow> 'f"
  screen_set_cursor_visible :: "bool \<Rightarrow> 'f \<Rightarrow> 'f"
  mouse_state :: "'f \<Rightarrow> int \<times> int \<times> int"
  mouse_set_draw :: "bool \<Rightarrow> 'f \<Rightarrow> 'f"
  kprint_color :: "bytes \<Rightarrow> u8 \<Rightarrow> u8 \<Rightarrow> 'f \<Rightarrow> 'f"
  fscmd_read_file_by_name :: "bytes \<Rightarrow> nat \<Rightarrow> 'f \<Rightarrow> int \<times> bytes"
  fscmd_ls :: "bytes option \<Rightarrow> 'f \<Rightarrow> 'f"
  fscmd_cat :: "bytes \<Rightarrow> 'f \<Rightarrow> 'f"
  fscmd_cd :: "bytes \<Rightarrow> 'f \<Rightarrow> bool \<times> 'f"
  note_edit :: "bytes \<Rightarrow> 'f \<Rightarrow> 'f"
  m_disk :: "bytes \<Rightarrow> 'f \<Rightarrow> 'f"
  kprintf_root_disk :: "'f \<Rightarrow> 'f"
  ramdisk_auto_mount :: "'f \<Rightarrow> bool"
  cmd_disk_ls :: "'f \<Rightarrow> 'f"
  orion_boot_flags :: "'f \<Rightarrow> u32"
  orion_config_load :: "'f \<Rightarrow> 'f"
  parse_bootcmd :: "'f \<Rightarrow> 'f"
  set_bootlog_enabled :: "bool \<Rightarrow> 'f \<Rightarrow> 'f"
  clear_screen :: "'f \<Rightarrow> 'f"
  beep :: "u32 \<Rightarrow> u32 \<Rightarrow> 'f \<Rightarrow> 'f"
  pause :: "'f \<Rightarrow> 'f"
  reboot :: "'f \<Rightarrow> 'f"

definition on_files :: "('f \<Rightarrow> 'f) \<Rightarrow> 'f kern \<Rightarrow> 'f kern" where
  "on_files f k = k\<lparr>kfiles := f (kfiles k)\<rparr>"

definition set_fd :: "nat \<Rightarrow> (syscall_fd \<Rightarrow> syscall_fd) \<Rightarrow> 'f kern \<Rightarrow> 'f kern" where
  "set_fd i f = on_sched (\<lambda>st. st\<lparr>fd_table := (fd_table st)[i := f (fd_table st ! i)]\<rparr>)"

abbreviation fds :: "'f kern \<Rightarrow> syscall_fd list" where "fds k \<equiv> fd_table (ksched k)"

text \<open>\<open>char path[MAX_PATH_LEN]; copy_user_string(path, ptr, sizeof(path))\<close>.\<close>

definition user_string :: "u32 \<Rightarrow> 'f kern \<Rightarrow> bytes option option" where
  "user_string ptr k = do {
     (r, path) \<leftarrow> copy_user_string (kmem k) (replicate MAX_PATH_LEN 0) ptr MAX_PATH_LEN;
     Some (if r \<noteq> 0 then None else Some path) }"

subsection \<open>Argument vectors\<close>

text \<open>The copy of an argument vector: the array and for each argument its heap block and its text.\<close>

type_synonym kargv = "(u32 \<times> (u32 \<times> bytes) list) option"

definition free_kernel_argv :: "kargv \<Rightarrow> int \<Rightarrow> sched \<Rightarrow> sched" where
  "free_kernel_argv argv argc st = (case argv of
     None \<Rightarrow> st
   | Some (array, bufs) \<Rightarrow>
       if argc \<le> 0 then st
       else sched_kfree array (fold (\<lambda>b st. if fst b \<noteq> 0 then sched_kfree (fst b) st else st) bufs st))"

fun copy_args :: "u32 \<Rightarrow> nat \<Rightarrow> (u32 \<times> bytes) list \<Rightarrow> sched \<Rightarrow> ((bool \<times> (u32 \<times> bytes) list) \<times> sched) option" where
  "copy_args user_argv 0 bufs st = Some ((True, bufs), st)"
| "copy_args user_argv (Suc n) bufs st = do {
     user_str \<leftarrow> load32 (mmu st) user_argv;
     (buf, st) \<leftarrow> sched_kmalloc (of_nat MAX_PATH_LEN) 0 st;
     if buf = 0 then Some ((False, bufs), st)
     else do {
       (r, s) \<leftarrow> copy_user_string (mmu st) (replicate MAX_PATH_LEN 0) user_str MAX_PATH_LEN;
       if r \<noteq> 0 then Some ((False, bufs), sched_kfree buf st)
       else copy_args (user_argv + 4) n (bufs @ [(buf, s)]) st } }"

definition copy_user_argv :: "u32 \<Rightarrow> int \<Rightarrow> sched \<Rightarrow> ((int \<times> kargv) \<times> sched) option" where
  "copy_user_argv argv_ptr argc st =
     (if argv_ptr = 0 then Some ((if argc \<le> 0 then 0 else - 1, None), st)
      else if argc \<le> 0 then Some ((0, None), st)
      else if 16 < argc then Some ((- 1, None), st)
      else
        let n = (word_of_int argc :: u32) * 4
        in if n div 4 \<noteq> word_of_int argc then Some ((- 1, None), st)
           else do {
             v \<leftarrow> validate_user_buffer (mmu st) argv_ptr n;
             if v \<noteq> 0 then Some ((- 1, None), st)
             else do {
               (array, st) \<leftarrow> sched_kmalloc (4 * word_of_int argc) 0 st;
               if array = 0 then Some ((- 1, None), st)
               else do {
                 ((ok, bufs), st) \<leftarrow> copy_args argv_ptr (nat argc) [] st;
                 Some (if ok then ((0, Some (array, bufs)), st)
                       else ((- 1, None), free_kernel_argv (Some (array, bufs)) argc st)) } } })"

definition argv_strings :: "kargv \<Rightarrow> argv" where
  "argv_strings a = map_option (\<lambda>(array, bufs). map (Some \<circ> snd) bufs) a"

subsection \<open>Files\<close>

definition open_path :: "bytes \<Rightarrow> u32 \<Rightarrow> 'f kern \<Rightarrow> (nat option \<times> 'f kern) option" where
  "open_path path owner k =
     (let (fd, tab) = alloc_fd owner (fds k);
          k = on_sched (\<lambda>st. st\<lparr>fd_table := tab\<rparr>) k
      in if fd < 0 then Some (None, k)
         else do {
           p \<leftarrow> strncpy (fd_path (fds k ! nat fd)) path (int MAX_PATH_LEN - 1);
           p \<leftarrow> arr_set p (MAX_PATH_LEN - 1) 0;
           Some (Some (nat fd), set_fd (nat fd) (\<lambda>f. f\<lparr>fd_path := p\<rparr>) k) })"

definition sys_open :: "'f fscmd \<Rightarrow> u32 \<Rightarrow> 'f kern \<Rightarrow> (u32 \<times> 'f kern) option" where
  "sys_open F ebx k = do {
     r \<leftarrow> user_string ebx k;
     case r of
       None \<Rightarrow> Some (- 1, k)
     | Some path \<Rightarrow> do {
         let owner = proc_current_pid (ksched k);
         console \<leftarrow> is_console_path path;
         if console then do {
           (fd, k) \<leftarrow> open_path path owner k;
           case fd of None \<Rightarrow> Some (- 1, k)
           | Some i \<Rightarrow> Some (of_nat i, set_fd i (\<lambda>f. f\<lparr>fd_size := 0\<rparr>) k) }
         else do {
           let (ok, fs) = (if fscmd_exists F path (kfiles k) then (True, kfiles k)
                           else fscmd_write_file F path [] (kfiles k));
           let k = k\<lparr>kfiles := fs\<rparr>;
           if \<not> ok then Some (- 1, k)
           else do {
             (fd, k) \<leftarrow> open_path path owner k;
             case fd of None \<Rightarrow> Some (- 1, k)
             | Some i \<Rightarrow>
                 (let sz = fscmd_get_file_size F (fd_path (fds k ! i)) (kfiles k)
                  in Some (of_nat i, set_fd i (\<lambda>f. f\<lparr>fd_size := sz\<rparr>) k)) } } } }"

definition sys_read :: "'f fscmd \<Rightarrow> u32 \<Rightarrow> u32 \<Rightarrow> u32 \<Rightarrow> 'f kern \<Rightarrow> (u32 \<times> 'f kern) option" where
  "sys_read F ebx ecx edx k =
     (case get_fd ebx (proc_current_pid (ksched k)) (fds k) of
        None \<Rightarrow> Some (0, k)
      | Some i \<Rightarrow>
          if ecx = 0 \<or> edx = 0 then Some (0, k)
          else do {
            v \<leftarrow> validate_user_buffer (kmem k) edx ecx;
            if v \<noteq> 0 then Some (- 1, k)
            else
              (let fd = fds k ! i in
               if fd_size fd \<le> fd_offset fd then Some (0, k)
               else do {
                 let remaining = fd_size fd - fd_offset fd;
                 let to_read = (if ecx < remaining then ecx else remaining);
                 let (n, bs) = fscmd_read_file F (fd_path fd) (fd_offset fd) to_read (kfiles k);
                 k \<leftarrow> on_vm (store_bytes edx bs) k;
                 if n < 0 then Some (- 1, k)
                 else Some (word_of_int n, set_fd i (\<lambda>f. f\<lparr>fd_offset := fd_offset f + word_of_int n\<rparr>) k) }) })"

text \<open>The console is written between \<open>console_write_lock\<close> and \<open>console_write_unlock\<close>.\<close>

definition irqs_off_on :: "sched \<Rightarrow> sched" where
  "irqs_off_on st = (let (flags, st) = proc_irq_save st in proc_irq_restore flags st)"

definition sys_write :: "'f fscmd \<Rightarrow> u32 \<Rightarrow> u32 \<Rightarrow> u32 \<Rightarrow> 'f kern \<Rightarrow> (u32 \<times> 'f kern) option" where
  "sys_write F ebx ecx edx k =
     (case get_fd ebx (proc_current_pid (ksched k)) (fds k) of
        None \<Rightarrow> Some (- 1, k)
      | Some i \<Rightarrow>
          if ecx = 0 then Some (0, k)
          else if edx = 0 then Some (- 1, k)
          else do {
            v \<leftarrow> validate_user_buffer (kmem k) edx ecx;
            if v \<noteq> 0 then Some (- 1, k)
            else do {
              console \<leftarrow> is_console_path (fd_path (fds k ! i));
              bs \<leftarrow> load_bytes (kmem k) edx (unat ecx);
              if console then Some (ecx, on_sched irqs_off_on (on_files (kprint_bytes F bs) k))
              else
                (let (ok, fs) = fscmd_write_file F (fd_path (fds k ! i)) bs (kfiles k);
                     k = k\<lparr>kfiles := fs\<rparr>
                 in if \<not> ok then Some (- 1, k)
                    else Some (ecx, set_fd i (\<lambda>f. f\<lparr>fd_size := ecx, fd_offset := 0\<rparr>) k)) } })"

definition sys_close :: "u32 \<Rightarrow> 'f kern \<Rightarrow> (u32 \<times> 'f kern) option" where
  "sys_close ebx k =
     (case get_fd ebx (proc_current_pid (ksched k)) (fds k) of
        None \<Rightarrow> Some (- 1, k)
      | Some i \<Rightarrow> Some (0, set_fd i (\<lambda>_. fd_zero) k))"

subsection \<open>Processes\<close>

text \<open>The frame of a process that has ended is sent to the trampoline back into the shell.\<close>

definition sys_exit :: "u32 \<Rightarrow> u32 \<Rightarrow> u32 \<Rightarrow> sched \<Rightarrow> sched option" where
  "sys_exit trampoline regs ebx st =
     (let pid = proc_current_pid st;
          foreground = proc_is_foreground_pid pid st;
          st = proc_exit ebx st
      in if foreground then redirect_frame trampoline regs st
         else do {
           (ok, st) \<leftarrow> proc_schedule regs False st;
           if ok then Some st else redirect_frame trampoline regs st })"

text \<open>The name of a thread is read where the process left it.\<close>

partial_function (option) load_cstring :: "vm \<Rightarrow> u32 \<Rightarrow> bytes option" where
  "load_cstring v a = do {
     c \<leftarrow> load8 v a;
     if c = 0 then Some [0] else do { cs \<leftarrow> load_cstring v (a + 1); Some (c # cs) } }"

text \<open>What \<open>strncpy\<close> reads of a name, at most \<open>n\<close> bytes and none behind the terminator.\<close>

fun load_name :: "vm \<Rightarrow> u32 \<Rightarrow> nat \<Rightarrow> bytes option" where
  "load_name v a 0 = Some []"
| "load_name v a (Suc n) = do {
     c \<leftarrow> load8 v a;
     if c = 0 then Some [0] else do { cs \<leftarrow> load_name v (a + 1) n; Some (c # cs) } }"

text \<open>Creating a process reads its name last, in the address space of the caller.\<close>

definition sys_spawn_thread :: "u32 \<Rightarrow> u32 \<Rightarrow> 'f kern \<Rightarrow> (u32 \<times> 'f kern) option" where
  "sys_spawn_thread ebx ecx k =
     (if ebx = 0 then Some (0, k)
      else do {
        (child, k) \<leftarrow> with_sched (proc_create None ebx) k;
        case child of
          None \<Rightarrow> Some (0, k)
        | Some i \<Rightarrow> do {
            s \<leftarrow> (if ecx \<noteq> 0
                  then do { name \<leftarrow> load_name (kmem k) ecx (PROC_NAME_MAX - 1); copy_name i name (ksched k) }
                  else Some (ksched k));
            Some (pid (proc_at s i), k\<lparr>ksched := s\<rparr>) } })"

definition sys_spawn :: "'f fscmd \<Rightarrow> u32 \<Rightarrow> u32 \<Rightarrow> u32 \<Rightarrow> 'f kern \<Rightarrow> (u32 \<times> 'f kern) option" where
  "sys_spawn F ebx ecx edx k = do {
     r \<leftarrow> user_string ebx k;
     case r of
       None \<Rightarrow> Some (0, k)
     | Some path \<Rightarrow>
         (let argc = sint edx in
          if argc < 0 then Some (0, k)
          else do {
            ((r, argv), k) \<leftarrow> with_sched (copy_user_argv ecx argc) k;
            if r \<noteq> 0 then Some (0, k)
            else do {
              (child, k) \<leftarrow> bin_create_process F path (argv_strings argv) argc False k;
              Some (case child of None \<Rightarrow> 0 | Some i \<Rightarrow> pid (proc_at (ksched k) i),
                    on_sched (free_kernel_argv argv argc) k) } }) }"

definition sys_wait :: "u32 \<Rightarrow> sched \<Rightarrow> u32" where
  "sys_wait ebx st =
     (if ebx = 0 then - 2
      else case proc_pid_exited ebx st of
        Some code \<Rightarrow> code
      | None \<Rightarrow> if \<not> proc_pid_alive ebx st then - 2 else - 1)"

definition sys_exec :: "'f fscmd \<Rightarrow> u32 \<Rightarrow> u32 \<Rightarrow> u32 \<Rightarrow> 'f kern \<Rightarrow> (u32 \<times> 'f kern) option" where
  "sys_exec F ebx ecx edx k = do {
     r \<leftarrow> user_string ebx k;
     case r of
       None \<Rightarrow> Some (- 1, k)
     | Some path \<Rightarrow>
         (let argc = sint edx in
          if argc < 0 then Some (- 5, k)
          else do {
            ((r, argv), k) \<leftarrow> with_sched (copy_user_argv ecx argc) k;
            if r \<noteq> 0 then Some (- 1, k)
            else if \<not> fscmd_exists F path (kfiles k) then Some (- 2, on_sched (free_kernel_argv argv argc) k)
            else do {
              (im, k) \<leftarrow> bin_load_image F path k;
              case im of
                None \<Rightarrow> Some (- 3, on_sched (free_kernel_argv argv argc) k)
              | Some (ent, img, img_size, img_load) \<Rightarrow>
                  (let drop_image_block = (\<lambda>k. if img \<noteq> 0 then on_sched (sched_kfree img) k else k) in
                   case current_proc (ksched k) of
                     None \<Rightarrow> Some (- 6, drop_image_block (on_sched (free_kernel_argv argv argc) k))
                   | Some cur \<Rightarrow>
                       if is_kernel (proc_at (ksched k) cur)
                       then Some (- 6, drop_image_block (on_sched (free_kernel_argv argv argc) k))
                       else do {
                         (ok, k) \<leftarrow> with_sched (proc_exec cur ent img img_size img_load (argv_strings argv) argc) k;
                         let k = on_sched (free_kernel_argv argv argc) k;
                         if \<not> ok then Some (- 4, drop_image_block k)
                         else
                           (let k = on_sched (proc_wake_vfork_parent cur) k
                            in Some (0, on_sched (\<lambda>st. st\<lparr>sched_next_esp := context_esp (proc_at st cur)\<rparr>) k)) }) } }) }"

definition set_eax :: "u32 \<Rightarrow> u32 \<Rightarrow> sched \<Rightarrow> sched option" where
  "set_eax regs w = on_mmu (store32 (regs + 32) w)"

definition sys_fork :: "u32 \<Rightarrow> sched \<Rightarrow> sched option" where
  "sys_fork regs st = do {
     let parent = current_proc st;
     (child, st) \<leftarrow> proc_fork regs st;
     case child of
       None \<Rightarrow> set_eax regs (- 1) st
     | Some c \<Rightarrow> do {
         st \<leftarrow> set_eax regs (pid (proc_at st c)) st;
         (ok, st) \<leftarrow> proc_make_current c regs st;
         if \<not> ok then set_eax regs (- 1) st
         else
           (let st = (case parent of None \<Rightarrow> st | Some p \<Rightarrow> set_proc p (\<lambda>q. q\<lparr>state := PROC_BLOCKED\<rparr>) st)
            in Some (st\<lparr>sched_next_esp := context_esp (proc_at st c)\<rparr>)) } }"

subsection \<open>Messages to the GUI server\<close>

definition sys_gui_bind :: "'f kern \<Rightarrow> u32 \<times> 'f kern" where
  "sys_gui_bind k =
     (let pid = proc_current_pid (ksched k);
          server = gui_server_pid (kgui k)
      in if server \<noteq> 0 \<and> server \<noteq> pid \<and> proc_pid_alive server (ksched k) then (0, k)
         else (1, k\<lparr>kgui := (kgui k)\<lparr>gui_queue_head := 0, gui_queue_tail := 0, gui_server_pid := pid\<rparr>\<rparr>))"

definition load_gui_msg :: "vm \<Rightarrow> u32 \<Rightarrow> gui_msg option" where
  "load_gui_msg v p = do {
     sender \<leftarrow> load32 v p;
     type \<leftarrow> load32 v (p + 4);
     a \<leftarrow> load32 v (p + 8);
     b \<leftarrow> load32 v (p + 12);
     c \<leftarrow> load32 v (p + 16);
     text \<leftarrow> load_bytes v (p + 20) 256;
     Some \<lparr>sender_pid = sender, msg_type = type, msg_a = sint a, msg_b = sint b, msg_c = sint c, msg_text = text\<rparr> }"

definition gui_msg_bytes :: "gui_msg \<Rightarrow> bytes" where
  "gui_msg_bytes m = concat (map word_bytes [sender_pid m, msg_type m, word_of_int (msg_a m),
     word_of_int (msg_b m), word_of_int (msg_c m)]) @ msg_text m"

definition sys_gui_send :: "u32 \<Rightarrow> 'f kern \<Rightarrow> (u32 \<times> 'f kern) option" where
  "sys_gui_send ebx k =
     (if gui_server_pid (kgui k) = 0 then Some (0, k)
      else if ebx = 0 then Some (0, k)
      else do {
        v \<leftarrow> validate_user_buffer (kmem k) ebx 276;
        if v \<noteq> 0 then Some (0, k)
        else do {
          msg \<leftarrow> load_gui_msg (kmem k) ebx;
          let msg = msg\<lparr>sender_pid := proc_current_pid (ksched k)\<rparr>;
          let (flags, st) = proc_irq_save (ksched k);
          let (ok, g) = gui_queue_push msg (kgui k);
          Some (if ok then 1 else 0, k\<lparr>ksched := proc_irq_restore flags st, kgui := g\<rparr>) } })"

definition sys_gui_recv :: "u32 \<Rightarrow> 'f kern \<Rightarrow> (u32 \<times> 'f kern) option" where
  "sys_gui_recv ebx k =
     (if proc_current_pid (ksched k) \<noteq> gui_server_pid (kgui k) then Some (0, k)
      else if ebx = 0 then Some (0, k)
      else do {
        v \<leftarrow> validate_user_buffer (kmem k) ebx 276;
        if v \<noteq> 0 then Some (0, k)
        else
          (let (flags, st) = proc_irq_save (ksched k);
               k = k\<lparr>ksched := proc_irq_restore flags st\<rparr>
           in case gui_queue_pop (kgui k) of
                None \<Rightarrow> Some (0, k)
              | Some (msg, g) \<Rightarrow> do {
                  k \<leftarrow> on_vm (store_bytes ebx (gui_msg_bytes msg)) (k\<lparr>kgui := g\<rparr>);
                  Some (1, k) }) })"

subsection \<open>Directories\<close>

definition sys_dir_list :: "'f fscmd \<Rightarrow> u32 \<Rightarrow> 'f kern \<Rightarrow> (u32 \<times> 'f kern) option" where
  "sys_dir_list F ebx k =
     (if ebx = 0 then Some (- 1, k)
      else do {
        v \<leftarrow> validate_user_buffer (kmem k) ebx 20;
        if v \<noteq> 0 then Some (- 1, k)
        else do {
          path_ptr \<leftarrow> load32 (kmem k) ebx;
          names_ptr \<leftarrow> load32 (kmem k) (ebx + 4);
          is_dir_ptr \<leftarrow> load32 (kmem k) (ebx + 8);
          max_entries \<leftarrow> load32 (kmem k) (ebx + 12);
          name_len \<leftarrow> load32 (kmem k) (ebx + 16);
          if names_ptr = 0 \<or> is_dir_ptr = 0 \<or> max_entries = 0 \<or> name_len = 0 then Some (0, k)
          else do {
            let max_entries = (if 256 < max_entries then 256 else max_entries);
            let name_len = (if 64 < name_len then 64 else name_len);
            a \<leftarrow> validate_user_buffer (kmem k) names_ptr (max_entries * name_len);
            b \<leftarrow> (if a \<noteq> 0 then Some a else validate_user_buffer (kmem k) is_dir_ptr max_entries);
            if b \<noteq> 0 then Some (- 1, k)
            else do {
              r \<leftarrow> (if path_ptr = 0 then Some (Some None)
                   else do {
                     r \<leftarrow> user_string path_ptr k;
                     Some (map_option (\<lambda>p. if p ! 0 \<noteq> 0 then Some p else None) r) });
              case r of
                None \<Rightarrow> Some (- 1, k)
              | Some use_path \<Rightarrow> do {
                  let (count, names, is_dir) = fscmd_list_dir F use_path max_entries name_len (kfiles k);
                  k \<leftarrow> on_vm (store_bytes names_ptr names) k;
                  k \<leftarrow> on_vm (store_bytes is_dir_ptr is_dir) k;
                  Some (if count < 0 then - 1 else word_of_int count, k) } } } } })"

subsection \<open>Screen and mouse\<close>

definition sys_set_cursor_offset :: "'f devices \<Rightarrow> u32 \<Rightarrow> 'f kern \<Rightarrow> u32 \<times> 'f kern" where
  "sys_set_cursor_offset D ebx k =
     (let offset = sint ebx;
          top = screen_get_cols D (kfiles k) * screen_get_rows D (kfiles k) * 2;
          offset = (if offset < 0 then 0
                    else if top \<le> offset then (if 1 < top then top - 2 else 0)
                    else offset)
      in (0, on_files (set_cursor_offset D offset) k))"

definition put_words :: "u32 \<Rightarrow> u32 list option \<Rightarrow> 'f kern \<Rightarrow> (u32 \<times> 'f kern) option" where
  "put_words ebx ws k = (case ws of
     None \<Rightarrow> Some (0, k)
   | Some ws \<Rightarrow> do { k \<leftarrow> on_vm (store_bytes ebx (concat (map word_bytes ws))) k; Some (1, k) })"

definition sys_fb_info :: "'f devices \<Rightarrow> u32 \<Rightarrow> 'f kern \<Rightarrow> (u32 \<times> 'f kern) option" where
  "sys_fb_info D ebx k =
     (if ebx = 0 then Some (0, k)
      else do {
        v \<leftarrow> validate_user_buffer (kmem k) ebx 28;
        if v \<noteq> 0 then Some (0, k) else put_words ebx (screen_get_framebuffer_info D (kfiles k)) k })"

definition sys_mouse_state :: "'f devices \<Rightarrow> u32 \<Rightarrow> 'f kern \<Rightarrow> (u32 \<times> 'f kern) option" where
  "sys_mouse_state D ebx k =
     (if ebx = 0 then Some (0, k)
      else do {
        v \<leftarrow> validate_user_buffer (kmem k) ebx 12;
        if v \<noteq> 0 then Some (0, k)
        else
          (case mouse_state D (kfiles k) of (x, y, buttons) \<Rightarrow>
             put_words ebx (Some (map word_of_int [x, y, buttons])) k) })"

definition sys_fb_fill_rect :: "'f devices \<Rightarrow> u32 \<Rightarrow> 'f kern \<Rightarrow> (u32 \<times> 'f kern) option" where
  "sys_fb_fill_rect D ebx k =
     (if ebx = 0 then Some (0, k)
      else do {
        v \<leftarrow> validate_user_buffer (kmem k) ebx 20;
        if v \<noteq> 0 then Some (0, k)
        else do {
          x \<leftarrow> load32 (kmem k) ebx;
          y \<leftarrow> load32 (kmem k) (ebx + 4);
          w \<leftarrow> load32 (kmem k) (ebx + 8);
          h \<leftarrow> load32 (kmem k) (ebx + 12);
          color \<leftarrow> load32 (kmem k) (ebx + 16);
          Some (1, on_files (screen_fb_fill_rect D (sint x) (sint y) (sint w) (sint h) color) k) } })"

definition sys_fb_draw_text :: "'f devices \<Rightarrow> u32 \<Rightarrow> 'f kern \<Rightarrow> (u32 \<times> 'f kern) option" where
  "sys_fb_draw_text D ebx k =
     (if ebx = 0 then Some (0, k)
      else do {
        v \<leftarrow> validate_user_buffer (kmem k) ebx 24;
        if v \<noteq> 0 then Some (0, k)
        else do {
          x \<leftarrow> load32 (kmem k) ebx;
          y \<leftarrow> load32 (kmem k) (ebx + 4);
          fg \<leftarrow> load32 (kmem k) (ebx + 8);
          bg \<leftarrow> load32 (kmem k) (ebx + 12);
          flags \<leftarrow> load32 (kmem k) (ebx + 16);
          text_ptr \<leftarrow> load32 (kmem k) (ebx + 20);
          if text_ptr = 0 then Some (0, k)
          else do {
            r \<leftarrow> user_string text_ptr k;
            case r of
              None \<Rightarrow> Some (0, k)
            | Some buf \<Rightarrow>
                Some (1, on_files (screen_fb_draw_text D (sint x) (sint y) buf fg bg (flags AND 1 \<noteq> 0)) k) } } })"

subsection \<open>Commands\<close>

text \<open>The lines of the message of the day, cut at line feeds, without a final carriage return.\<close>

definition print_motd_line :: "'f fscmd \<Rightarrow> 'f devices \<Rightarrow> bytes \<Rightarrow> 'f \<Rightarrow> 'f option" where
  "print_motd_line F D line fs = do {
     let line = (if line \<noteq> [] \<and> last line = 13 then butlast line else line);
     (color, s) \<leftarrow> parse_motd_color_suffix (line @ [0]);
     let line = takeWhile (\<lambda>c. c \<noteq> 0) s;
     let fs = (case color of
         Some (fg, bg) \<Rightarrow> kprint_color D line fg bg fs
       | None \<Rightarrow> if line \<noteq> [] then kprint_bytes F line fs else fs);
     Some (kprint_bytes F [10] fs) }"

function print_motd_lines :: "'f fscmd \<Rightarrow> 'f devices \<Rightarrow> bytes \<Rightarrow> 'f \<Rightarrow> 'f option" where
  "print_motd_lines F D buf fs =
     (if buf = [] then Some fs
      else do {
        fs \<leftarrow> print_motd_line F D (takeWhile (\<lambda>c. c \<noteq> 10) buf) fs;
        print_motd_lines F D (drop 1 (dropWhile (\<lambda>c. c \<noteq> 10) buf)) fs })"
  by auto
termination
proof (relation "measure (\<lambda>(F, D, buf, fs). length buf)", goal_cases)
  case (2 F D buf fs s)
  then show ?case using length_dropWhile_le [of "\<lambda>c. c \<noteq> 10" buf] by (cases buf) auto
qed simp

definition print_motd_file :: "'f fscmd \<Rightarrow> 'f devices \<Rightarrow> bytes \<Rightarrow> 'f \<Rightarrow> 'f option" where
  "print_motd_file F D path fs =
     (if \<not> fscmd_exists F path fs then Some fs
      else
        let (n, bs) = fscmd_read_file_by_name D path 511 fs
        in if n \<le> 0 then Some fs
           else print_motd_lines F D (takeWhile (\<lambda>c. c \<noteq> 0) (take (nat n) bs)) fs)"

definition sys_print_motd :: "'f fscmd \<Rightarrow> 'f devices \<Rightarrow> u32 \<Rightarrow> 'f kern \<Rightarrow> (u32 \<times> 'f kern) option" where
  "sys_print_motd F D ebx k = do {
     r \<leftarrow> (if ebx \<noteq> 0 then user_string ebx k else Some (Some (map of_char ''/system/config/motd.txt'' @ [0])));
     case r of
       None \<Rightarrow> Some (0, k)
     | Some path \<Rightarrow> do { fs \<leftarrow> print_motd_file F D path (kfiles k); Some (1, k\<lparr>kfiles := fs\<rparr>) } }"

definition sys_ls :: "'f devices \<Rightarrow> u32 \<Rightarrow> 'f kern \<Rightarrow> (u32 \<times> 'f kern) option" where
  "sys_ls D ebx k = do {
     r \<leftarrow> (if ebx \<noteq> 0 then user_string ebx k else Some (Some [0]));
     case r of
       None \<Rightarrow> Some (0, k)
     | Some path \<Rightarrow> Some (1, on_files (fscmd_ls D (if path ! 0 \<noteq> 0 then Some path else None)) k) }"

text \<open>The commands that need a path: \<open>cat\<close>, \<open>chdir\<close> and \<open>note\<close>.\<close>

definition path_command :: "(bytes \<Rightarrow> 'f kern \<Rightarrow> u32 \<times> 'f kern) \<Rightarrow> u32 \<Rightarrow> 'f kern \<Rightarrow> (u32 \<times> 'f kern) option" where
  "path_command f ebx k =
     (if ebx = 0 then Some (0, k)
      else do {
        r \<leftarrow> user_string ebx k;
        Some (case r of None \<Rightarrow> (0, k) | Some path \<Rightarrow> f path k) })"

definition sys_cat :: "'f devices \<Rightarrow> u32 \<Rightarrow> 'f kern \<Rightarrow> (u32 \<times> 'f kern) option" where
  "sys_cat D = path_command (\<lambda>path k. (1, on_files (fscmd_cat D path) k))"

definition sys_chdir :: "'f devices \<Rightarrow> u32 \<Rightarrow> 'f kern \<Rightarrow> (u32 \<times> 'f kern) option" where
  "sys_chdir D = path_command (\<lambda>path k.
     let (ok, fs) = fscmd_cd D path (kfiles k) in (if ok then 1 else 0, k\<lparr>kfiles := fs\<rparr>))"

definition sys_note :: "'f devices \<Rightarrow> u32 \<Rightarrow> 'f kern \<Rightarrow> (u32 \<times> 'f kern) option" where
  "sys_note D = path_command (\<lambda>path k. (1, on_files (\<lambda>fs. keyboard_flush D (note_edit D path fs)) k))"

definition sys_disk :: "'f devices \<Rightarrow> u32 \<Rightarrow> 'f kern \<Rightarrow> (u32 \<times> 'f kern) option" where
  "sys_disk D ebx k = do {
     r \<leftarrow> (if ebx \<noteq> 0 then user_string ebx k else Some (Some [0]));
     case r of None \<Rightarrow> Some (0, k) | Some cmd \<Rightarrow> Some (1, on_files (m_disk D cmd) k) }"

subsection \<open>The handler\<close>

text \<open>The calls whose result is the new \<open>eax\<close>; \<^const>\<open>None\<close> inside for every other number.\<close>

definition syscall_result ::
  "'f fscmd \<Rightarrow> 'f devices \<Rightarrow> u32 \<Rightarrow> u32 \<Rightarrow> u32 \<Rightarrow> u32 \<Rightarrow> u32 \<Rightarrow> u32 \<Rightarrow> 'f kern \<Rightarrow> (u32 \<times> 'f kern) option option" where
  "syscall_result F D sysmgr_thread sysmgr_watchdog_thread eax ebx ecx edx k =
     (if eax = 10 then Some (sys_spawn_thread ebx ecx k)
      else if eax = 11 then Some (Some (orion_boot_flags D (kfiles k), k))
      else if eax = 12 then Some (sys_open F ebx k)
      else if eax = 13 then Some (sys_read F ebx ecx edx k)
      else if eax = 14 then Some (sys_write F ebx ecx edx k)
      else if eax = 15 then Some (sys_close ebx k)
      else if eax = 16 then Some (do {
        (ok, k) \<leftarrow> with_sched (proc_start_reaper sysmgr_thread sysmgr_watchdog_thread) k;
        Some (if ok then 1 else 0, k) })
      else if eax = 17 then Some (sys_print_motd F D ebx k)
      else if eax = 18 then Some (sys_spawn F ebx ecx edx k)
      else if eax = 19 then Some (Some (sys_wait ebx (ksched k), k))
      else if eax = 20 then Some (sys_exec F ebx ecx edx k)
      else if eax = 21 then Some (sys_ls D ebx k)
      else if eax = 22 then Some (sys_cat D ebx k)
      else if eax = 23 then Some (sys_chdir D ebx k)
      else if eax = 24 then Some (sys_note D ebx k)
      else if eax = 26 then Some (sys_disk D ebx k)
      else if eax = 28 then Some (Some (word_of_int (get_cursor_offset D (kfiles k)), k))
      else if eax = 29 then Some (Some (sys_set_cursor_offset D ebx k))
      else if eax = 30 then Some (sys_fb_info D ebx k)
      else if eax = 31 then Some (sys_fb_fill_rect D ebx k)
      else if eax = 32 then Some (sys_fb_draw_text D ebx k)
      else if eax = 33 then Some (Some (1, on_files (screen_set_cursor_visible D (ebx \<noteq> 0)) k))
      else if eax = 34 then Some (sys_mouse_state D ebx k)
      else if eax = 35 then Some (Some (1, on_files (mouse_set_draw D (ebx \<noteq> 0)) k))
      else if eax = 36 then Some (Some (let (c, fs) = getkey_nonblock D (kfiles k) in (word_of_int c, k\<lparr>kfiles := fs\<rparr>)))
      else if eax = 37 then Some (Some (sys_gui_bind k))
      else if eax = 38 then Some (sys_gui_send ebx k)
      else if eax = 39 then Some (sys_gui_recv ebx k)
      else if eax = 40 then Some (sys_dir_list F ebx k)
      else None)"

definition start_shell :: "'f fscmd \<Rightarrow> 'f devices \<Rightarrow> 'f \<Rightarrow> 'f" where
  "start_shell F D fs =
     (let fs = orion_config_load D fs;
          fs = parse_bootcmd D fs;
          fs = set_bootlog_enabled D False fs
      in kprint_bytes F [10] fs)"

text \<open>The first line, with the drive and the name of its file system, is printed by \<open>kprintf_root_disk\<close>.\<close>

definition sh_motd :: "'f fscmd \<Rightarrow> 'f devices \<Rightarrow> 'f \<Rightarrow> 'f" where
  "sh_motd F D fs =
     (let fs = kprintf_root_disk D fs;
          fs = (if ramdisk_auto_mount D fs
                then kprint_bytes F (map of_char ''] Disk auto-mount failed and was mounted as a ramdisk.(not persistent)'' @ [10])
                       (kprint_color D (map of_char ''warning'') 14 0 (kprint_bytes F (map of_char ''['') fs))
                else fs);
          fs = cmd_disk_ls D fs
      in snd (fscmd_cd D (map of_char ''/home'' @ [0]) fs))"

text \<open>The other calls: they leave \<open>eax\<close> alone or, like \<open>fork\<close>, write the frame themselves.\<close>

definition syscall_effect ::
  "'f fscmd \<Rightarrow> 'f devices \<Rightarrow> u32 \<Rightarrow> u32 \<Rightarrow> u32 \<Rightarrow> u32 \<Rightarrow> u32 \<Rightarrow> 'f kern \<Rightarrow> 'f kern option" where
  "syscall_effect F D trampoline regs eax ebx ecx k =
     (if eax = 1 then Some (on_files (start_shell F D) k)
      else if eax = 2 then
        (if ebx = 0 then Some k
         else do { s \<leftarrow> load_cstring (kmem k) ebx; Some (on_files (kprint_bytes F (butlast s)) k) })
      else if eax = 3 then Some (on_files (clear_screen D) k)
      else if eax = 4 then Some (on_files (beep D ebx ecx) k)
      else if eax = 5 then Some (on_files (pause D) k)
      else if eax = 6 then
        (let (key, fs) = getkey D (kfiles k) in on_vm (store32 (regs + 28) key) (k\<lparr>kfiles := fs\<rparr>))
      else if eax = 7 then Some (on_files (reboot D) k)
      else if eax = 8 then do { s \<leftarrow> sys_exit trampoline regs ebx (ksched k); Some (k\<lparr>ksched := s\<rparr>) }
      else if eax = 9 then do { (_, s) \<leftarrow> proc_schedule regs True (ksched k); Some (k\<lparr>ksched := s\<rparr>) }
      else if eax = 25 then do { s \<leftarrow> sys_fork regs (ksched k); Some (k\<lparr>ksched := s\<rparr>) }
      else if eax = 27 then Some (on_files (sh_motd F D) k)
      else Some (on_files (kprint_bytes F (map of_char ''[syscall] unknown syscall'' @ [10])) k))"

definition syscall_handler ::
  "'f fscmd \<Rightarrow> 'f devices \<Rightarrow> u32 \<Rightarrow> u32 \<Rightarrow> u32 \<Rightarrow> u32 \<Rightarrow> 'f kern \<Rightarrow> 'f kern option" where
  "syscall_handler F D sysmgr_thread sysmgr_watchdog_thread trampoline regs k = do {
     eax \<leftarrow> load32 (kmem k) (regs + 32);
     ebx \<leftarrow> load32 (kmem k) (regs + 20);
     ecx \<leftarrow> load32 (kmem k) (regs + 28);
     edx \<leftarrow> load32 (kmem k) (regs + 24);
     case syscall_result F D sysmgr_thread sysmgr_watchdog_thread eax ebx ecx edx k of
       Some r \<Rightarrow> do {
         (w, k) \<leftarrow> r;
         s \<leftarrow> set_eax regs w (ksched k);
         Some (k\<lparr>ksched := s\<rparr>) }
     | None \<Rightarrow> syscall_effect F D trampoline regs eax ebx ecx k }"

end
