(* ===== verification/Elf_Safety.thy ===== *)
theory Elf_Safety
  imports Elf_Loader
begin

text \<open>
  What the checks of the ELF loader guarantee: the segments of an accepted file lie in the file and
  in the image, and the addresses given to images that can be moved do not overlap.
\<close>

section \<open>Alignment\<close>

lemma mask12: "(4096 :: u32) - 1 = mask 12"
  by (simp add: mask_eq_exp_minus_1)

lemma elf_align_down_unat: "unat (elf_align_down v 4096) = unat v - unat v mod 4096"
  unfolding elf_align_down_def mask12 unat_and_not_mask by simp

lemma elf_align_down_le: "elf_align_down v 4096 \<le> v"
  by (simp add: word_le_nat_alt elf_align_down_unat)

text \<open>Rounding up, and the only way it can go wrong: the value is too close to the end of the address space.\<close>

lemma elf_align_up_unat:
  assumes "elf_align_up v 4096 \<noteq> 0"
  shows "unat v \<le> unat (elf_align_up v 4096)" and "unat (elf_align_up v 4096) mod 4096 = 0"
    and "unat (elf_align_up v 4096) < unat v + 4096"
proof -
  have u: "elf_align_up v 4096 = (v + 0xFFF) AND NOT (mask 12)"
    unfolding elf_align_up_def mask12 by (simp add: algebra_simps)
  have nw: "unat v + 0xFFF < 2 ^ 32"
  proof (rule ccontr)
    assume c: "\<not> unat v + 0xFFF < 2 ^ 32"
    have "unat (v + 0xFFF) = (unat v + 0xFFF) mod 2 ^ 32" by (simp add: unat_word_ariths)
    also have "\<dots> = unat v + 0xFFF - 2 ^ 32" using c unat_lt_exp [of v] by (simp add: mod_if)
    finally have "unat (v + 0xFFF) < 4096" using unat_lt_exp [of v] by simp
    then have "unat (elf_align_up v 4096) = 0" unfolding u unat_and_not_mask by simp
    then show False using assms by (simp add: unat_eq_0)
  qed
  have s: "unat (v + 0xFFF) = unat v + 0xFFF" using nw by (subst unat_add_no_wrap) simp_all
  have e: "unat (elf_align_up v 4096) = (unat v + 0xFFF) - (unat v + 0xFFF) mod 4096"
    unfolding u unat_and_not_mask s by simp
  show "unat v \<le> unat (elf_align_up v 4096)" unfolding e by linarith
  show "unat (elf_align_up v 4096) mod 4096 = 0" unfolding e by (simp add: minus_mod_eq_mult_div)
  show "unat (elf_align_up v 4096) < unat v + 4096" unfolding e by linarith
qed

lemma elf_align_up_nonzero:
  assumes "unat v + 4096 < 2 ^ 32" "0 < unat v"
  shows "elf_align_up v 4096 \<noteq> 0"
proof
  assume z: "elf_align_up v 4096 = 0"
  have u: "elf_align_up v 4096 = (v + 0xFFF) AND NOT (mask 12)"
    unfolding elf_align_up_def mask12 by (simp add: algebra_simps)
  have s: "unat (v + 0xFFF) = unat v + 0xFFF" using assms by (subst unat_add_no_wrap) simp_all
  have "unat (elf_align_up v 4096) = (unat v + 0xFFF) - (unat v + 0xFFF) mod 4096"
    unfolding u unat_and_not_mask s by simp
  then have "(unat v + 0xFFF) - (unat v + 0xFFF) mod 4096 = 0" using z by simp
  moreover have "(unat v + 0xFFF) mod 4096 < 4096" by simp
  ultimately show False using assms(2) by linarith
qed

lemma unat_ucast64: "unat (ucast (w :: u32) :: u64) = unat w"
  using unat_lt_exp [of w] by (simp add: unsigned_ucast_eq take_bit_nat_eq_self)

section \<open>Segments\<close>

definition segment_in :: "u32 \<Rightarrow> u32 \<Rightarrow> u32 \<Rightarrow> Elf32_Phdr \<Rightarrow> bool" where
  "segment_in sz lo hi ph \<longleftrightarrow> p_filesz ph \<le> p_memsz ph \<and> p_offset ph \<le> sz \<and> p_offset ph + p_filesz ph \<le> sz
     \<and> lo \<le> p_vaddr ph \<and> p_vaddr ph \<le> p_vaddr ph + p_memsz ph \<and> p_vaddr ph + p_memsz ph \<le> hi"

lemma elf_extent_segments:
  "elf_extent sz phs lo hi = Some (lo', hi') \<Longrightarrow>
   lo' \<le> lo \<and> hi \<le> hi' \<and> (\<forall>ph \<in> set phs. loadable ph \<longrightarrow> segment_in sz lo' hi' ph)"
proof (induction sz phs lo hi rule: elf_extent.induct)
  case (1 sz lo hi)
  then show ?case by simp
next
  case (2 sz ph phs lo hi)
  show ?case
  proof (cases "loadable ph")
    case False
    then show ?thesis using 2 by simp
  next
    case True
    let ?e = "p_vaddr ph + p_memsz ph"
    have g: "p_filesz ph \<le> p_memsz ph" "p_offset ph \<le> sz" "p_offset ph + p_filesz ph \<le> sz" "p_vaddr ph \<le> ?e"
      using 2(3) True by (auto simp: Let_def not_less split: if_splits)
    then have r: "elf_extent sz phs (if p_vaddr ph < lo then p_vaddr ph else lo) (if hi < ?e then ?e else hi) = Some (lo', hi')"
      using 2(3) True by (simp add: Let_def not_less [symmetric])
    have IH: "lo' \<le> (if p_vaddr ph < lo then p_vaddr ph else lo)" "(if hi < ?e then ?e else hi) \<le> hi'"
      "\<forall>ph \<in> set phs. loadable ph \<longrightarrow> segment_in sz lo' hi' ph"
      using 2(2) [OF _ _ _ refl _ r] True g by (simp_all add: not_less [symmetric])
    have "lo' \<le> lo" "lo' \<le> p_vaddr ph" using IH(1) by (auto split: if_splits)
    moreover have "hi \<le> hi'" "?e \<le> hi'" using IH(2) by (auto split: if_splits)
    ultimately show ?thesis using IH(3) g by (simp add: segment_in_def)
  qed
qed

text \<open>What an accepted header says.\<close>

lemma elf_check_accepted:
  assumes "elf_check f sz = Some (Inr p)"
  obtains lo hi where "\<forall>ph \<in> set (plan_phdrs p). loadable ph \<longrightarrow> segment_in sz lo hi ph"
    "plan_base p = elf_align_down lo 4096" "plan_size p = elf_align_up (hi - plan_base p) 4096" "plan_size p \<noteq> 0"
    "lo \<le> plan_entry p" "plan_entry p < hi" "\<not> plan_pie p \<longrightarrow> 0x08000000 \<le> lo \<and> hi \<le> 0xBFFFFFFF"
proof -
  obtain eh where eh: "read_ehdr f = Some eh" using assms by (auto simp: elf_check_def split: Option.bind_splits)
  obtain phs where phs: "read_phdrs f (unat (e_phoff eh)) (unat (e_phnum eh)) = Some phs"
    using assms eh by (auto simp: elf_check_def split: Option.bind_splits if_splits)
  obtain lo hi where x: "elf_extent sz phs 0xFFFFFFFF 0 = Some (lo, hi)"
    using assms eh phs by (auto simp: elf_check_def split: option.splits if_splits)
  let ?b = "elf_align_down lo 4096"
  have c: "p = \<lparr>plan_entry = e_entry eh, plan_phdrs = phs, plan_pie = (e_type eh = 3), plan_base = ?b,
        plan_size = elf_align_up (hi - ?b) 4096\<rparr>"
    "lo \<le> e_entry eh" "e_entry eh < hi" "elf_align_up (hi - ?b) 4096 \<noteq> 0"
    "e_type eh \<noteq> 3 \<Longrightarrow> 0x08000000 \<le> lo \<and> hi \<le> 0xBFFFFFFF"
    using assms eh phs x by (auto simp: elf_check_def Let_def not_less not_le split: if_splits)
  show thesis
    by (rule that [of lo hi]) (use c elf_extent_segments [OF x] in simp_all)
qed

section \<open>Bounds of an accepted file\<close>

lemma elf_load_base_size:
  assumes "elf_load_base p next = (b, next')" "b \<noteq> 0" "plan_pie p"
  shows "unat (plan_size p) \<le> 0xB8000000"
proof -
  define m where "m = (if plan_base p < 0x08000000 then 0x08000000 else plan_base p)"
  define a where "a = (if next < m then m else next)"
  have "b = elf_align_up a 4096" and e: "\<not> (0xC0000000 :: u64) < ucast b + ucast (plan_size p)"
    using assms by (auto simp: elf_load_base_def choose_pie_base_def Let_def m_def [symmetric] a_def [symmetric] split: if_splits)
  then have "unat a \<le> unat b" using elf_align_up_unat(1) assms(2) by blast
  moreover have "0x08000000 \<le> unat a"
    by (auto simp: a_def m_def word_less_nat_alt word_le_nat_alt not_less)
  moreover have "unat b + unat (plan_size p) \<le> 0xC0000000"
  proof -
    have "unat (ucast b + ucast (plan_size p) :: u64) = unat b + unat (plan_size p)"
      using unat_lt_exp [of b] unat_lt_exp [of "plan_size p"] by (subst unat_add_no_wrap) (simp_all add: unat_ucast64)
    then show ?thesis using e by (simp add: word_less_nat_alt not_less)
  qed
  ultimately show ?thesis by linarith
qed

lemma segment_place:
  assumes "segment_in sz lo hi ph" "b = elf_align_down lo 4096" "s = elf_align_up (hi - b) 4096" "s \<noteq> 0"
  shows "b \<le> p_vaddr ph" and "unat (p_vaddr ph - b) + unat (p_memsz ph) \<le> unat s"
proof -
  have g: "lo \<le> p_vaddr ph" "p_vaddr ph \<le> p_vaddr ph + p_memsz ph" "p_vaddr ph + p_memsz ph \<le> hi"
    using assms(1) by (simp_all add: segment_in_def)
  show b: "b \<le> p_vaddr ph" using elf_align_down_le [of lo] g(1) assms(2) by simp
  have "unat (p_vaddr ph + p_memsz ph) = unat (p_vaddr ph) + unat (p_memsz ph)"
    using g(2) unat_lt_exp [of "p_memsz ph"] by (simp add: word_le_nat_alt unat_plus_if_size word_size split: if_splits)
  moreover have "unat (p_vaddr ph - b) = unat (p_vaddr ph) - unat b" "unat (hi - b) = unat hi - unat b"
    using b g by (auto intro!: unat_sub)
  moreover have "unat (hi - b) \<le> unat s" unfolding assms(3) using elf_align_up_unat(1) assms(3,4) by blast
  moreover have "unat b \<le> unat (p_vaddr ph)" using b by (simp add: word_le_nat_alt)
  ultimately show "unat (p_vaddr ph - b) + unat (p_memsz ph) \<le> unat s"
    using g(3) by (simp add: word_le_nat_alt)
qed

lemma segment_memsz: "segment_in sz lo hi ph \<Longrightarrow> unat lo + unat (p_memsz ph) \<le> unat hi"
  using unat_lt_exp [of "p_memsz ph"]
  by (auto simp: segment_in_def word_le_nat_alt unat_plus_if_size word_size split: if_splits)

text \<open>Loops that always find the segment in place.\<close>

definition segment_copy :: "bytes \<Rightarrow> u32 \<Rightarrow> u32 \<Rightarrow> Elf32_Phdr \<Rightarrow> 'f kern \<Rightarrow> 'f kern option" where
  "segment_copy f img b ph = on_vm (store_bytes (img + (p_vaddr ph - b))
     (take (unat (p_filesz ph)) (drop (unat (p_offset ph)) f)))"

lemma copy_segments_all:
  assumes "\<forall>ph \<in> set phs. loadable ph \<longrightarrow> unat (p_offset ph) + unat (p_filesz ph) \<le> length f
    \<and> unat (p_vaddr ph - b) + unat (p_memsz ph) \<le> unat s"
  shows "copy_segments f img b s phs k =
    map_option (Pair True) (for_each (segment_copy f img b) (filter (\<lambda>ph. loadable ph \<and> 0 < p_filesz ph) phs) k)"
  using assms
proof (induction phs arbitrary: k)
  case Nil
  then show ?case by simp
next
  case (Cons ph phs)
  have "\<not> s < p_vaddr ph - b + p_memsz ph" if "loadable ph"
  proof -
    have "unat (p_vaddr ph - b) + unat (p_memsz ph) < 2 ^ 32"
      using Cons.prems that unat_lt_exp [of s] by fastforce
    then show ?thesis using Cons.prems that by (simp add: word_less_nat_alt unat_add_no_wrap)
  qed
  then show ?case using Cons by (auto simp: segment_copy_def Let_def split: Option.bind_split)
qed

section \<open>Load addresses\<close>

lemma choose_pie_base_place:
  assumes "choose_pie_base sz mn next = (b, next')" "b \<noteq> 0"
  shows "unat next \<le> unat b" "unat mn \<le> unat b" "unat b mod 4096 = 0" "unat b + unat sz \<le> 0xC0000000"
    "unat b + unat sz + 4096 \<le> unat next'"
proof -
  define a where "a = (if next < mn then mn else next)"
  define e where "e = (ucast b :: u64) + ucast sz"
  have b: "b = elf_align_up a 4096" and e: "\<not> (0xC0000000 :: u64) < e" and n: "next' = elf_align_up (ucast e + 4096) 4096"
    using assms by (auto simp: choose_pie_base_def Let_def a_def [symmetric] e_def split: if_splits)
  have "elf_align_up a 4096 \<noteq> 0" using assms(2) b by simp
  note au = elf_align_up_unat [OF this, folded b]
  have ab: "unat a \<le> unat b" by (rule au(1))
  show "unat b mod 4096 = 0" by (rule au(2))
  show "unat next \<le> unat b" "unat mn \<le> unat b"
    using ab by (auto simp: a_def word_less_nat_alt not_less split: if_splits)
  have ue: "unat e = unat b + unat sz"
    using unat_lt_exp [of b] unat_lt_exp [of sz] unfolding e_def
    by (subst unat_add_no_wrap) (simp_all add: unat_ucast64)
  then show le: "unat b + unat sz \<le> 0xC0000000" using e by (simp add: word_less_nat_alt not_less)
  have "unat (ucast e :: u32) = unat e"
    using le ue by (simp add: unsigned_ucast_eq take_bit_nat_eq_self)
  then have u: "unat ((ucast e :: u32) + 4096) = unat b + unat sz + 4096"
    using le ue by (subst unat_add_no_wrap) simp_all
  then have "unat ((ucast e :: u32) + 4096) + 4096 < 2 ^ 32" "0 < unat ((ucast e :: u32) + 4096)" using le by simp_all
  then have "elf_align_up (ucast e + 4096) 4096 \<noteq> 0" by (rule elf_align_up_nonzero)
  then have "unat ((ucast e :: u32) + 4096) \<le> unat next'" unfolding n by (rule elf_align_up_unat(1))
  then show "unat b + unat sz + 4096 \<le> unat next'" unfolding u .
qed

section \<open>Properties\<close>

text \<open>
  C4: The ELF loader is memory safe for every file smaller than 1152 MiB: when the header of the file
  is accepted and a load address is found, each loadable segment is read from within the file, fits
  into the image together with its zeroed rest, the entry point lies in the image, and the copying
  loop never fails but copies exactly the segments that have bytes in the file.
\<close>

theorem elf_segments_in_bounds:
  assumes "elf_check f sz = Some (Inr p)" "length f = unat sz" "sz < 0x48000000"
    and "elf_load_base p next = (b, next')" "b \<noteq> 0"
  shows "(\<forall>ph \<in> set (plan_phdrs p). loadable ph \<longrightarrow>
        unat (p_offset ph) + unat (p_filesz ph) \<le> length f
      \<and> plan_base p \<le> p_vaddr ph \<and> p_filesz ph \<le> p_memsz ph
      \<and> unat (p_vaddr ph - plan_base p) + unat (p_memsz ph) \<le> unat (plan_size p))
    \<and> plan_entry p - plan_base p < plan_size p
    \<and> copy_segments f img (plan_base p) (plan_size p) (plan_phdrs p) k = map_option (Pair True)
        (for_each (segment_copy f img (plan_base p)) (filter (\<lambda>ph. loadable ph \<and> 0 < p_filesz ph) (plan_phdrs p)) k)"
proof -
  obtain lo hi where a: "\<forall>ph \<in> set (plan_phdrs p). loadable ph \<longrightarrow> segment_in sz lo hi ph"
    "plan_base p = elf_align_down lo 4096" "plan_size p = elf_align_up (hi - plan_base p) 4096" "plan_size p \<noteq> 0"
    "lo \<le> plan_entry p" "plan_entry p < hi" "\<not> plan_pie p \<longrightarrow> 0x08000000 \<le> lo \<and> hi \<le> 0xBFFFFFFF"
    by (rule elf_check_accepted [OF assms(1)])
  have seg: "unat (p_offset ph) + unat (p_filesz ph) \<le> length f \<and> plan_base p \<le> p_vaddr ph
      \<and> p_filesz ph \<le> p_memsz ph \<and> unat (p_vaddr ph - plan_base p) + unat (p_memsz ph) \<le> unat (plan_size p)"
    if "ph \<in> set (plan_phdrs p)" "loadable ph" for ph
  proof -
    have s: "segment_in sz lo hi ph" using a(1) that by blast
    note pl = segment_place [OF s a(2,3,4)]
    have "unat (p_memsz ph) \<le> 0xB8000000"
    proof (cases "plan_pie p")
      case True
      then show ?thesis using elf_load_base_size [OF assms(4,5)] pl(2) by linarith
    next
      case False
      then show ?thesis using segment_memsz [OF s] a(7) by (fastforce simp: word_le_nat_alt)
    qed
    then have "unat (p_offset ph) + unat (p_filesz ph) < 2 ^ 32"
      using s assms(3) by (simp add: segment_in_def word_le_nat_alt word_less_nat_alt)
    then have "unat (p_offset ph) + unat (p_filesz ph) \<le> unat sz"
      using s by (simp add: segment_in_def word_le_nat_alt unat_add_no_wrap)
    then show ?thesis using pl s assms(2) by (simp add: segment_in_def)
  qed
  have "plan_base p \<le> lo" using elf_align_down_le a(2) by simp
  then have "unat (plan_entry p - plan_base p) < unat (hi - plan_base p)"
    using a(5,6) by (simp add: unat_sub word_le_nat_alt word_less_nat_alt)
  also have "\<dots> \<le> unat (plan_size p)" using elf_align_up_unat(1) a(3,4) by metis
  finally have "plan_entry p - plan_base p < plan_size p" by (simp add: word_less_nat_alt)
  then show ?thesis using seg copy_segments_all [of "plan_phdrs p" f "plan_base p" "plan_size p" img k] by blast
qed

text \<open>A file with one segment of 84 bytes from the file and 16 of zeroes, that can be loaded anywhere.\<close>

definition tiny_elf :: bytes where
  "tiny_elf = [127, 69, 76, 70, 1, 1, 1, 0, 0, 0, 0, 0, 0, 0, 0, 0, 3, 0, 3, 0, 1, 0, 0, 0, 84, 0, 0, 0, 52,
     0, 0, 0, 0, 0, 0, 0, 0, 0, 0, 0, 52, 0, 32, 0, 1, 0, 0, 0, 0, 0, 0, 0, 1, 0, 0, 0, 0, 0, 0, 0,
     0, 0, 0, 0, 0, 0, 0, 0, 84, 0, 0, 0, 100, 0, 0, 0, 5, 0, 0, 0, 0, 16, 0, 0]"

definition tiny_plan :: elf_plan where
  "tiny_plan = \<lparr>plan_entry = 0x54, plan_phdrs = [\<lparr>p_type = 1, p_offset = 0, p_vaddr = 0, p_filesz = 84, p_memsz = 100\<rparr>],
     plan_pie = True, plan_base = 0, plan_size = 4096\<rparr>"

lemma tiny_elf_check: "elf_check tiny_elf 84 = Some (Inr tiny_plan)"
  by code_simp

lemma tiny_elf_base: "elf_load_base tiny_plan 0x08000000 = (0x08000000, 0x08002000)"
  by code_simp

theorem elf_segments_in_bounds_witness:
  "length tiny_elf = 84 \<and> elf_check tiny_elf 84 = Some (Inr tiny_plan)
   \<and> elf_load_base tiny_plan 0x08000000 = (0x08000000, 0x08002000)
   \<and> (\<forall>img (k :: unit kern). copy_segments tiny_elf img 0 4096 (plan_phdrs tiny_plan) k = map_option (Pair True)
       (for_each (segment_copy tiny_elf img 0) (plan_phdrs tiny_plan) k))"
proof -
  have l: "length tiny_elf = unat (84 :: u32)" by (simp add: tiny_elf_def)
  have p: "plan_base tiny_plan = 0" "plan_size tiny_plan = 4096"
    "filter (\<lambda>ph. loadable ph \<and> 0 < p_filesz ph) (plan_phdrs tiny_plan) = plan_phdrs tiny_plan"
    by (simp_all add: tiny_plan_def loadable_def)
  have "copy_segments tiny_elf img 0 4096 (plan_phdrs tiny_plan) k = map_option (Pair True)
      (for_each (segment_copy tiny_elf img 0) (plan_phdrs tiny_plan) k)" for img and k :: "unit kern"
    using elf_segments_in_bounds [OF tiny_elf_check l _ tiny_elf_base, of img k] unfolding p by simp
  then show ?thesis using l tiny_elf_check tiny_elf_base by simp
qed

text \<open>
  C32: Images that can be moved get page-aligned addresses in the user's part of the address space, from
  0x08000000 up to 0xC0000000, and of two images loaded one after the other the second starts at least
  one page behind the end of the first.
\<close>

theorem choose_pie_base_disjoint:
  assumes "choose_pie_base sz1 min1 next = (b1, next1)" "b1 \<noteq> 0" "0x08000000 \<le> min1"
    and "choose_pie_base sz2 min2 next1 = (b2, next2)" "b2 \<noteq> 0"
  shows "0x08000000 \<le> unat b1 \<and> unat b1 mod 4096 = 0 \<and> unat b1 + unat sz1 \<le> 0xC0000000
    \<and> unat b1 + unat sz1 + 4096 \<le> unat b2"
proof -
  note c1 = choose_pie_base_place [OF assms(1,2)] and c2 = choose_pie_base_place [OF assms(4,5)]
  have "0x08000000 \<le> unat b1" using c1(2) assms(3) by (simp add: word_le_nat_alt)
  then show ?thesis using c1 c2 by simp
qed

theorem choose_pie_base_disjoint_witness:
  "choose_pie_base 0x3000 0x08000000 0x08000000 = (0x08000000, 0x08004000)
   \<and> choose_pie_base 0x1000 0x08000000 0x08004000 = (0x08004000, 0x08006000)
   \<and> unat (0x08000000 :: u32) + unat (0x3000 :: u32) + 4096 \<le> unat (0x08004000 :: u32)"
proof -
  have "choose_pie_base 0x3000 0x08000000 0x08000000 = (0x08000000, 0x08004000)"
    "choose_pie_base 0x1000 0x08000000 0x08004000 = (0x08004000, 0x08006000)" by code_simp+
  with choose_pie_base_disjoint [OF this(1) _ _ this(2)] show ?thesis by simp
qed

end
