(* ===== verification/Scheduling.thy ===== *)
theory Scheduling
  imports Proc
begin

text \<open>
  The scheduler: the process table stays well-formed with at most one running process, killing and
  reaping do what their results say, and the search for the next process is a fair round robin.
\<close>

section \<open>Frame lemmas\<close>

lemma set_proc_simps [simp]:
  "proc_table (set_proc i f st) = (proc_table st)[i := f (proc_at st i)]"
  "current_proc (set_proc i f st) = current_proc st"
  "current_index (set_proc i f st) = current_index st"
  "next_pid (set_proc i f st) = next_pid st"
  "proc_reaper_enabled (set_proc i f st) = proc_reaper_enabled st"
  "foreground_pid (set_proc i f st) = foreground_pid st"
  "kill_requested_pid (set_proc i f st) = kill_requested_pid st"
  "mmu (set_proc i f st) = mmu st" "fd_table (set_proc i f st) = fd_table st" "cpu_esp (set_proc i f st) = cpu_esp st"
  by (simp_all add: set_proc_def)

lemma sched_kfree_simps [simp]:
  "proc_table (sched_kfree p st) = proc_table st" "current_proc (sched_kfree p st) = current_proc st"
  "current_index (sched_kfree p st) = current_index st" "next_pid (sched_kfree p st) = next_pid st"
  "proc_reaper_enabled (sched_kfree p st) = proc_reaper_enabled st" "mmu (sched_kfree p st) = mmu st"
  "fd_table (sched_kfree p st) = fd_table st" "foreground_pid (sched_kfree p st) = foreground_pid st"
  "cpu_esp (sched_kfree p st) = cpu_esp st"
  by (simp_all add: sched_kfree_def)

lemma proc_cleanup_simps [simp]:
  "proc_table (proc_cleanup i st) = (proc_table st)[i := proc_zero]"
  "current_proc (proc_cleanup i st) = current_proc st"
  "current_index (proc_cleanup i st) = current_index st" "next_pid (proc_cleanup i st) = next_pid st"
  "proc_reaper_enabled (proc_cleanup i st) = proc_reaper_enabled st" "mmu (proc_cleanup i st) = mmu st"
  "cpu_esp (proc_cleanup i st) = cpu_esp st"
  "fd_table (proc_cleanup i st) = sys_close_fds_for_pid (pid (proc_at st i)) (fd_table st)"
  by (simp_all add: proc_cleanup_def Let_def sys_close_fds_for_pid_def)

lemma proc_log_user_map_procs:
  "proc_log_user_map i st = Some st' \<Longrightarrow>
   proc_table st' = proc_table st \<and> current_proc st' = current_proc st \<and> current_index st' = current_index st
   \<and> next_pid st' = next_pid st"
  by (auto simp: proc_log_user_map_def Let_def split: if_splits Option.bind_splits)

lemma load_process_procs:
  "load_process i st = Some st' \<Longrightarrow>
   proc_table st' = proc_table st \<and> current_proc st' = current_proc st \<and> current_index st' = current_index st
   \<and> next_pid st' = next_pid st"
  by (auto simp: load_process_def tss_set_kernel_stack_def Let_def split: if_splits dest!: proc_log_user_map_procs)

lemma proc_zero_simps [simp]:
  "state proc_zero = PROC_UNUSED" "pid proc_zero = 0" "context_esp proc_zero = 0"
  by (simp_all add: proc_zero_def)

section \<open>Reaping\<close>

text \<open>An entry that may be cleaned.\<close>

definition reapable :: "sched \<Rightarrow> u32 \<Rightarrow> nat \<Rightarrow> bool" where
  "reapable st esp i \<longleftrightarrow> state (proc_at st i) = PROC_EXITED \<and> current_proc st \<noteq> Some i
     \<and> \<not> proc_stack_in_use (proc_at st i) esp"

lemma reap_one_table:
  "proc_table (reap_one esp i st) = (if reapable st esp i then (proc_table st)[i := proc_zero] else proc_table st)"
  by (simp add: reap_one_def reapable_def Let_def)

lemma reap_one_simps [simp]:
  "current_proc (reap_one esp i st) = current_proc st" "current_index (reap_one esp i st) = current_index st"
  "next_pid (reap_one esp i st) = next_pid st" "mmu (reap_one esp i st) = mmu st"
  "cpu_esp (reap_one esp i st) = cpu_esp st"
  "proc_reaper_enabled (reap_one esp i st) = proc_reaper_enabled st"
  by (simp_all add: reap_one_def Let_def)

lemma fold_reap_simps [simp]:
  "current_proc (fold (reap_one esp) is st) = current_proc st"
  "current_index (fold (reap_one esp) is st) = current_index st"
  "next_pid (fold (reap_one esp) is st) = next_pid st" "mmu (fold (reap_one esp) is st) = mmu st"
  "proc_reaper_enabled (fold (reap_one esp) is st) = proc_reaper_enabled st"
  "length (proc_table (fold (reap_one esp) is st)) = length (proc_table st)"
  by (induction "is" arbitrary: st) (simp_all add: reap_one_table)

lemma fold_reap_table:
  assumes "distinct is" "\<forall>i \<in> set is. i < length (proc_table st)"
  shows "proc_at (fold (reap_one esp) is st) j = (if j \<in> set is \<and> reapable st esp j then proc_zero else proc_at st j)"
  using assms
proof (induction "is" arbitrary: st)
  case Nil
  then show ?case by simp
next
  case (Cons i "is")
  let ?st = "reap_one esp i st"
  have "reapable ?st esp j \<longleftrightarrow> reapable st esp j" if "j \<noteq> i" for j
    using that by (simp add: reapable_def reap_one_table)
  then show ?case
    using Cons by (auto simp: reap_one_table nth_list_update)
qed

lemma proc_reap_table:
  assumes "length (proc_table st) = MAX_PROCS"
  shows "proc_at (proc_reap st) j = (if j < MAX_PROCS \<and> reapable st (cpu_esp st) j then proc_zero else proc_at st j)"
  unfolding proc_reap_def proc_get_current_esp_def
  by (subst fold_reap_table) (use assms in auto)

lemma proc_reap_simps [simp]:
  "current_proc (proc_reap st) = current_proc st" "current_index (proc_reap st) = current_index st"
  "next_pid (proc_reap st) = next_pid st" "mmu (proc_reap st) = mmu st"
  "length (proc_table (proc_reap st)) = length (proc_table st)"
  by (simp_all add: proc_reap_def)

section \<open>Round robin\<close>

abbreviation eligible :: "process \<Rightarrow> bool" where
  "eligible p \<equiv> proc_is_runnable p \<and> context_esp p \<noteq> 0"


text \<open>The \<open>m\<close>-th entry the search looks at.\<close>

lemma find_next_from_hit:
  assumes "- 1 \<le> c" "c < int MAX_PROCS"
  shows "find_next_from ps c n = (case first_index (\<lambda>m. eligible (ps ! nat ((c + 1 + int m) mod int MAX_PROCS))) [0..<n] of
     None \<Rightarrow> - 1 | Some m \<Rightarrow> (c + 1 + int m) mod int MAX_PROCS)"
  using assms
proof (induction n arbitrary: c)
  case 0
  then show ?case by simp
next
  case (Suc n)
  let ?c = "(c + 1) mod int MAX_PROCS"
  have c: "(if c + 1 \<ge> int MAX_PROCS then 0 else c + 1) = ?c" using Suc.prems by (cases "c = 15") auto
  have r: "- 1 \<le> ?c" "?c < int MAX_PROCS" by (simp_all add: order_trans [OF _ pos_mod_sign])
  have sh: "(?c + 1 + int m) mod int MAX_PROCS = (c + 1 + int (Suc m)) mod int MAX_PROCS" for m
    using mod_add_left_eq [of "c + 1" "int MAX_PROCS" "1 + int m"] by (simp add: algebra_simps)
  have "find_next_from ps c (Suc n) = (if eligible (ps ! nat ?c) then ?c else find_next_from ps ?c n)"
    using c by (simp add: Let_def)
  also have "\<dots> = (case first_index (\<lambda>m. eligible (ps ! nat ((c + 1 + int m) mod int MAX_PROCS))) [0..<Suc n] of
     None \<Rightarrow> - 1 | Some m \<Rightarrow> (c + 1 + int m) mod int MAX_PROCS)"
    unfolding Suc.IH [OF r] upt_conv_Cons [OF zero_less_Suc] map_Suc_upt [symmetric] first_index.simps first_index_map sh o_def
    by (simp split: option.split del: upt_Suc of_nat_Suc)
  finally show ?case .
qed







text \<open>Without an eligible process the search fails.\<close>

lemma find_next_none:
  assumes "- 1 \<le> c" "c < int MAX_PROCS" "\<forall>j < MAX_PROCS. \<not> eligible (ps ! j)"
  shows "find_next_from ps c MAX_PROCS = - 1"
proof -
  let ?P = "\<lambda>m. eligible (ps ! nat ((c + 1 + int m) mod int MAX_PROCS))"
  have "first_index ?P [0..<MAX_PROCS] = None"
    unfolding first_index_None_iff using assms(3) by (simp add: nat_less_iff del: upt_rec_numeral)
  then show ?thesis unfolding find_next_from_hit [OF assms(1,2)] by simp
qed

section \<open>Well-formed process tables\<close>

text \<open>
  The table has its fixed length, the index and the pointer of the current process agree, only the
  current process is running, and a process number is given only once.
\<close>

definition pids_ok :: "sched \<Rightarrow> bool" where
  "pids_ok st \<longleftrightarrow> (\<forall>i < MAX_PROCS. pid (proc_at st i) < next_pid st)
     \<and> (\<forall>i < MAX_PROCS. \<forall>j < MAX_PROCS. pid (proc_at st i) = pid (proc_at st j) \<and> pid (proc_at st i) \<noteq> 0 \<longrightarrow> i = j)"

definition sched_ok :: "sched \<Rightarrow> bool" where
  "sched_ok st \<longleftrightarrow> length (proc_table st) = MAX_PROCS \<and> - 1 \<le> current_index st \<and> current_index st < int MAX_PROCS
     \<and> (\<forall>c. current_proc st = Some c \<longrightarrow> c < MAX_PROCS \<and> current_index st = int c)
     \<and> (\<forall>i < MAX_PROCS. state (proc_at st i) = PROC_RUNNING \<longrightarrow> current_proc st = Some i)
     \<and> pids_ok st"

text \<open>A step that changes neither the current process nor process numbers, except to clear them, and starts nothing.\<close>

definition calm :: "sched \<Rightarrow> sched \<Rightarrow> bool" where
  "calm st st' \<longleftrightarrow> length (proc_table st') = length (proc_table st) \<and> next_pid st' = next_pid st
     \<and> (\<forall>i < length (proc_table st). (pid (proc_at st' i) = pid (proc_at st i) \<or> pid (proc_at st' i) = 0)
          \<and> (state (proc_at st' i) = PROC_RUNNING \<longrightarrow> state (proc_at st i) = PROC_RUNNING))"

lemma calm_refl [simp, intro]: "calm st st"
  by (simp add: calm_def)

lemma calm_at:
  assumes "calm st st'" "i < length (proc_table st)"
  shows "pid (proc_at st' i) = pid (proc_at st i) \<or> pid (proc_at st' i) = 0"
    and "state (proc_at st' i) = PROC_RUNNING \<Longrightarrow> state (proc_at st i) = PROC_RUNNING"
  using assms by (auto simp: calm_def)

lemma calm_trans [trans]:
  assumes "calm a b" "calm b c"
  shows "calm a c"
proof -
  have l: "length (proc_table b) = length (proc_table a)" "length (proc_table c) = length (proc_table a)"
    "next_pid c = next_pid a" using assms by (simp_all add: calm_def)
  have "(pid (proc_at c i) = pid (proc_at a i) \<or> pid (proc_at c i) = 0)
      \<and> (state (proc_at c i) = PROC_RUNNING \<longrightarrow> state (proc_at a i) = PROC_RUNNING)" if "i < length (proc_table a)" for i
    using calm_at [OF assms(1) that] calm_at [OF assms(2), of i] that l(1) by auto
  then show ?thesis using l by (simp add: calm_def)
qed

lemma pids_ok_calm:
  assumes "pids_ok st" "calm st st'" "length (proc_table st) = MAX_PROCS"
  shows "pids_ok st'"
proof -
  have p: "pid (proc_at st' i) = pid (proc_at st i) \<or> pid (proc_at st' i) = 0" if "i < MAX_PROCS" for i
    using assms(2,3) that by (simp add: calm_def)
  have n: "next_pid st' = next_pid st" using assms(2) by (simp add: calm_def)
  have lt: "pid (proc_at st i) < next_pid st" if "i < MAX_PROCS" for i using assms(1) that by (simp add: pids_ok_def)
  have "pid (proc_at st' i) < next_pid st'" if "i < MAX_PROCS" for i
  proof -
    have "0 < next_pid st" using lt [OF that] by (simp add: word_less_nat_alt)
    then show ?thesis using p [OF that] lt [OF that] n by auto
  qed
  moreover have "i = j" if "i < MAX_PROCS" "j < MAX_PROCS" "pid (proc_at st' i) = pid (proc_at st' j)" "pid (proc_at st' i) \<noteq> 0" for i j
  proof -
    have "pid (proc_at st i) = pid (proc_at st j)" "pid (proc_at st i) \<noteq> 0"
      using p [OF that(1)] p [OF that(2)] that(3,4) by auto
    then show ?thesis using assms(1) that(1,2) by (simp add: pids_ok_def)
  qed
  ultimately show ?thesis unfolding pids_ok_def by blast
qed

lemma sched_okI:
  assumes "length (proc_table st) = MAX_PROCS" "- 1 \<le> current_index st" "current_index st < int MAX_PROCS"
    and "\<And>c. current_proc st = Some c \<Longrightarrow> c < MAX_PROCS \<and> current_index st = int c"
    and "\<And>i. i < MAX_PROCS \<Longrightarrow> state (proc_at st i) = PROC_RUNNING \<Longrightarrow> current_proc st = Some i" "pids_ok st"
  shows "sched_ok st"
  unfolding sched_ok_def using assms by blast

lemma sched_okD:
  assumes "sched_ok st"
  shows "length (proc_table st) = MAX_PROCS" "- 1 \<le> current_index st" "current_index st < int MAX_PROCS"
    and "\<And>c. current_proc st = Some c \<Longrightarrow> c < MAX_PROCS \<and> current_index st = int c"
    and "\<And>i. i < MAX_PROCS \<Longrightarrow> state (proc_at st i) = PROC_RUNNING \<Longrightarrow> current_proc st = Some i" "pids_ok st"
  using assms unfolding sched_ok_def by blast+

lemma calm_length: "calm st st' \<Longrightarrow> length (proc_table st') = length (proc_table st)"
  by (simp add: calm_def)

lemma sched_ok_calm:
  assumes "sched_ok st" "calm st st'"
    and "current_proc st' = current_proc st" "current_index st' = current_index st"
  shows "sched_ok st'"
proof -
  note ok = sched_okD [OF assms(1)]
  show ?thesis
  proof (rule sched_okI)
    show "pids_ok st'" by (rule pids_ok_calm [OF ok(6) assms(2) ok(1)])
    show "current_proc st' = Some i" if "i < MAX_PROCS" "state (proc_at st' i) = PROC_RUNNING" for i
      unfolding assms(3) by (rule ok(5) [OF that(1) calm_at(2) [OF assms(2) _ that(2)]]) (use ok(1) that(1) in simp)
    show "c < MAX_PROCS \<and> current_index st' = int c" if "current_proc st' = Some c" for c
      unfolding assms(4) by (rule ok(4)) (use that assms(3) in simp)
  qed (use ok(1-3) assms(4) calm_length [OF assms(2)] in simp_all)
qed

text \<open>Leaving the current process behind.\<close>

lemma sched_ok_leave:
  assumes "sched_ok st" "calm st st'" "\<And>i. i < MAX_PROCS \<Longrightarrow> state (proc_at st' i) \<noteq> PROC_RUNNING"
    and "current_proc st' = None" "current_index st' = - 1"
  shows "sched_ok st'"
proof -
  note ok = sched_okD [OF assms(1)]
  show ?thesis
  proof (rule sched_okI)
    show "pids_ok st'" by (rule pids_ok_calm [OF ok(6) assms(2) ok(1)])
    show "current_proc st' = Some i" if "i < MAX_PROCS" "state (proc_at st' i) = PROC_RUNNING" for i
      using assms(3) that by blast
  qed (use assms(4,5) ok(1) calm_length [OF assms(2)] in simp_all)
qed

text \<open>Switching to process \<open>n\<close>, when none is running.\<close>

lemma sched_ok_switch:
  assumes "sched_ok st" "calm st s" "\<And>i. i < MAX_PROCS \<Longrightarrow> state (proc_at s i) \<noteq> PROC_RUNNING" "n < MAX_PROCS"
    and "proc_table st' = (proc_table s)[n := (proc_at s n)\<lparr>state := PROC_RUNNING\<rparr>]" "next_pid st' = next_pid s"
    and "current_proc st' = Some n" "current_index st' = int n"
  shows "sched_ok st'"
proof -
  note ok = sched_okD [OF assms(1)]
  have l: "length (proc_table s) = MAX_PROCS" using ok(1) calm_length [OF assms(2)] by simp
  have p: "pids_ok s" by (rule pids_ok_calm [OF ok(6) assms(2) ok(1)])
  have at: "proc_at st' i = (if i = n then (proc_at s n)\<lparr>state := PROC_RUNNING\<rparr> else proc_at s i)" for i
    using l assms(4) unfolding assms(5) by simp
  then have pid: "pid (proc_at st' i) = pid (proc_at s i)" for i by simp
  show ?thesis
  proof (rule sched_okI)
    show "pids_ok st'" using p unfolding pids_ok_def pid assms(6) .
    show "current_proc st' = Some i" if "i < MAX_PROCS" "state (proc_at st' i) = PROC_RUNNING" for i
      using that(2) assms(3) [OF that(1)] at [of i] assms(7) by (simp split: if_splits)
  qed (use assms(4,5,7,8) l in simp_all)
qed

lemma calm_set_proc:
  "(\<And>p. pid (f p) = pid p \<and> (state (f p) = PROC_RUNNING \<longrightarrow> state p = PROC_RUNNING)) \<Longrightarrow> calm st (set_proc i f st)"
  by (cases "i < length (proc_table st)") (auto simp: calm_def nth_list_update)

lemma calm_same: "proc_table st' = proc_table st \<Longrightarrow> next_pid st' = next_pid st \<Longrightarrow> calm st st'"
  by (simp add: calm_def)

lemma calm_cleanup: "calm st (proc_cleanup i st)"
  by (cases "i < length (proc_table st)") (auto simp: calm_def nth_list_update)

lemma calm_reap: "calm st (proc_reap st)"
proof -
  have "calm st (fold (reap_one esp) is st)" for esp "is"
  proof (induction "is" arbitrary: st)
    case (Cons i "is")
    have "calm st (reap_one esp i st)"
      by (cases "i < length (proc_table st)") (auto simp: calm_def reap_one_table nth_list_update)
    then show ?case using Cons calm_trans by auto
  qed simp
  then show ?thesis by (simp add: proc_reap_def)
qed

lemma calm_wake: "calm st (proc_wake_vfork_parent i st)"
  and wake_simps [simp]: "current_proc (proc_wake_vfork_parent i st) = current_proc st"
    "current_index (proc_wake_vfork_parent i st) = current_index st"
    "next_pid (proc_wake_vfork_parent i st) = next_pid st"
    "length (proc_table (proc_wake_vfork_parent i st)) = length (proc_table st)"
    "proc_reaper_enabled (proc_wake_vfork_parent i st) = proc_reaper_enabled st"
proof -
  let ?s = "set_proc i (\<lambda>p. p\<lparr>vfork_parent_pid := 0\<rparr>) st"
  have "calm st ?s" by (rule calm_set_proc) simp
  moreover have "calm ?s (set_proc j (\<lambda>p. p\<lparr>state := PROC_READY\<rparr>) ?s)" for j by (rule calm_set_proc) simp
  ultimately show "calm st (proc_wake_vfork_parent i st)"
    by (auto simp: proc_wake_vfork_parent_def Let_def simp del: set_proc_simps split: option.split intro: calm_trans)
qed (auto simp: proc_wake_vfork_parent_def Let_def split: option.split)

lemma calm_unrun: "calm st (unrun_current st)"
proof -
  have "calm st (set_proc c (\<lambda>p. p\<lparr>state := PROC_READY\<rparr>) st)" for c by (rule calm_set_proc) simp
  then show ?thesis by (simp add: unrun_current_def split: option.split)
qed

lemma unrun_current_stops:
  assumes "sched_ok st" "i < MAX_PROCS"
  shows "state (proc_at (unrun_current st) i) \<noteq> PROC_RUNNING"
proof
  assume r: "state (proc_at (unrun_current st) i) = PROC_RUNNING"
  have l: "i < length (proc_table st)" using sched_okD(1) [OF assms(1)] assms(2) by simp
  then have "current_proc st = Some i"
    using sched_okD(5) [OF assms] calm_at(2) [OF calm_unrun l r] by blast
  then show False using r l by (simp add: unrun_current_def split: if_splits)
qed

lemma unrun_current_simps [simp]:
  "next_pid (unrun_current st) = next_pid st" "length (proc_table (unrun_current st)) = length (proc_table st)"
  "current_proc (unrun_current st) = current_proc st" "current_index (unrun_current st) = current_index st"
  by (auto simp: unrun_current_def split: option.split)

section \<open>Every operation keeps the table well-formed\<close>

lemma find_next_range:
  assumes "sched_ok st"
  shows "proc_find_next (current_index st) st < int MAX_PROCS"
proof -
  have "find_next_from (proc_table st) (current_index st) MAX_PROCS < 16"
    unfolding find_next_from_hit [OF sched_okD(2,3) [OF assms]] by (simp split: option.split)
  then show ?thesis by (simp add: proc_find_next_def)
qed

lemma sched_ok_same:
  "sched_ok st \<Longrightarrow> proc_table st' = proc_table st \<Longrightarrow> next_pid st' = next_pid st \<Longrightarrow>
   current_proc st' = current_proc st \<Longrightarrow> current_index st' = current_index st \<Longrightarrow> sched_ok st'"
  by (rule sched_ok_calm) (auto intro: calm_same)

lemma sched_ok_reap: "sched_ok st \<Longrightarrow> sched_ok (proc_reap st)"
  by (rule sched_ok_calm [OF _ calm_reap]) simp_all

lemma sched_ok_reap_background: "sched_ok st \<Longrightarrow> sched_ok (proc_reap_background st)"
proof -
  assume ok: "sched_ok st"
  have "calm (proc_reap st) ((proc_reap st)\<lparr>proc_reap_pending := False\<rparr>)" by (rule calm_same) simp_all
  from sched_ok_calm [OF sched_ok_reap [OF ok] this] show ?thesis using ok by (simp add: proc_reap_background_def)
qed

lemma sched_ok_exit:
  assumes "sched_ok st"
  shows "sched_ok (proc_exit code st)"
proof (cases "current_proc st")
  case None
  then show ?thesis using assms by (simp add: proc_exit_def)
next
  case (Some c)
  define s0 where "s0 = (if foreground_pid st = pid (proc_at st c) then st\<lparr>foreground_pid := 0\<rparr> else st)"
  define s1 where "s1 = set_proc c (\<lambda>p. p\<lparr>state := PROC_EXITED\<rparr>) (set_proc c (\<lambda>p. p\<lparr>exit_code := code\<rparr>) s0)"
  define s2 where "s2 = proc_wake_vfork_parent c s1"
  have "calm st s0" by (rule calm_same) (simp_all add: s0_def)
  also have "calm s0 (set_proc c (\<lambda>p. p\<lparr>exit_code := code\<rparr>) s0)" by (rule calm_set_proc) simp
  also have "calm \<dots> s1" unfolding s1_def by (rule calm_set_proc) simp
  finally have c1: "calm st s1" .
  have c2: "calm s1 s2" unfolding s2_def by (rule calm_wake)
  have l: "length (proc_table st) = MAX_PROCS" "length (proc_table s1) = MAX_PROCS"
    using sched_okD(1) [OF assms] calm_length [OF c1] by simp_all
  have nr: "state (proc_at s2 i) \<noteq> PROC_RUNNING" if "i < MAX_PROCS" for i
  proof
    assume "state (proc_at s2 i) = PROC_RUNNING"
    then have r1: "state (proc_at s1 i) = PROC_RUNNING" using calm_at(2) [OF c2] l(2) that by simp
    then have "state (proc_at st i) = PROC_RUNNING" using calm_at(2) [OF c1] l(1) that by simp
    then have "i = c" using sched_okD(5) [OF assms that] Some by simp
    then show False using r1 that l by (simp add: s1_def s0_def)
  qed
  define s3 where "s3 = (if proc_reaper_enabled s2 then s2\<lparr>proc_reap_pending := True\<rparr> else s2)\<lparr>current_proc := None, current_index := - 1\<rparr>"
  have e: "proc_exit code st = s3" using Some by (simp add: proc_exit_def Let_def s3_def s2_def s1_def s0_def)
  have "calm s2 s3" by (rule calm_same) (simp_all add: s3_def)
  with c1 c2 have "calm st s3" using calm_trans by blast
  moreover have "state (proc_at s3 i) \<noteq> PROC_RUNNING" if "i < MAX_PROCS" for i
    using nr [OF that] by (simp add: s3_def)
  ultimately show ?thesis unfolding e by (rule sched_ok_leave [OF assms]) (simp_all add: s3_def)
qed

lemma sched_ok_kill: "sched_ok st \<Longrightarrow> sched_ok (snd (proc_kill n force st))"
proof -
  assume ok: "sched_ok st"
  have k: "sched_ok (st\<lparr>kill_requested_pid := n\<rparr>)"
    by (rule sched_ok_same [OF ok]) simp_all
  have main: "sched_ok (proc_wake_vfork_parent i (set_proc i (\<lambda>p. p\<lparr>state := PROC_EXITED\<rparr>) (set_proc i (\<lambda>p. p\<lparr>exit_code := 0\<rparr>) st)))" for i
  proof -
    let ?a = "set_proc i (\<lambda>p. p\<lparr>exit_code := 0\<rparr>) st"
    have "calm st ?a" by (rule calm_set_proc) simp
    also have "calm ?a (set_proc i (\<lambda>p. p\<lparr>state := PROC_EXITED\<rparr>) ?a)" by (rule calm_set_proc) simp
    also have "calm \<dots> (proc_wake_vfork_parent i (set_proc i (\<lambda>p. p\<lparr>state := PROC_EXITED\<rparr>) ?a))" by (rule calm_wake)
    finally show ?thesis by (rule sched_ok_calm [OF ok]) simp_all
  qed
  have "sched_ok (if c then bin_return_to_shell (s\<lparr>foreground_pid := 0\<rparr>) else s)" if "sched_ok s" for c s
    by (rule sched_ok_same [OF that]) (simp_all add: bin_return_to_shell_def)
  moreover have "sched_ok (if c then s\<lparr>proc_reap_pending := True\<rparr> else s)" if "sched_ok s" for c s
    by (rule sched_ok_same [OF that]) simp_all
  ultimately show ?thesis using ok k main by (simp add: proc_kill_def Let_def split: option.split)
qed

text \<open>The common end of \<open>proc_schedule\<close>, \<open>proc_take_next\<close> and \<open>proc_make_current\<close>.\<close>

lemma sched_ok_enter:
  assumes "sched_ok st" "n < MAX_PROCS"
  shows "sched_ok (set_proc n (\<lambda>p. p\<lparr>state := PROC_RUNNING\<rparr>) ((unrun_current st)\<lparr>current_index := int n, current_proc := Some n\<rparr>))"
  by (rule sched_ok_switch [OF assms(1) calm_unrun unrun_current_stops [OF assms(1)] assms(2)])
    (simp_all add: set_proc_def)

lemma sched_ok_load:
  "load_process i st = Some st' \<Longrightarrow> sched_ok st \<Longrightarrow> sched_ok st'"
  using load_process_procs [of i st st'] by (auto intro: sched_ok_same)

lemma sched_ok_set_esp: "sched_ok st \<Longrightarrow> sched_ok (set_proc i (\<lambda>p. p\<lparr>context_esp := e\<rparr>) st)"
  by (rule sched_ok_calm) (auto intro: calm_set_proc)

lemma if_or: "(if a \<or> b then x else y) = (if a then x else if b then x else y)"
  by simp

lemma sched_ok_schedule:
  assumes "sched_ok st" "proc_schedule regs save st = Some (r, st')"
  shows "sched_ok st'"
proof -
  define s1 where "s1 = (if \<not> proc_reaper_enabled st then proc_reap st else st)"
  define n where "n = proc_find_next (current_index s1) s1"
  define s2 where "s2 = (case current_proc s1 of None \<Rightarrow> s1
     | Some c \<Rightarrow> if save then set_proc c (\<lambda>p. p\<lparr>context_esp := regs\<rparr>) s1 else s1)"
  have ok1: "sched_ok s1" using assms(1) sched_ok_reap by (simp add: s1_def)
  have ok2: "sched_ok s2" using ok1 sched_ok_set_esp by (simp add: s2_def split: option.split)
  define s3 where "s3 = set_proc (nat n) (\<lambda>p. p\<lparr>state := PROC_RUNNING\<rparr>) ((unrun_current s2)\<lparr>current_index := n, current_proc := Some (nat n)\<rparr>)"
  have e: "proc_schedule regs save st = (if n < 0 \<or> n = current_index s1 \<and> current_proc s1 \<noteq> None then Some (False, s1)
      else do { s \<leftarrow> load_process (nat n) s3; Some (True, s\<lparr>sched_next_esp := context_esp (proc_at s (nat n))\<rparr>) })"
    unfolding proc_schedule_def Let_def s1_def [symmetric] n_def s2_def s3_def if_or by (rule refl)
  show ?thesis
  proof (cases "n < 0 \<or> n = current_index s1 \<and> current_proc s1 \<noteq> None")
    case True
    then have "st' = s1" using assms(2) unfolding e by simp
    then show ?thesis using ok1 by simp
  next
    case False
    have "nat n < MAX_PROCS" "int (nat n) = n" using False find_next_range [OF ok1] by (simp_all add: n_def [symmetric])
    then have ok3: "sched_ok s3" using sched_ok_enter [OF ok2, of "nat n"] by (simp add: s3_def)
    obtain s4 where s4: "load_process (nat n) s3 = Some s4" "st' = s4\<lparr>sched_next_esp := context_esp (proc_at s4 (nat n))\<rparr>"
      using assms(2) False unfolding e by (auto split: Option.bind_splits)
    show ?thesis unfolding s4(2)
      by (rule sched_ok_same [OF sched_ok_load [OF s4(1) ok3]]) simp_all
  qed
qed

lemma sched_ok_take_next: "sched_ok st \<Longrightarrow> sched_ok (snd (proc_take_next st))"
proof -
  assume ok: "sched_ok st"
  show ?thesis
  proof (cases "proc_find_next (current_index st) st < 0")
    case True
    then show ?thesis using ok by (simp add: proc_take_next_def)
  next
    case False
    then have "nat (proc_find_next (current_index st) st) < MAX_PROCS" using find_next_range [OF ok] by simp
    from sched_ok_enter [OF ok this] show ?thesis using False by (simp add: proc_take_next_def Let_def)
  qed
qed

lemma sched_ok_make_current:
  assumes "sched_ok st" "proc_make_current p regs st = Some (r, st')" "p < MAX_PROCS"
  shows "sched_ok st'"
proof (cases "current_proc st = Some p")
  case True
  define s1 where "s1 = (if state (proc_at st p) \<noteq> PROC_RUNNING then set_proc p (\<lambda>q. q\<lparr>state := PROC_RUNNING\<rparr>) st else st)"
  have ix: "current_index st = int p" using sched_okD(4) [OF assms(1) True] by simp
  have en: "sched_ok (set_proc p (\<lambda>p. p\<lparr>state := PROC_RUNNING\<rparr>) ((unrun_current st)\<lparr>current_index := int p, current_proc := Some p\<rparr>))"
    by (rule sched_ok_enter [OF assms(1,3)])
  have "sched_ok (s1\<lparr>current_index := int p\<rparr>)"
  proof (cases "state (proc_at st p) = PROC_RUNNING")
    case run: True
    then have "s1\<lparr>current_index := int p\<rparr> = st" using ix by (simp add: s1_def)
    then show ?thesis using assms(1) by simp
  next
    case False
    then have "unrun_current st = st" using True by (simp add: unrun_current_def)
    then have "set_proc p (\<lambda>p. p\<lparr>state := PROC_RUNNING\<rparr>) ((unrun_current st)\<lparr>current_index := int p, current_proc := Some p\<rparr>)
        = s1\<lparr>current_index := int p\<rparr>"
      using False True by (simp add: s1_def set_proc_def)
    then show ?thesis using en by simp
  qed
  moreover obtain s2 where "load_process p (s1\<lparr>current_index := int p\<rparr>) = Some s2" "st' = s2"
    using assms(2,3) True
    by (auto simp: proc_make_current_def proc_index_of_def Let_def s1_def [symmetric] split: Option.bind_splits)
  ultimately show ?thesis using sched_ok_load by blast
next
  case False
  define s1 where "s1 = (case current_proc st of None \<Rightarrow> st
     | Some c \<Rightarrow> if regs \<noteq> 0 then set_proc c (\<lambda>q. q\<lparr>context_esp := regs\<rparr>) st else st)"
  have ok1: "sched_ok s1" using assms(1) sched_ok_set_esp by (simp add: s1_def split: option.split)
  let ?s2 = "set_proc p (\<lambda>p. p\<lparr>state := PROC_RUNNING\<rparr>) ((unrun_current s1)\<lparr>current_index := int p, current_proc := Some p\<rparr>)"
  show ?thesis
  proof (cases "current_proc st \<noteq> None \<and> regs = 0 \<and> context_esp (proc_at st (the (current_proc st))) = 0")
    case True
    then show ?thesis using assms(1,2) False by (simp add: proc_make_current_def)
  next
    case go: False
    have "proc_make_current p regs st = do { s \<leftarrow> load_process p ?s2; Some (True, s) }"
      using go False assms(3) by (simp add: proc_make_current_def proc_index_of_def Let_def s1_def del: de_Morgan_conj)
    then have "load_process p ?s2 = Some st'" using assms(2) by (auto split: Option.bind_splits)
    then show ?thesis using sched_ok_load sched_ok_enter [OF ok1 assms(3)] by blast
  qed
qed

section \<open>Fairness\<close>





text \<open>Two kernel threads that take turns.\<close>

definition duo_thread :: "u32 \<Rightarrow> proc_state \<Rightarrow> process" where
  "duo_thread n s = proc_zero\<lparr>pid := n, is_kernel := True, context_esp := n * 0x1000, state := s\<rparr>"

definition duo_base :: sched where
  "duo_base = \<lparr>proc_table = replicate MAX_PROCS proc_zero, current_proc = None, next_pid = 3, current_index = - 1,
     proc_reaper_enabled = True, proc_reap_pending = False, proc_reaper_pid = 0, proc_watchdog_pid = 0,
     sched_next_esp = 0, kill_requested_pid = 0, last_irq_regs = 0, foreground_pid = 0, last_map_log_pid = 0,
     cpu_eflags = 0x202, cpu_esp = 0x9000, tss_esp0 = 0,
     heap = \<lparr>heap_base = 0, heap_curr = 0, heap_commit_end = 0, heap_end = 0, heap_head = 0, heap_tail = 0,
       hmem = (\<lambda>_. undefined)\<rparr>,
     mmu = small_vm 16, fd_table = replicate MAX_OPEN_FILES fd_zero,
     shell = \<lparr>keyboard_input_enabled = True, enable_shell = True, prompt_enabled = True, shell_suspended = False,
       sysmgr_prompt_pending = False, sysmgr_prompt_force = False\<rparr>\<rparr>"

definition duo :: "bool \<Rightarrow> sched" where
  "duo b = duo_base\<lparr>proc_table := [duo_thread 1 (if b then PROC_RUNNING else PROC_READY),
       duo_thread 2 (if b then PROC_READY else PROC_RUNNING)] @ replicate 14 proc_zero,
     current_proc := Some (if b then 0 else 1), current_index := (if b then 0 else 1),
     sched_next_esp := (if b then 0x1000 else 0x2000)\<rparr>"

lemma duo_at:
  "proc_at (duo b) i = (if i = 0 then duo_thread 1 (if b then PROC_RUNNING else PROC_READY)
     else if i = 1 then duo_thread 2 (if b then PROC_READY else PROC_RUNNING) else proc_zero)" if "i < MAX_PROCS"
proof -
  have "([a, b] @ replicate 14 z) ! i = (if i = 0 then a else if i = 1 then b else z)" for a b z :: process
    using that by (auto simp: nth_append nth_Cons')
  then show ?thesis by (simp add: duo_def)
qed

lemma duo_ok: "sched_ok (duo b)"
proof (rule sched_okI)
  show "pids_ok (duo b)"
    unfolding pids_ok_def by (auto simp: duo_at duo_thread_def) (auto simp: duo_def duo_base_def)
qed (auto simp: duo_at duo_thread_def split: if_splits, (auto simp: duo_def)+)




section \<open>What reaping and killing do\<close>

definition close_owned :: "u32 set \<Rightarrow> syscall_fd \<Rightarrow> syscall_fd" where
  "close_owned P f = (if fd_used f \<noteq> 0 \<and> owner_pid f \<in> P then fd_zero else f)"

lemma close_owned_Un: "close_owned P (close_owned Q f) = close_owned (P \<union> Q) f"
  by (simp add: close_owned_def fd_zero_def)

lemma close_owned_none [simp]: "close_owned {} = id"
  by (simp add: close_owned_def fun_eq_iff)

lemma close_fds_owned: "sys_close_fds_for_pid n fs = map (close_owned ({n} - {0})) fs"
  by (auto simp: sys_close_fds_for_pid_def close_owned_def)

definition reaped_pids :: "sched \<Rightarrow> u32 \<Rightarrow> nat set \<Rightarrow> u32 set" where
  "reaped_pids st esp I = {pid (proc_at st i) | i. i \<in> I \<and> reapable st esp i} - {0}"

lemma fold_reap_fds:
  assumes "distinct is" "\<forall>i \<in> set is. i < length (proc_table st)"
  shows "fd_table (fold (reap_one esp) is st) = map (close_owned (reaped_pids st esp (set is))) (fd_table st)"
  using assms
proof (induction "is" arbitrary: st)
  case Nil
  then show ?case by (simp add: close_owned_def reaped_pids_def)
next
  case (Cons i "is")
  let ?st = "reap_one esp i st"
  have same: "proc_at ?st j = proc_at st j" "reapable ?st esp j \<longleftrightarrow> reapable st esp j" if "j \<in> set is" for j
  proof -
    show p: "proc_at ?st j = proc_at st j" using Cons.prems(1) that by (cases "j = i") (auto simp: reap_one_table)
    show "reapable ?st esp j \<longleftrightarrow> reapable st esp j" using p by (simp add: reapable_def)
  qed
  have r: "reaped_pids ?st esp (set is) = reaped_pids st esp (set is)"
    unfolding reaped_pids_def using same by (metis (no_types, lifting))
  have fd: "fd_table ?st = map (close_owned (if reapable st esp i then {pid (proc_at st i)} - {0} else {})) (fd_table st)"
    by (auto simp: reap_one_def reapable_def Let_def close_fds_owned close_owned_def intro!: map_idI [symmetric])
  have u: "reaped_pids st esp (set (i # is))
      = reaped_pids st esp (set is) \<union> (if reapable st esp i then {pid (proc_at st i)} - {0} else {})"
    by (auto simp: reaped_pids_def)
  have "fd_table (fold (reap_one esp) (i # is) st) = map (close_owned (reaped_pids st esp (set is))) (fd_table ?st)"
    using Cons.IH [of ?st] Cons.prems unfolding r by (simp add: reap_one_table)
  then show ?case unfolding fd u by (simp add: close_owned_Un)
qed

text \<open>
  C2: Reaping is safe: it clears exactly the entries of exited processes that are not the current one
  and whose kernel stack the processor is not on, and closes exactly the files of their owners; every
  other entry and file stays as it is.
\<close>

theorem proc_reap_safe:
  assumes "length (proc_table st) = MAX_PROCS"
  shows "(\<forall>i < MAX_PROCS. proc_at (proc_reap st) i =
        (if state (proc_at st i) = PROC_EXITED \<and> current_proc st \<noteq> Some i
            \<and> \<not> proc_stack_in_use (proc_at st i) (cpu_esp st) then proc_zero else proc_at st i))
    \<and> fd_table (proc_reap st) = map (\<lambda>f. if fd_used f \<noteq> 0 \<and> owner_pid f \<noteq> 0
          \<and> (\<exists>i < MAX_PROCS. proc_at (proc_reap st) i \<noteq> proc_at st i \<and> pid (proc_at st i) = owner_pid f)
        then fd_zero else f) (fd_table st)"
proof -
  have at: "proc_at (proc_reap st) i = (if reapable st (cpu_esp st) i then proc_zero else proc_at st i)" if "i < MAX_PROCS" for i
    using proc_reap_table [OF assms, of i] that by simp
  have "pid (proc_at st i) \<noteq> 0 \<Longrightarrow> proc_at (proc_reap st) i \<noteq> proc_at st i \<longleftrightarrow> reapable st (cpu_esp st) i" if "i < MAX_PROCS" for i
    using at [OF that] by (metis proc_zero_simps(2))
  then have "f \<in> reaped_pids st (cpu_esp st) (set [0..<MAX_PROCS]) \<longleftrightarrow> f \<noteq> 0 \<and>
      (\<exists>i < MAX_PROCS. proc_at (proc_reap st) i \<noteq> proc_at st i \<and> pid (proc_at st i) = f)" for f
    unfolding reaped_pids_def set_upt by (auto simp del: upt_rec_numeral)
  note mem = this
  have "fd_table (proc_reap st) = map (close_owned (reaped_pids st (cpu_esp st) (set [0..<MAX_PROCS]))) (fd_table st)"
    unfolding proc_reap_def proc_get_current_esp_def by (rule fold_reap_fds) (use assms in simp_all)
  also have "\<dots> = map (\<lambda>f. if fd_used f \<noteq> 0 \<and> owner_pid f \<noteq> 0
          \<and> (\<exists>i < MAX_PROCS. proc_at (proc_reap st) i \<noteq> proc_at st i \<and> pid (proc_at st i) = owner_pid f)
        then fd_zero else f) (fd_table st)"
    unfolding close_owned_def mem conj_assoc ..
  finally show ?thesis using at by (simp add: reapable_def)
qed

text \<open>The second of the two threads has exited.\<close>

definition duo_exited :: sched where
  "duo_exited = set_proc 1 (\<lambda>p. p\<lparr>state := PROC_EXITED\<rparr>) (duo True)"

theorem proc_reap_safe_witness:
  "length (proc_table duo_exited) = MAX_PROCS \<and> proc_at (proc_reap duo_exited) 1 = proc_zero
   \<and> proc_at (proc_reap duo_exited) 0 = proc_at duo_exited 0"
proof -
  have l: "length (proc_table (duo True)) = MAX_PROCS" by (rule sched_okD(1) [OF duo_ok])
  have l1: "length (proc_table duo_exited) = MAX_PROCS" unfolding duo_exited_def set_proc_simps length_list_update by (rule l)
  have r: "proc_at (proc_reap duo_exited) i = (if state (proc_at duo_exited i) = PROC_EXITED \<and> current_proc duo_exited \<noteq> Some i
      \<and> \<not> proc_stack_in_use (proc_at duo_exited i) (cpu_esp duo_exited) then proc_zero else proc_at duo_exited i)"
    if "i < MAX_PROCS" for i using proc_reap_safe [OF l1] that by blast
  have at: "proc_at duo_exited 0 = duo_thread 1 PROC_RUNNING" "proc_at duo_exited 1 = duo_thread 2 PROC_EXITED"
    using duo_at [of 0 True] duo_at [of 1 True] l by (simp_all add: duo_exited_def duo_thread_def)
  have "current_proc duo_exited = Some 0" by (simp add: duo_exited_def duo_def)
  then show ?thesis using r [of 0] r [of 1] at l1
    by (simp add: duo_thread_def proc_stack_in_use_def proc_zero_def)
qed

section \<open>Killing a process\<close>

text \<open>The effect of waking the parent of an exited process: it loses its parent's number and only a
  blocked process of that number becomes ready.\<close>

definition parent_waits :: "sched \<Rightarrow> nat \<Rightarrow> nat \<Rightarrow> bool" where
  "parent_waits st i j \<longleftrightarrow> vfork_parent_pid (proc_at st i) \<noteq> 0 \<and> pid (proc_at st j) = vfork_parent_pid (proc_at st i)
     \<and> state (proc_at st j) = PROC_BLOCKED"

lemma wake_at:
  assumes "pids_ok st" "length (proc_table st) = MAX_PROCS" "i < MAX_PROCS" "state (proc_at st i) = PROC_EXITED" "j < MAX_PROCS"
  shows "proc_at (proc_wake_vfork_parent i st) j = (if j = i then (proc_at st i)\<lparr>vfork_parent_pid := 0\<rparr>
    else if parent_waits st i j then (proc_at st j)\<lparr>state := PROC_READY\<rparr> else proc_at st j)"
proof -
  let ?s = "set_proc i (\<lambda>p. p\<lparr>vfork_parent_pid := 0\<rparr>) st"
  let ?n = "vfork_parent_pid (proc_at st i)"
  let ?f = "first_index (\<lambda>p. pid p = ?n) (proc_table ?s)"
  have same: "pid (proc_at ?s k) = pid (proc_at st k)" "state (proc_at ?s k) = state (proc_at st k)" if "k < MAX_PROCS" for k
    using that assms(2,3) by (simp_all add: nth_list_update)
  have uniq: "k = j" if "k < MAX_PROCS" "pid (proc_at st k) = ?n" "pid (proc_at st j) = ?n" "?n \<noteq> 0" for k
    using assms(1,5) that unfolding pids_ok_def by metis
  show ?thesis
  proof (cases "?n = 0")
    case True
    then have "(proc_at st i)\<lparr>vfork_parent_pid := 0\<rparr> = proc_at st i" by (cases "proc_at st i") simp
    then show ?thesis using True by (simp add: proc_wake_vfork_parent_def parent_waits_def)
  next
    case nz: False
    show ?thesis
    proof (cases ?f)
      case None
      then have "pid (proc_at st j) \<noteq> ?n"
        using same(1) [OF assms(5)] assms(2,5) unfolding first_index_None_iff by (metis length_list_update nth_mem set_proc_simps(1))
      then show ?thesis using None nz assms(2,3) by (simp add: proc_wake_vfork_parent_def parent_waits_def Let_def nth_list_update)
    next
      case (Some k)
      then have "k < length (proc_table ?s)" "pid (proc_at ?s k) = ?n" using first_index_SomeD by blast+
      then have k: "k < MAX_PROCS" "pid (proc_at st k) = ?n" using assms(2) same(1) by simp_all
      have w: "proc_wake_vfork_parent i st = (if state (proc_at st k) = PROC_BLOCKED then set_proc k (\<lambda>p. p\<lparr>state := PROC_READY\<rparr>) ?s else ?s)"
        using nz Some same(2) [OF k(1)] unfolding proc_wake_vfork_parent_def Let_def by simp
      have "parent_waits st i j \<longleftrightarrow> j = k \<and> state (proc_at st k) = PROC_BLOCKED"
        using uniq [OF k _ nz] k nz by (auto simp: parent_waits_def)
      then show ?thesis using w k(1) assms(2-5) by (auto simp: nth_list_update)
    qed
  qed
qed

lemma wake_frame: "proc_wake_vfork_parent i st = st\<lparr>proc_table := proc_table (proc_wake_vfork_parent i st)\<rparr>"
  by (simp add: proc_wake_vfork_parent_def set_proc_def Let_def split: option.split)

text \<open>What is left of a state in which the process in slot \<open>i\<close> has been ended from outside.\<close>

definition ended :: "sched \<Rightarrow> nat \<Rightarrow> sched" where
  "ended st i =
     (let foreground = foreground_pid st = pid (proc_at st i) in
      st\<lparr>proc_table := map (\<lambda>j. if j = i then (proc_at st i)\<lparr>exit_code := 0, state := PROC_EXITED, vfork_parent_pid := 0\<rparr>
             else if parent_waits st i j then (proc_at st j)\<lparr>state := PROC_READY\<rparr> else proc_at st j) [0..<MAX_PROCS],
         foreground_pid := (if foreground then 0 else foreground_pid st),
         shell := (if foreground then \<lparr>keyboard_input_enabled = True, enable_shell = True, prompt_enabled = True,
             shell_suspended = False, sysmgr_prompt_pending = True, sysmgr_prompt_force = True\<rparr> else shell st),
         proc_reap_pending := (proc_reaper_enabled st \<or> proc_reap_pending st)\<rparr>)"

lemma ended_wake:
  assumes "sched_ok st" "i < MAX_PROCS"
  shows "proc_wake_vfork_parent i (set_proc i (\<lambda>p. p\<lparr>state := PROC_EXITED\<rparr>) (set_proc i (\<lambda>p. p\<lparr>exit_code := 0\<rparr>) st))
    = st\<lparr>proc_table := proc_table (ended st i)\<rparr>"
proof -
  let ?s = "set_proc i (\<lambda>p. p\<lparr>state := PROC_EXITED\<rparr>) (set_proc i (\<lambda>p. p\<lparr>exit_code := 0\<rparr>) st)"
  have len: "length (proc_table st) = MAX_PROCS" by (rule sched_okD(1) [OF assms(1)])
  have ok: "pids_ok st" using assms(1) by (simp add: sched_ok_def)
  have at: "proc_at ?s j = (if j = i then (proc_at st i)\<lparr>exit_code := 0, state := PROC_EXITED\<rparr> else proc_at st j)" for j
    using len assms(2) by (simp add: nth_list_update)
  have pid: "pid (proc_at ?s j) = pid (proc_at st j)" for j unfolding at by simp
  have "pids_ok ?s" using ok unfolding pids_ok_def pid unfolding set_proc_simps .
  note wake = wake_at [OF this, of i]
  have "proc_table (proc_wake_vfork_parent i ?s) = proc_table (ended st i)"
  proof (rule nth_equalityI)
    have "length (proc_table (proc_wake_vfork_parent i ?s)) = MAX_PROCS"
      using calm_length [OF calm_wake [of ?s i]] len by simp
    then show l: "length (proc_table (proc_wake_vfork_parent i ?s)) = length (proc_table (ended st i))" by (simp add: ended_def Let_def)
    fix j assume "j < length (proc_table (proc_wake_vfork_parent i ?s))"
    then have j: "j < MAX_PROCS" using l by (simp add: ended_def Let_def)
    have "parent_waits ?s i j = parent_waits st i j" if "j \<noteq> i" using that unfolding parent_waits_def at by simp
    moreover have "proc_at (ended st i) j = (if j = i then (proc_at st i)\<lparr>exit_code := 0, state := PROC_EXITED, vfork_parent_pid := 0\<rparr>
        else if parent_waits st i j then (proc_at st j)\<lparr>state := PROC_READY\<rparr> else proc_at st j)"
      using j by (simp add: ended_def Let_def)
    ultimately show "proc_at (proc_wake_vfork_parent i ?s) j = proc_at (ended st i) j"
      using wake [OF _ assms(2) _ j] len unfolding at by simp
  qed
  then show ?thesis using wake_frame [of i ?s] by (simp add: set_proc_def)
qed

lemma kill_other:
  assumes "sched_ok st" "n \<noteq> 0" "\<not> (current_proc st \<noteq> None \<and> pid (proc_at st (the (current_proc st))) = n)"
    and "first_index (\<lambda>p. state p \<noteq> PROC_UNUSED \<and> pid p = n) (proc_table st) = Some i"
    and "\<not> (state (proc_at st i) = PROC_EXITED \<or> is_kernel (proc_at st i) \<and> \<not> force)"
  shows "proc_kill n force st = (PROC_KILL_OK, ended st i)"
proof -
  have i: "i < MAX_PROCS" "pid (proc_at st i) = n"
    using first_index_SomeD [OF assms(4)] sched_okD(1) [OF assms(1)] by simp_all
  have sh: "s\<lparr>keyboard_input_enabled := True, enable_shell := True, prompt_enabled := True, shell_suspended := False,
      sysmgr_prompt_pending := True, sysmgr_prompt_force := True\<rparr> = \<lparr>keyboard_input_enabled = True, enable_shell = True,
      prompt_enabled = True, shell_suspended = False, sysmgr_prompt_pending = True, sysmgr_prompt_force = True\<rparr>" for s
    by (cases s) simp
  have "proc_kill n force st = (PROC_KILL_OK,
      let s = st\<lparr>proc_table := proc_table (ended st i)\<rparr>;
          s = (if proc_is_foreground_pid n st then bin_return_to_shell (s\<lparr>foreground_pid := 0\<rparr>) else s)
      in if proc_reaper_enabled s then s\<lparr>proc_reap_pending := True\<rparr> else s)"
    unfolding ended_wake [OF assms(1) i(1), symmetric] proc_kill_def if_not_P [OF assms(2)] if_not_P [OF assms(3)] assms(4)
    using assms(5) by (simp add: Let_def)
  also have "\<dots> = (PROC_KILL_OK, ended st i)"
    using assms(2) i(2) by (simp add: ended_def bin_return_to_shell_def proc_is_foreground_pid_def sh Let_def)
  finally show ?thesis .
qed

text \<open>
  C3: The result of \<open>proc_kill\<close> says what it found and did, in a well-formed process table.  An error
  leaves everything as it was.  The running process is only marked, to be ended at its next interrupt.
  Any other process must be alive; it is ended with exit code 0, its parent is made ready if it is
  blocked waiting for it, the shell comes back if the process was in the foreground, the reaper is
  notified if it is enabled, and nothing else changes.
\<close>

theorem proc_kill_outcome:
  assumes "sched_ok st" "proc_kill n force st = (res, st')"
  shows "case res of
      PROC_KILL_INVALID \<Rightarrow> n = 0 \<and> st' = st
    | PROC_KILL_NO_SUCH \<Rightarrow> n \<noteq> 0 \<and> st' = st
        \<and> (\<forall>i < MAX_PROCS. pid (proc_at st i) = n \<longrightarrow> state (proc_at st i) = PROC_UNUSED \<and> current_proc st \<noteq> Some i)
    | PROC_KILL_ALREADY_EXITED \<Rightarrow> n \<noteq> 0 \<and> st' = st
        \<and> (\<exists>i < MAX_PROCS. pid (proc_at st i) = n \<and> state (proc_at st i) = PROC_EXITED \<and> current_proc st \<noteq> Some i)
    | PROC_KILL_KERNEL \<Rightarrow> n \<noteq> 0 \<and> st' = st \<and> \<not> force
        \<and> (\<exists>i < MAX_PROCS. pid (proc_at st i) = n \<and> is_kernel (proc_at st i) \<and> (current_proc st = Some i \<or> \<not> dead (proc_at st i)))
    | PROC_KILL_OK \<Rightarrow> n \<noteq> 0 \<and> (\<exists>i < MAX_PROCS. pid (proc_at st i) = n \<and> (is_kernel (proc_at st i) \<longrightarrow> force)
        \<and> (if current_proc st = Some i then st' = st\<lparr>kill_requested_pid := n\<rparr>
           else \<not> dead (proc_at st i) \<and> st' = ended st i))"
proof (cases "n = 0")
  case True
  then show ?thesis using assms(2) by (auto simp: proc_kill_def)
next
  case nz: False
  have len: "length (proc_table st) = MAX_PROCS" by (rule sched_okD(1) [OF assms(1)])
  show ?thesis
  proof (cases "current_proc st \<noteq> None \<and> pid (proc_at st (the (current_proc st))) = n")
    case True
    then obtain c where c: "current_proc st = Some c" "pid (proc_at st c) = n" by auto
    then have "c < MAX_PROCS" using sched_okD(4) [OF assms(1)] by blast
    then show ?thesis using assms(2) nz c by (auto simp: proc_kill_def split: if_splits)
  next
    case other: False
    then have nc: "current_proc st \<noteq> Some i" if "pid (proc_at st i) = n" for i using that by auto
    show ?thesis
    proof (cases "first_index (\<lambda>p. state p \<noteq> PROC_UNUSED \<and> pid p = n) (proc_table st)")
      case None
      then have "res = PROC_KILL_NO_SUCH \<and> st' = st" using assms(2) nz other by (auto simp: proc_kill_def)
      moreover have "\<forall>i < MAX_PROCS. pid (proc_at st i) = n \<longrightarrow> state (proc_at st i) = PROC_UNUSED"
        using None len unfolding first_index_None_iff by (metis nth_mem)
      ultimately show ?thesis using nz nc by simp
    next
      case (Some i)
      then have i: "i < MAX_PROCS" "pid (proc_at st i) = n" "state (proc_at st i) \<noteq> PROC_UNUSED"
        using first_index_SomeD [OF Some] len by auto
      show ?thesis
      proof (cases "state (proc_at st i) = PROC_EXITED \<or> is_kernel (proc_at st i) \<and> \<not> force")
        case True
        then show ?thesis using assms(2) nz other Some i nc [OF i(2)]
          by (auto simp: proc_kill_def dead_def split: if_splits)
      next
        case False
        then have "res = PROC_KILL_OK \<and> st' = ended st i"
          using assms(2) kill_other [OF assms(1) nz other Some] by simp
        then show ?thesis using i nc [OF i(2)] nz False by (auto simp: dead_def)
      qed
    qed
  qed
qed

text \<open>The second thread of \<open>duo\<close> as a child in the foreground, whose parent in slot 2 waits for it.\<close>

definition trio :: sched where
  "trio = (duo True)\<lparr>proc_table := [duo_thread 1 PROC_RUNNING, (duo_thread 2 PROC_READY)\<lparr>vfork_parent_pid := 3\<rparr>,
       duo_thread 3 PROC_BLOCKED] @ replicate 13 proc_zero, next_pid := 4, foreground_pid := 2\<rparr>"

lemma trio_at: "i < MAX_PROCS \<Longrightarrow> proc_at trio i = (if i = 0 then duo_thread 1 PROC_RUNNING
    else if i = 1 then (duo_thread 2 PROC_READY)\<lparr>vfork_parent_pid := 3\<rparr> else if i = 2 then duo_thread 3 PROC_BLOCKED else proc_zero)"
  by (auto simp: trio_def nth_append nth_Cons')

lemma trio_ok: "sched_ok trio"
proof (rule sched_okI)
  show "pids_ok trio"
    unfolding pids_ok_def by (auto simp: trio_at duo_thread_def) (auto simp: trio_def)
qed (auto simp: trio_at duo_thread_def split: if_splits, auto simp: trio_def duo_def)

theorem proc_kill_outcome_witness:
  "\<exists>st'. proc_kill 2 True trio = (PROC_KILL_OK, st') \<and> state (proc_at st' 1) = PROC_EXITED
     \<and> state (proc_at st' 2) = PROC_READY \<and> foreground_pid st' = 0 \<and> proc_reap_pending st'"
proof -
  obtain res st' where r: "proc_kill 2 True trio = (res, st')" by fastforce
  have p: "pid (proc_at trio i) = (if i = 0 then 1 else if i = 1 then 2 else if i = 2 then 3 else 0)" if "i < MAX_PROCS" for i
    using trio_at [OF that] by (simp add: duo_thread_def)
  have c: "current_proc trio = Some 0" by (simp add: trio_def duo_def)
  note out = proc_kill_outcome [OF trio_ok r]
  have ok: "res = PROC_KILL_OK"
    using out p trio_at [of 1] by (cases res) (auto simp: duo_thread_def split: if_splits dest: spec [of _ "Suc 0"])
  then obtain i where i: "i < MAX_PROCS" "pid (proc_at trio i) = 2"
      "if current_proc trio = Some i then st' = trio\<lparr>kill_requested_pid := 2\<rparr> else \<not> dead (proc_at trio i) \<and> st' = ended trio i"
    using out by auto
  then have "i = 1" using p [OF i(1)] i(2) by (simp split: if_splits)
  then have "st' = ended trio 1" using i(3) c by simp
  then show ?thesis using r ok trio_at [of 1] trio_at [of 2]
    by (simp add: ended_def Let_def parent_waits_def duo_thread_def) (simp add: trio_def duo_def duo_base_def)
qed

end
