(* ===== verification/Spec2Isabelle.thy ===== *)
theory Spec2Isabelle
  imports Work_Queue Kernel_Log Timer_Tasks Libc_Printf Boot_Space Syscall_Handler Elf_Safety Scheduling
begin

text \<open>
  A verification library for the kernel of orionOS, an operating system for 32-bit x86 machines.
  The functions of the C sources under \<^verbatim>\<open>src/\<close> are HOL functions with the same names; this text says
  where each part of the kernel is modelled and what is shown about it.

  \<^bold>\<open>The program.\<close>  At boot the physical memory manager reads the memory map, \<open>paging_init\<close> builds the
  kernel's page tables and turns paging on, and the heap is laid over a range of addresses whose
  pages it maps on demand.  Processes are entries of a table of 16; the scheduler takes them in
  turn, and the loaders fill new ones from flat or ELF files.  Processes enter the kernel through
  system calls.  Interrupt handlers leave work in a queue, timers run tasks from a table, and
  messages go to two logs.

  \<^bold>\<open>How C is modelled.\<close>  \<^theory_text>\<open>Orion_Prelude\<close> has the machine words, C \<open>int\<close> arithmetic as \<^typ>\<open>int\<close> with an
  explicit range, and arrays as lists.  An access outside an object, an \<open>int\<close> overflow and a page fault
  are the value \<^const>\<open>None\<close>, so a theorem that an operation returns \<^const>\<open>Some\<close> also says that
  none of them happens.  Error codes and null pointers are ordinary results.  State is passed
  explicitly, in one record per component.  Loops over a table are structural, loops with a bound
  are functions with a measure, and loops that may not end are partial functions whose value is
  \<^const>\<open>None\<close> when they do not; no fuel is used anywhere.  Console output that nothing reads is left
  out, and so is the translation cache of the processor.

  \<^bold>\<open>Theories and sources.\<close>

  \<^item> \<^theory_text>\<open>Ring_Buffers\<close>: circular buffers as lists, and the contracts \<open>bounded_queue\<close> and
    \<open>sliding_window\<close>.
  \<^item> \<^theory_text>\<open>Work_Queue\<close> (\<^verbatim>\<open>kernel/proc/workqueue.c\<close>): interprets \<open>bounded_queue\<close>.  Enqueueing is that of a
    FIFO queue of 63 items; running the queue ends and calls each item once, in order.
  \<^item> \<^theory_text>\<open>Kernel_Log\<close> (\<^verbatim>\<open>kernel/log.c\<close>): interprets \<open>sliding_window\<close>.  The kernel log keeps the newest 16384
    characters, the boot log the oldest 8191.
  \<^item> \<^theory_text>\<open>Timer_Tasks\<close> (\<^verbatim>\<open>kernel/proc/timer_task.c\<close>): scheduling and cancelling, which tasks a run fires, and
    when a run does not end.
  \<^item> \<^theory_text>\<open>Libc_String\<close>, \<^theory_text>\<open>Libc_Format\<close>, \<^theory_text>\<open>Libc_Printf\<close> (\<^verbatim>\<open>libc/string.c\<close>): overlapping copies, comparison,
    search, tokens, the random generator, numbers to text and back, and \<open>snprintf\<close> against a
    reference that parses the format and renders it.
  \<^item> \<^theory_text>\<open>Pmm\<close> (\<^verbatim>\<open>mm/pmm.c\<close>): which pages are free after boot, first-fit allocation, and the contract
    \<open>page_source\<close> with its interpretation.  The allocation lemmas hold for memory up to 2 GiB, because
    above it an \<open>int\<close> product of the code overflows.
  \<^item> \<^theory_text>\<open>Kheap\<close> (\<^verbatim>\<open>mm/mem.c\<close>): the list of blocks with headers, an invariant kept by every allocation and
    free, and the relation \<open>heap_reach\<close> of reachable heaps with their live allocations.  Live
    allocations are disjoint, requests that do not wrap are answered, and requests that wrap are
    shown to be answered wrongly.  Mapping a page is a parameter.
  \<^item> \<^theory_text>\<open>Paging\<close>, \<^theory_text>\<open>Address_Space\<close>, \<^theory_text>\<open>Boot_Space\<close> (\<^verbatim>\<open>mm/paging.c\<close>): physical memory, the page walk of the
    processor and the recursive window through which the kernel edits its tables.  Mapping a page
    has the effect it should on every address, lookup agrees with the processor, ranges get distinct
    fresh pages, and the tables built at boot satisfy the invariant.
  \<^item> \<^theory_text>\<open>Memory_Bytes\<close>: byte and word accesses of the kernel through the page walk.
  \<^item> \<^theory_text>\<open>Proc\<close>, \<^theory_text>\<open>Proc_Create\<close> (\<^verbatim>\<open>kernel/proc/proc.c\<close>, \<^verbatim>\<open>cpu/tss.c\<close>): the process table, exit, kill, reaping,
    scheduling; stacks, first frames, creation, fork and exec.
  \<^item> \<^theory_text>\<open>Scheduling\<close>: the invariant \<open>sched_ok\<close> of the table (one running process, the current one; unique
    process numbers), kept by exit, kill, reap and the scheduler; a ready process is scheduled within
    16 calls; the exact effect of reaping and of killing.
  \<^item> \<^theory_text>\<open>Elf_Loader\<close>, \<^theory_text>\<open>Bin_Loader\<close> (\<^verbatim>\<open>kernel/elf.c\<close>, \<^verbatim>\<open>kernel/bin.c\<close>) and \<^theory_text>\<open>Elf_Safety\<close>: loading and starting
    programs; the segments of an accepted file lie in the file and in the image, and the addresses
    of movable images do not overlap.
  \<^item> \<^theory_text>\<open>Syscall_Support\<close>, \<^theory_text>\<open>Syscall_Handler\<close> (\<^verbatim>\<open>kernel/syscall.c\<close>): files, the message queue, checks of user
    pointers, and one definition per system call; they are definitions of the model, about which
    the closing of files by the reaper is the only property.

  \<^bold>\<open>Parameters.\<close>  The file systems and the console output are a record \<open>fscmd\<close> of operations over an
  arbitrary state; screen, mouse, keyboard, configuration and shell commands are a record \<open>devices\<close>.
  The addresses of kernel threads and of the assembly exit path are arguments.

  \<^bold>\<open>Not modelled.\<close>  Drivers (storage, USB, audio, screen, input), the file-system formats, interrupt and
  descriptor tables, boot code and other assembly, the interactive commands, the endless loops of
  the kernel threads, and the programs outside the kernel: device I/O, or code reached only through
  the parameters above.  Concurrency is that of a single processor; where the code disables
  interrupts the model keeps the flag, and interrupts between the steps are not interleaved.
\<close>

end
